(* ===== verification/Vortex_Prelude.thy ===== *)
theory Vortex_Prelude
  imports Main "HOL-Library.Word" "HOL-Library.AList"
begin

text \<open>
  Shared vocabulary of the development: the Go types the program uses, the fact
  collections the component theories extend, and the generic lemmas on machine
  words, association lists and optional list ends that more than one component needs.

  Go values are represented as follows.
  \<^item> A Go \<open>string\<close> and the contents of a \<open>[]byte\<close> are byte sequences: HOL's \<open>string\<close>,
    whose characters are exactly the 256 byte values.
  \<^item> A slice that may be \<open>nil\<close> is a list option; \<open>None\<close> is \<open>nil\<close>.
  \<^item> \<open>int64\<close>, \<open>time.Duration\<close> and \<open>int\<close> (64 bits on the supported platforms) are
    64-bit words, read with \<open>sint\<close> and compared with the signed orders.
  \<^item> A Go map is an association list with distinct keys; the order of the list is
    never observed, and a \<open>range\<close> loop receives its iteration order as an argument.
\<close>

unbundle bit_operations_syntax

type_synonym byte = char
type_synonym bytes = string
type_synonym 'a slice = "'a list option"
type_synonym int64 = "64 word"
type_synonym goint = "64 word"
type_synonym Duration = "64 word"
type_synonym ('k, 'v) gomap = "('k \<times> 'v) list"

named_theorems signed_simps \<open>reading signed comparisons and arithmetic through sint\<close>
named_theorems gomap_simps \<open>lookup, domain and size of Go maps\<close>
named_theorems op_defs \<open>definitions of the operations of the store package\<close>

subsection \<open>Slices and list ends\<close>

text \<open>The elements of a possibly-\<open>nil\<close> slice: \<open>len(nil) = 0\<close>.\<close>

definition elems :: "'a slice \<Rightarrow> 'a list" where
  "elems s = (case s of None \<Rightarrow> [] | Some xs \<Rightarrow> xs)"

lemma elems_simps [simp]: "elems None = []" "elems (Some xs) = xs"
  by (simp_all add: elems_def)

fun hd_opt :: "'a list \<Rightarrow> 'a option" where
  "hd_opt [] = None"
| "hd_opt (x # xs) = Some x"

definition last_opt :: "'a list \<Rightarrow> 'a option" where
  "last_opt xs = (if xs = [] then None else Some (last xs))"

lemma last_opt_simps [simp]:
  "last_opt [] = None"
  "last_opt (xs @ [x]) = Some x"
  by (simp_all add: last_opt_def)

lemma last_opt_Cons: "last_opt (x # xs) = (case last_opt xs of None \<Rightarrow> Some x | Some y \<Rightarrow> Some y)"
  by (simp add: last_opt_def)

lemma last_opt_append: "ys \<noteq> [] \<Longrightarrow> last_opt (xs @ ys) = last_opt ys"
  by (simp add: last_opt_def)

lemma hd_opt_append: "hd_opt (xs @ ys) = (case xs of [] \<Rightarrow> hd_opt ys | x # _ \<Rightarrow> Some x)"
  by (cases xs) auto

lemma hd_opt_None [simp]: "hd_opt xs = None \<longleftrightarrow> xs = []"
  by (cases xs) auto

lemma last_opt_None [simp]: "last_opt xs = None \<longleftrightarrow> xs = []"
  by (simp add: last_opt_def)

lemma hd_opt_Some_iff: "hd_opt xs = Some a \<longleftrightarrow> (\<exists>ys. xs = a # ys)"
  by (cases xs) auto

lemma last_opt_Some_iff: "last_opt xs = Some a \<longleftrightarrow> (\<exists>ys. xs = ys @ [a])"
  by (cases xs rule: rev_cases) auto

lemma removeAll_remove1: "distinct xs \<Longrightarrow> removeAll x xs = remove1 x xs"
  by (simp add: distinct_remove1_removeAll)

subsection \<open>Signed 64-bit arithmetic\<close>

declare word_sless_alt [signed_simps] word_sle_eq [signed_simps]

lemma sint64_bounds: "- (2 ^ 63) \<le> sint (x :: 64 word)" "sint (x :: 64 word) < 2 ^ 63"
  using sint_greater_eq [of x] sint_less [of x] by simp_all

lemma sint64_of_int:
  "- (2 ^ 63) \<le> i \<Longrightarrow> i < 2 ^ 63 \<Longrightarrow> sint (word_of_int i :: 64 word) = i"
  by (simp add: sint_sbintrunc' signed_take_bit_int_eq_self)

lemma sint64_add:
  assumes "- (2 ^ 63) \<le> sint a + sint b" and "sint a + sint b < 2 ^ 63"
  shows "sint (a + b :: 64 word) = sint a + sint b"
  using assms by (simp add: sint_word_ariths signed_take_bit_int_eq_self)

text \<open>A sum of two 64-bit numbers that is too large wraps to a negative number.\<close>

lemma sint64_add_overflow:
  assumes "2 ^ 63 \<le> sint a + sint b"
  shows "sint (a + b :: 64 word) < 0"
proof -
  have "sint (a + b) = signed_take_bit 63 (sint a + sint b)" by (simp add: sint_word_ariths)
  also have "\<dots> \<le> sint a + sint b - 2 ^ Suc 63" using assms by (rule signed_take_bit_int_less_eq)
  also have "\<dots> < 0" using sint64_bounds(2) [of a] sint64_bounds(2) [of b] by simp
  finally show ?thesis .
qed

lemma sint64_diff:
  assumes "- (2 ^ 63) \<le> sint a - sint b" and "sint a - sint b < 2 ^ 63"
  shows "sint (a - b :: 64 word) = sint a - sint b"
  using assms by (simp add: sint_word_ariths signed_take_bit_int_eq_self)

lemma sint64_mult:
  assumes "- (2 ^ 63) \<le> sint a * sint b" and "sint a * sint b < 2 ^ 63"
  shows "sint (a * b :: 64 word) = sint a * sint b"
  using assms by (simp add: sint_word_ariths signed_take_bit_int_eq_self)

lemma sint64_eq_iff: "x = y \<longleftrightarrow> sint x = sint (y :: 64 word)"
  using signed_word_eqI by auto

lemma sint64_0_iff: "(x :: 64 word) = 0 \<longleftrightarrow> sint x = 0"
  using sint64_eq_iff [of x 0] by simp

subsection \<open>Allocation\<close>

text \<open>
  \<open>make\<close> panics when its length is negative or the slice would not fit into the address space;
  \<open>make_ok width n\<close> says that it accepts \<open>n\<close> elements of \<open>width\<close> bytes. Running out of memory
  below that bound is not modelled.
\<close>

definition maxAlloc :: nat where "maxAlloc = 2 ^ 48"

definition make_ok :: "nat \<Rightarrow> goint \<Rightarrow> bool" where
  "make_ok width n \<longleftrightarrow> 0 \<le> sint n \<and> width * nat (sint n) \<le> maxAlloc"

lemma make_ok_pointers: "make_ok 8 n \<longleftrightarrow> 0 \<le> sint n \<and> sint n \<le> 2 ^ 45"
  by (auto simp: make_ok_def maxAlloc_def nat_le_iff)

definition makeslice_panic :: string where
  "makeslice_panic = ''runtime error: makeslice: len out of range''"

definition makeslice_cap_panic :: string where
  "makeslice_cap_panic = ''runtime error: makeslice: cap out of range''"

subsection \<open>Go maps as association lists with distinct keys\<close>

definition keys_of :: "('k, 'v) gomap \<Rightarrow> 'k list" where
  "keys_of m = map fst m"

abbreviation wf_map :: "('k, 'v) gomap \<Rightarrow> bool" where
  "wf_map m \<equiv> distinct (keys_of m)"

lemma set_keys_of [gomap_simps]: "set (keys_of m) = dom (map_of m)"
  by (simp add: keys_of_def dom_map_of_conv_image_fst)

lemma length_keys_of [simp]: "length (keys_of m) = length m"
  by (simp add: keys_of_def)

lemma keys_of_simps [simp]: "keys_of [] = []" "keys_of (kv # m) = fst kv # keys_of m"
  by (simp_all add: keys_of_def)

lemma map_of_update [simp]: "map_of (AList.update k v m) = (map_of m)(k \<mapsto> v)"
  by (simp add: update_conv')

lemma map_of_delete [simp]: "map_of (AList.delete k m) = (map_of m)(k := None)"
  by (simp add: delete_conv')

lemma wf_map_update [simp, intro]: "wf_map m \<Longrightarrow> wf_map (AList.update k v m)"
  by (simp add: keys_of_def distinct_update)

lemma wf_map_delete [simp, intro]: "wf_map m \<Longrightarrow> wf_map (AList.delete k m)"
  by (simp add: keys_of_def distinct_delete)

lemma wf_map_length: "wf_map m \<Longrightarrow> length m = card (dom (map_of m))"
  by (metis distinct_card length_keys_of set_keys_of)

lemma length_update:
  assumes "wf_map m"
  shows "length (AList.update k v m) = (if map_of m k = None then Suc (length m) else length m)"
  using assms wf_map_update [OF assms, of k v]
  by (auto simp: wf_map_length card_insert_if finite_dom_map_of insert_absorb)

lemma length_delete:
  assumes "wf_map m"
  shows "length (AList.delete k m) = (if map_of m k = None then length m else length m - 1)"
  using assms wf_map_delete [OF assms, of k]
  by (cases "map_of m k") (simp_all add: wf_map_length card_Diff_singleton domI domIff Diff_triv)

lemma delete_absent: "map_of m k = None \<Longrightarrow> AList.delete k m = m"
  by (induction m) (auto split: if_splits)

lemma length_delete_le: "length (AList.delete k m) \<le> length m"
  by (induction m) auto

lemma length_delete_less: "map_of m k \<noteq> None \<Longrightarrow> length (AList.delete k m) < length m"
  by (induction m) (auto simp: length_delete_le le_imp_less_Suc split: if_splits)

text \<open>
  A \<open>range\<close> loop over a map visits every key present at its start exactly once, in an
  unspecified order: \<open>is_range m ks\<close> says that \<open>ks\<close> is one such order.
\<close>

definition is_range :: "('k, 'v) gomap \<Rightarrow> 'k list \<Rightarrow> bool" where
  "is_range m ks \<longleftrightarrow> distinct ks \<and> set ks = set (keys_of m)"

lemma is_range_length: "wf_map m \<Longrightarrow> is_range m ks \<Longrightarrow> length ks = length m"
  by (metis distinct_card is_range_def length_keys_of)

lemma is_range_keys_of: "wf_map m \<Longrightarrow> is_range m (keys_of m)"
  by (simp add: is_range_def)

end
