(* ===== verification/Store_Entry.thy ===== *)
theory Store_Entry
  imports Vortex_Prelude
begin

text \<open>
  \<open>internal/store/entry.go\<close>: a cache item with its timestamps, its construction, and the
  two readings of its expiry. Timestamps and durations are 64-bit words, so the
  addition \<open>now + ttl.Nanoseconds()\<close> wraps as it does in the code.
\<close>

record Entry =
  Value :: bytes
  CreatedAt :: int64
  AccessedAt :: int64
  ExpiresAt :: int64

definition NewEntry :: "byte slice \<Rightarrow> Duration \<Rightarrow> int64 \<Rightarrow> Entry" where
  "NewEntry val ttl now =
     \<lparr>Value = elems val, CreatedAt = now, AccessedAt = now,
      ExpiresAt = (if 0 <s ttl then now + ttl else 0)\<rparr>"

definition IsExpired :: "Entry \<Rightarrow> int64 \<Rightarrow> bool" where
  "IsExpired e now = (if ExpiresAt e = 0 then False else ExpiresAt e \<le>s now)"

definition RemainingTTL :: "Entry \<Rightarrow> int64 \<Rightarrow> Duration" where
  "RemainingTTL e now =
     (if ExpiresAt e = 0 then - 1
      else if ExpiresAt e \<le>s now then 0
      else ExpiresAt e - now)"

text \<open>
  The deadline written by \<open>NewEntry\<close> and by \<open>expire\<close>; \<open>deadline_ok\<close> is the condition
  under which \<open>now + ttl\<close> neither overflows nor lands on the reserved value 0.
\<close>

definition deadline :: "Duration \<Rightarrow> int64 \<Rightarrow> int64" where
  "deadline ttl now = (if 0 <s ttl then now + ttl else 0)"

definition deadline_ok :: "Duration \<Rightarrow> int64 \<Rightarrow> bool" where
  "deadline_ok ttl now \<longleftrightarrow> 0 < sint now \<and> sint now + sint ttl < 2 ^ 63"

lemma NewEntry_sel [simp]:
  "Value (NewEntry val ttl now) = elems val"
  "ExpiresAt (NewEntry val ttl now) = deadline ttl now"
  "CreatedAt (NewEntry val ttl now) = now"
  "AccessedAt (NewEntry val ttl now) = now"
  by (simp_all add: NewEntry_def deadline_def)

lemma IsExpired_accessed [simp]: "IsExpired (e\<lparr>AccessedAt := t\<rparr>) now = IsExpired e now"
  by (simp add: IsExpired_def)

lemma RemainingTTL_accessed [simp]: "RemainingTTL (e\<lparr>AccessedAt := t\<rparr>) now = RemainingTTL e now"
  by (simp add: RemainingTTL_def)

text \<open>Once expired, an entry stays expired.\<close>

lemma IsExpired_mono: "IsExpired e now \<Longrightarrow> now \<le>s now' \<Longrightarrow> IsExpired e now'"
  by (auto simp: IsExpired_def signed_simps split: if_splits)

lemma sint_deadline:
  assumes "deadline_ok ttl now" and "0 < sint ttl"
  shows "sint (deadline ttl now) = sint now + sint ttl" and "deadline ttl now \<noteq> 0"
proof -
  show eq: "sint (deadline ttl now) = sint now + sint ttl"
    using assms by (simp add: deadline_def deadline_ok_def sint64_add signed_simps)
  then show "deadline ttl now \<noteq> 0"
    using assms by (simp add: sint64_0_iff deadline_ok_def)
qed

text \<open>
  A fresh entry is live exactly while its age is below its TTL; an entry stored
  without a positive TTL never expires.
\<close>

lemma NewEntry_expired_iff:
  assumes "deadline_ok ttl now"
  shows "IsExpired (NewEntry val ttl now) t \<longleftrightarrow> 0 < sint ttl \<and> sint now + sint ttl \<le> sint t"
proof (cases "0 < sint ttl")
  case True
  with sint_deadline [OF assms True] show ?thesis
    by (simp add: IsExpired_def signed_simps)
next
  case False
  then show ?thesis by (simp add: IsExpired_def deadline_def signed_simps)
qed

text \<open>The remaining TTL is the distance to the deadline, never negative but for the \<open>-1\<close> marker.\<close>

lemma RemainingTTL_live:
  assumes "\<not> IsExpired e now" and "ExpiresAt e \<noteq> 0" and "0 \<le> sint now"
  shows "sint (RemainingTTL e now) = sint (ExpiresAt e) - sint now"
    and "0 < sint (RemainingTTL e now)"
proof -
  have lt: "sint now < sint (ExpiresAt e)"
    using assms(1,2) by (simp add: IsExpired_def signed_simps)
  show eq: "sint (RemainingTTL e now) = sint (ExpiresAt e) - sint now"
    using assms lt sint64_bounds(2) [of "ExpiresAt e"]
    by (simp add: RemainingTTL_def signed_simps sint64_diff)
  with lt show "0 < sint (RemainingTTL e now)" by simp
qed

end
