(* ===== verification/Expiring_Map.thy ===== *)
theory Expiring_Map
  imports Store_Entry
begin

text \<open>
  The contract that a shard offers to the store, and the store to its clients: a map from
  keys to values with deadlines, seen at a point in time. \<open>view s t k\<close> is the value and
  the deadline that key \<open>k\<close> has at time \<open>t\<close>; expired entries are invisible whether or
  not they have been purged yet. Reading operations may purge entries that have expired
  at the time they run, which no view at that time or later can tell.

  \<open>expiring_map\<close> allows a write to evict other keys; \<open>lossless_map\<close> is the contract
  without eviction, which determines the view of the whole map after any sequence of
  operations.
\<close>

definition passed :: "int64 \<Rightarrow> int64 \<Rightarrow> bool" where
  "passed d t = (if d = 0 then False else d \<le>s t)"

definition remaining :: "int64 \<Rightarrow> int64 \<Rightarrow> Duration" where
  "remaining d t = (if d = 0 then - 1 else if d \<le>s t then 0 else d - t)"

definition live :: "bytes \<Rightarrow> int64 \<Rightarrow> int64 \<Rightarrow> (bytes \<times> int64) option" where
  "live v d t = (if passed d t then None else Some (v, d))"

lemma IsExpired_passed: "IsExpired e t = passed (ExpiresAt e) t"
  by (simp add: IsExpired_def passed_def)

lemma RemainingTTL_remaining: "RemainingTTL e t = remaining (ExpiresAt e) t"
  by (simp add: RemainingTTL_def remaining_def)

lemma passed_mono: "passed d now \<Longrightarrow> now \<le>s t \<Longrightarrow> passed d t"
  by (auto simp: passed_def signed_simps split: if_splits)

lemma passed_0 [simp]: "\<not> passed 0 t"
  by (simp add: passed_def)

lemma live_0 [simp]: "live v 0 t = Some (v, 0)"
  by (simp add: live_def)

lemma sle_refl64 [simp]: "(t :: int64) \<le>s t"
  by (simp add: signed_simps)

lemma deadline_not_passed:
  assumes "deadline_ok ttl now" and "sint t < sint now + sint ttl \<or> sint ttl \<le> 0"
  shows "\<not> passed (deadline ttl now) t"
proof (cases "0 < sint ttl")
  case True
  with assms sint_deadline [OF assms(1) True] show ?thesis by (simp add: passed_def signed_simps)
qed (simp add: passed_def deadline_def signed_simps)

lemma deadline_passed:
  assumes "deadline_ok ttl now" and "0 < sint ttl" and "sint now + sint ttl \<le> sint t"
  shows "passed (deadline ttl now) t"
  using assms sint_deadline [OF assms(1,2)] by (simp add: passed_def signed_simps)

locale expiring_map =
  fixes inv :: "'s \<Rightarrow> bool"
    and view :: "'s \<Rightarrow> int64 \<Rightarrow> string \<Rightarrow> (bytes \<times> int64) option"
    and set_op :: "string \<Rightarrow> byte slice \<Rightarrow> Duration \<Rightarrow> int64 \<Rightarrow> 's \<Rightarrow> 's"
    and get_op :: "string \<Rightarrow> int64 \<Rightarrow> 's \<Rightarrow> bytes option \<times> 's"
    and delete_op :: "string \<Rightarrow> 's \<Rightarrow> bool \<times> 's"
    and exists_op :: "string \<Rightarrow> int64 \<Rightarrow> 's \<Rightarrow> bool \<times> 's"
    and ttl_op :: "string \<Rightarrow> int64 \<Rightarrow> 's \<Rightarrow> (Duration \<times> bool) \<times> 's"
    and expire_op :: "string \<Rightarrow> Duration \<Rightarrow> int64 \<Rightarrow> 's \<Rightarrow> bool \<times> 's"
  assumes inv_set: "inv s \<Longrightarrow> inv (set_op k v ttl now s)"
    and inv_get: "inv s \<Longrightarrow> inv (snd (get_op k now s))"
    and inv_delete: "inv s \<Longrightarrow> inv (snd (delete_op k s))"
    and inv_exists: "inv s \<Longrightarrow> inv (snd (exists_op k now s))"
    and inv_ttl: "inv s \<Longrightarrow> inv (snd (ttl_op k now s))"
    and inv_expire: "inv s \<Longrightarrow> inv (snd (expire_op k d now s))"
    and view_set: "inv s \<Longrightarrow> view (set_op k v d now s) t k = live (elems v) (deadline d now) t"
    and view_set_other: "inv s \<Longrightarrow> k' \<noteq> k \<Longrightarrow>
      view (set_op k v d now s) t k' = view s t k' \<or> view (set_op k v d now s) t k' = None"
    and get_result: "inv s \<Longrightarrow> fst (get_op k now s) = map_option fst (view s now k)"
    and view_get: "inv s \<Longrightarrow> now \<le>s t \<Longrightarrow> view (snd (get_op k now s)) t = view s t"
    and delete_result: "inv s \<Longrightarrow> view s t k \<noteq> None \<Longrightarrow> fst (delete_op k s)"
    and view_delete: "inv s \<Longrightarrow> view (snd (delete_op k s)) t = (view s t)(k := None)"
    and exists_result: "inv s \<Longrightarrow> fst (exists_op k now s) \<longleftrightarrow> view s now k \<noteq> None"
    and view_exists: "inv s \<Longrightarrow> now \<le>s t \<Longrightarrow> view (snd (exists_op k now s)) t = view s t"
    and ttl_result: "inv s \<Longrightarrow> fst (ttl_op k now s) =
      (case view s now k of None \<Rightarrow> (- 2, False) | Some (v, d) \<Rightarrow> (remaining d now, True))"
    and view_ttl: "inv s \<Longrightarrow> now \<le>s t \<Longrightarrow> view (snd (ttl_op k now s)) t = view s t"
    and expire_result: "inv s \<Longrightarrow> fst (expire_op k d now s) \<longleftrightarrow> view s now k \<noteq> None"
    and view_expire: "inv s \<Longrightarrow> now \<le>s t \<Longrightarrow> view (snd (expire_op k d now s)) t =
      (case view s now k of None \<Rightarrow> view s t
       | Some (v, _) \<Rightarrow> (view s t)(k := live v (deadline d now) t))"
begin

lemmas inv_laws [simp] = inv_set inv_get inv_delete inv_exists inv_ttl inv_expire

text \<open>A value is read back as it was written, for as long as its TTL allows.\<close>

lemma get_after_set:
  assumes "inv s" and "deadline_ok d now" and "sint t < sint now + sint d \<or> sint d \<le> 0"
  shows "fst (get_op k t (set_op k v d now s)) = Some (elems v)"
  using assms deadline_not_passed [OF assms(2,3)] by (simp add: get_result view_set live_def)

lemma get_after_deadline:
  assumes "inv s" and "deadline_ok d now" and "0 < sint d" and "sint now + sint d \<le> sint t"
  shows "fst (get_op k t (set_op k v d now s)) = None"
  using assms deadline_passed [OF assms(2-4)] by (simp add: get_result view_set live_def)

lemma get_after_delete:
  assumes "inv s"
  shows "fst (get_op k t (snd (delete_op k s))) = None"
  using assms by (simp add: get_result view_delete)

lemma delete_other:
  assumes "inv s" and "k' \<noteq> k"
  shows "fst (get_op k' t (snd (delete_op k s))) = fst (get_op k' t s)"
  using assms by (simp add: get_result view_delete)

lemma get_repeat:
  assumes "inv s" and "now \<le>s t"
  shows "fst (get_op k' t (snd (get_op k now s))) = fst (get_op k' t s)"
  using assms by (simp add: get_result view_get)

lemma exists_iff_get: "inv s \<Longrightarrow> fst (exists_op k now s) \<longleftrightarrow> fst (get_op k now s) \<noteq> None"
  by (simp add: exists_result get_result)

lemma expire_then_ttl:
  assumes "inv s" and "fst (expire_op k d now s)" and "deadline_ok d now" and "0 < sint d"
    and "now \<le>s t" and "sint t < sint now + sint d" and "0 < sint t"
  shows "\<exists>r. fst (ttl_op k t (snd (expire_op k d now s))) = (r, True) \<and>
    sint r = sint now + sint d - sint t"
proof -
  from assms(1,2) obtain v d' where v: "view s now k = Some (v, d')"
    by (auto simp: expire_result)
  have np: "\<not> passed (deadline d now) t" using deadline_not_passed assms(3,6) by blast
  note sd = sint_deadline [OF assms(3,4)]
  have "fst (ttl_op k t (snd (expire_op k d now s))) = (remaining (deadline d now) t, True)"
    using assms(1,5) np by (simp add: ttl_result view_expire v live_def)
  moreover have "sint (remaining (deadline d now) t) = sint now + sint d - sint t"
    using np sd assms(3,6,7) sint64_diff [of "deadline d now" t]
    by (simp add: remaining_def passed_def deadline_ok_def)
  ultimately show ?thesis by blast
qed

end

text \<open>Sequences of operations, each at its own time, and what they mean on a bare map.\<close>

datatype map_op =
    OpSet string "byte slice" Duration
  | OpGet string
  | OpDelete string
  | OpExists string
  | OpTTL string
  | OpExpire string Duration

fun spec_op :: "int64 \<Rightarrow> map_op \<Rightarrow> (string \<Rightarrow> (bytes \<times> int64) option) \<Rightarrow>
    (string \<Rightarrow> (bytes \<times> int64) option)" where
  "spec_op now (OpSet k v d) m = m(k \<mapsto> (elems v, deadline d now))"
| "spec_op now (OpGet k) m = m"
| "spec_op now (OpDelete k) m = m(k := None)"
| "spec_op now (OpExists k) m = m"
| "spec_op now (OpTTL k) m = m"
| "spec_op now (OpExpire k d) m =
     (case m k of None \<Rightarrow> m
      | Some (v, d') \<Rightarrow> if passed d' now then m else m(k \<mapsto> (v, deadline d now)))"

text \<open>The live part of a map at a time, and the map after a timed sequence of operations.\<close>

definition live_at :: "int64 \<Rightarrow> (string \<Rightarrow> (bytes \<times> int64) option) \<Rightarrow>
    (string \<Rightarrow> (bytes \<times> int64) option)" where
  "live_at t m k = (case m k of None \<Rightarrow> None | Some (v, d) \<Rightarrow> live v d t)"

fun spec_run :: "(int64 \<times> map_op) list \<Rightarrow> (string \<Rightarrow> (bytes \<times> int64) option) \<Rightarrow>
    (string \<Rightarrow> (bytes \<times> int64) option)" where
  "spec_run [] m = m"
| "spec_run ((now, x) # xs) m = spec_run xs (spec_op now x m)"

text \<open>
  The map as a program sees it that keeps expired entries until a call looks at them: what
  each operation returns on such a map, and the map it leaves.
\<close>

datatype 'e op_result = Stored "'e option" | Value_of "bytes option" | Flag bool | Time_left Duration bool

definition forget :: "int64 \<Rightarrow> string \<Rightarrow> (string \<Rightarrow> (bytes \<times> int64) option) \<Rightarrow>
    (string \<Rightarrow> (bytes \<times> int64) option)" where
  "forget now k m = (if live_at now m k = None then m(k := None) else m)"

fun ref_op :: "int64 \<Rightarrow> map_op \<Rightarrow> (string \<Rightarrow> (bytes \<times> int64) option) \<Rightarrow>
    'e op_result \<times> (string \<Rightarrow> (bytes \<times> int64) option)" where
  "ref_op now (OpSet k v d) m = (Stored None, m(k \<mapsto> (elems v, deadline d now)))"
| "ref_op now (OpGet k) m = (Value_of (map_option fst (live_at now m k)), forget now k m)"
| "ref_op now (OpDelete k) m = (Flag (m k \<noteq> None), m(k := None))"
| "ref_op now (OpExists k) m = (Flag (live_at now m k \<noteq> None), forget now k m)"
| "ref_op now (OpTTL k) m =
     (case live_at now m k of None \<Rightarrow> Time_left (- 2) False | Some (v, d) \<Rightarrow> Time_left (remaining d now) True,
      forget now k m)"
| "ref_op now (OpExpire k d) m =
     (case live_at now m k of
        None \<Rightarrow> (Flag False, m(k := None))
      | Some (v, _) \<Rightarrow> (Flag True, m(k \<mapsto> (v, deadline d now))))"

fun ref_run :: "(int64 \<times> map_op) list \<Rightarrow> (string \<Rightarrow> (bytes \<times> int64) option) \<Rightarrow>
    'e op_result list \<times> (string \<Rightarrow> (bytes \<times> int64) option)" where
  "ref_run [] m = ([], m)"
| "ref_run ((now, x) # xs) m =
     (let (r, m1) = ref_op now x m; (rs, m2) = ref_run xs m1 in (r # rs, m2))"

fun times_ok :: "int64 \<Rightarrow> (int64 \<times> map_op) list \<Rightarrow> int64 \<Rightarrow> bool" where
  "times_ok t0 [] t \<longleftrightarrow> t0 \<le>s t"
| "times_ok t0 ((now, x) # xs) t \<longleftrightarrow> t0 \<le>s now \<and> times_ok now xs t"

lemma times_ok_le: "times_ok t0 xs t \<Longrightarrow> t0 \<le>s t"
  by (induction t0 xs t rule: times_ok.induct) (auto simp: signed_simps)

locale lossless_map = expiring_map +
  assumes view_set_keep: "inv s \<Longrightarrow> k' \<noteq> k \<Longrightarrow> view (set_op k v d now s) t k' = view s t k'"
begin

fun step :: "int64 \<Rightarrow> map_op \<Rightarrow> 'a \<Rightarrow> 'a" where
  "step now (OpSet k v d) s = set_op k v d now s"
| "step now (OpGet k) s = snd (get_op k now s)"
| "step now (OpDelete k) s = snd (delete_op k s)"
| "step now (OpExists k) s = snd (exists_op k now s)"
| "step now (OpTTL k) s = snd (ttl_op k now s)"
| "step now (OpExpire k d) s = snd (expire_op k d now s)"

lemma inv_step: "inv s \<Longrightarrow> inv (step now x s)"
  by (cases x) auto

lemma view_step:
  assumes "inv s" and "now \<le>s t" and "\<And>t. now \<le>s t \<Longrightarrow> view s t = live_at t m"
  shows "view (step now x s) t = live_at t (spec_op now x m)"
proof (cases x)
  case (OpSet k v d)
  show ?thesis
  proof
    fix k'
    show "view (step now x s) t k' = live_at t (spec_op now x m) k'"
      using assms OpSet by (cases "k' = k") (simp_all add: view_set view_set_keep live_at_def)
  qed
next
  case (OpExpire k d)
  have "view s now = live_at now m" by (simp add: assms(3))
  then show ?thesis
    using assms OpExpire
    by (auto simp: view_expire live_at_def live_def fun_eq_iff split: option.splits)
qed (use assms in \<open>auto simp: view_get view_delete view_exists view_ttl live_at_def fun_eq_iff\<close>)

fun run :: "(int64 \<times> map_op) list \<Rightarrow> 'a \<Rightarrow> 'a" where
  "run [] s = s"
| "run ((now, x) # xs) s = run xs (step now x s)"

lemma inv_run: "inv s \<Longrightarrow> inv (run xs s)"
  by (induction xs s rule: run.induct) (auto simp: inv_step)

text \<open>Every timed sequence of operations simulates the bare map.\<close>

lemma view_run:
  assumes "inv s" and "times_ok t0 xs t" and "\<And>t. t0 \<le>s t \<Longrightarrow> view s t = live_at t m"
  shows "view (run xs s) t = live_at t (spec_run xs m)"
  using assms
proof (induction xs s arbitrary: t0 m rule: run.induct)
  case (1 s)
  then show ?case by simp
next
  case (2 now x xs s)
  have le: "t0 \<le>s now" "times_ok now xs t" using "2.prems"(2) by simp_all
  have "view (step now x s) t' = live_at t' (spec_op now x m)" if "now \<le>s t'" for t'
    using "2.prems"(1,3) le that by (intro view_step) (auto simp: signed_simps)
  with "2.IH" [OF inv_step [OF "2.prems"(1)] le(2)] show ?case by simp
qed

end

end
