(* ===== verification/Eviction_Policy.thy ===== *)
theory Eviction_Policy
  imports Vortex_Prelude
begin

text \<open>
  \<open>internal/store/eviction.go\<close>: the pluggable \<open>EvictionPolicy\<close> interface. A Go interface
  value is a method table over some receiver state \<open>'p\<close>; the methods that mutate the
  receiver return its new state. A factory is represented by the receiver state that a
  call of it returns, and a \<open>nil\<close> factory by \<open>None\<close>.

  The contract that the interface's comments promise is the locale \<open>eviction_policy\<close>; the
  locale \<open>recency_policy\<close> adds what makes a policy an LRU policy. The shard's lemmas
  are proved once from these two contracts.
\<close>

record 'p EvictionPolicy =
  OnGet :: "string \<Rightarrow> 'p \<Rightarrow> 'p"
  OnSet :: "string \<Rightarrow> 'p \<Rightarrow> 'p"
  OnDelete :: "string \<Rightarrow> 'p \<Rightarrow> 'p"
  SelectEvict :: "'p \<Rightarrow> 'p \<times> string option"
  Clear :: "'p \<Rightarrow> 'p"

type_synonym 'p EvictionPolicyFactory = "'p option"
type_synonym EvictionType = string

definition EvictionNone :: EvictionType where "EvictionNone = ''none''"
definition EvictionLRU :: EvictionType where "EvictionLRU = ''lru''"

text \<open>The argument stands for the function value \<open>NewLRUPolicy\<close>.\<close>

definition NewEvictionPolicy :: "'p \<Rightarrow> EvictionType \<Rightarrow> 'p EvictionPolicyFactory" where
  "NewEvictionPolicy newLRU eType =
     (if eType = EvictionLRU then Some newLRU
      else if eType = EvictionNone then None
      else None)"

text \<open>
  The contract: a policy tracks the set of keys it has been told about, recommends only
  keys it tracks, and gives no recommendation only when it tracks none.
\<close>

locale eviction_policy =
  fixes P :: "'p EvictionPolicy"
    and invar :: "'p \<Rightarrow> bool"
    and tracked :: "'p \<Rightarrow> string set"
  assumes invar_OnGet: "invar p \<Longrightarrow> invar (OnGet P k p)"
    and invar_OnSet: "invar p \<Longrightarrow> invar (OnSet P k p)"
    and invar_OnDelete: "invar p \<Longrightarrow> invar (OnDelete P k p)"
    and invar_SelectEvict: "invar p \<Longrightarrow> SelectEvict P p = (p', r) \<Longrightarrow> invar p'"
    and invar_Clear: "invar p \<Longrightarrow> invar (Clear P p)"
    and tracked_OnGet: "invar p \<Longrightarrow> tracked (OnGet P k p) = tracked p"
    and tracked_OnSet: "invar p \<Longrightarrow> tracked (OnSet P k p) = insert k (tracked p)"
    and tracked_OnDelete: "invar p \<Longrightarrow> tracked (OnDelete P k p) = tracked p - {k}"
    and tracked_SelectEvict: "invar p \<Longrightarrow> SelectEvict P p = (p', r) \<Longrightarrow> tracked p' = tracked p"
    and tracked_Clear: "invar p \<Longrightarrow> tracked (Clear P p) = {}"
    and select_Some: "invar p \<Longrightarrow> SelectEvict P p = (p', Some k) \<Longrightarrow> k \<in> tracked p"
    and select_None: "invar p \<Longrightarrow> SelectEvict P p = (p', None) \<Longrightarrow> tracked p = {}"
begin

lemmas policy_laws [simp] =
  invar_OnGet invar_OnSet invar_OnDelete invar_Clear
  tracked_OnGet tracked_OnSet tracked_OnDelete tracked_Clear

end

text \<open>
  The LRU contract: the tracked keys are listed from most to least recently used; reading
  or writing a key moves it to the front, and the last key is the one recommended.
\<close>

locale recency_policy = eviction_policy P invar "\<lambda>p. set (order p)"
  for P :: "'p EvictionPolicy" and invar :: "'p \<Rightarrow> bool" and order :: "'p \<Rightarrow> string list" +
  assumes order_distinct: "invar p \<Longrightarrow> distinct (order p)"
    and order_OnGet: "invar p \<Longrightarrow>
      order (OnGet P k p) = (if k \<in> set (order p) then k # remove1 k (order p) else order p)"
    and order_OnSet: "invar p \<Longrightarrow> order (OnSet P k p) = k # remove1 k (order p)"
    and order_OnDelete: "invar p \<Longrightarrow> order (OnDelete P k p) = remove1 k (order p)"
    and order_SelectEvict: "invar p \<Longrightarrow> SelectEvict P p = (p', r) \<Longrightarrow>
      order p' = order p \<and> r = last_opt (order p)"

end
