(* ===== verification/LRU_Policy.thy ===== *)
theory LRU_Policy
  imports Eviction_Policy
begin

text \<open>
  \<open>internal/store/lru.go\<close>: the LRU policy as a doubly linked list of heap nodes with a map
  from keys to nodes. The heap is explicit: a node pointer is an address, \<open>nil\<close> is
  \<open>None\<close>, and every mutation of a node through a pointer is an update of the heap, in
  the order the code performs them. Every non-\<open>nil\<close> pointer of Go refers to a node, so
  the heap is total; an allocation takes the next address never used before.

  The theory shows that the pointer structure refines a list of keys from most to least
  recently used: \<open>lru_inv\<close> holds initially and is kept by every method, and
  \<open>lru_keys\<close> commutes with the methods. The interpretation \<open>lru\<close> of \<open>recency_policy\<close>
  at the end is what the shard builds on.
\<close>

type_synonym addr = nat

record lruNode =
  node_key :: string
  node_prev :: "addr option"
  node_next :: "addr option"

record lruPolicy =
  lru_nodes :: "(string, addr) gomap"
  lru_head :: "addr option"
  lru_tail :: "addr option"
  lru_heap :: "addr \<Rightarrow> lruNode"
  lru_fresh :: addr

subsection \<open>The code\<close>

definition NewLRUPolicy :: lruPolicy where
  "NewLRUPolicy =
     \<lparr>lru_nodes = [], lru_head = None, lru_tail = None,
      lru_heap = (\<lambda>_. \<lparr>node_key = '''', node_prev = None, node_next = None\<rparr>), lru_fresh = 0\<rparr>"

definition upd_node :: "addr \<Rightarrow> (lruNode \<Rightarrow> lruNode) \<Rightarrow> lruPolicy \<Rightarrow> lruPolicy" where
  "upd_node a f p = p\<lparr>lru_heap := (lru_heap p)(a := f (lru_heap p a))\<rparr>"

definition pushHead :: "addr \<Rightarrow> lruPolicy \<Rightarrow> lruPolicy" where
  "pushHead node p =
     (let p = upd_node node (node_prev_update (\<lambda>_. None)) p;
          p = upd_node node (node_next_update (\<lambda>_. lru_head p)) p;
          p = (case lru_head p of None \<Rightarrow> p
               | Some h \<Rightarrow> upd_node h (node_prev_update (\<lambda>_. Some node)) p);
          p = p\<lparr>lru_head := Some node\<rparr>
      in if lru_tail p = None then p\<lparr>lru_tail := Some node\<rparr> else p)"

definition removeNode :: "addr \<Rightarrow> lruPolicy \<Rightarrow> lruPolicy" where
  "removeNode node p =
     (let p = (case node_prev (lru_heap p node) of
                 Some q \<Rightarrow> upd_node q (node_next_update (\<lambda>_. node_next (lru_heap p node))) p
               | None \<Rightarrow> p\<lparr>lru_head := node_next (lru_heap p node)\<rparr>);
          p = (case node_next (lru_heap p node) of
                 Some q \<Rightarrow> upd_node q (node_prev_update (\<lambda>_. node_prev (lru_heap p node))) p
               | None \<Rightarrow> p\<lparr>lru_tail := node_prev (lru_heap p node)\<rparr>);
          p = upd_node node (node_prev_update (\<lambda>_. None)) p
      in upd_node node (node_next_update (\<lambda>_. None)) p)"

definition moveToHead :: "addr \<Rightarrow> lruPolicy \<Rightarrow> lruPolicy" where
  "moveToHead node p =
     (if lru_head p = Some node then p else pushHead node (removeNode node p))"

definition lru_OnGet :: "string \<Rightarrow> lruPolicy \<Rightarrow> lruPolicy" where
  "lru_OnGet k p =
     (case map_of (lru_nodes p) k of Some node \<Rightarrow> moveToHead node p | None \<Rightarrow> p)"

text \<open>The allocation \<open>&lruNode{key: key}\<close>: a fresh address with nil links.\<close>

definition new_node :: "string \<Rightarrow> lruPolicy \<Rightarrow> addr \<times> lruPolicy" where
  "new_node k p =
     (lru_fresh p,
      p\<lparr>lru_heap := (lru_heap p)
            (lru_fresh p := \<lparr>node_key = k, node_prev = None, node_next = None\<rparr>),
        lru_fresh := Suc (lru_fresh p)\<rparr>)"

definition lru_OnSet :: "string \<Rightarrow> lruPolicy \<Rightarrow> lruPolicy" where
  "lru_OnSet k p =
     (case map_of (lru_nodes p) k of
        Some node \<Rightarrow> moveToHead node p
      | None \<Rightarrow>
          (let (newNode, p) = new_node k p;
               p = p\<lparr>lru_nodes := AList.update k newNode (lru_nodes p)\<rparr>
           in pushHead newNode p))"

definition lru_OnDelete :: "string \<Rightarrow> lruPolicy \<Rightarrow> lruPolicy" where
  "lru_OnDelete k p =
     (case map_of (lru_nodes p) k of
        Some node \<Rightarrow>
          (let p = removeNode node p in p\<lparr>lru_nodes := AList.delete k (lru_nodes p)\<rparr>)
      | None \<Rightarrow> p)"

definition lru_SelectEvict :: "lruPolicy \<Rightarrow> lruPolicy \<times> string option" where
  "lru_SelectEvict p =
     (p, case lru_tail p of None \<Rightarrow> None | Some t \<Rightarrow> Some (node_key (lru_heap p t)))"

definition lru_Clear :: "lruPolicy \<Rightarrow> lruPolicy" where
  "lru_Clear p = p\<lparr>lru_nodes := [], lru_head := None, lru_tail := None\<rparr>"

definition lruPolicy_methods :: "lruPolicy EvictionPolicy" where
  "lruPolicy_methods =
     \<lparr>OnGet = lru_OnGet, OnSet = lru_OnSet, OnDelete = lru_OnDelete,
      SelectEvict = lru_SelectEvict, Clear = lru_Clear\<rparr>"

subsection \<open>The list behind the pointers\<close>

text \<open>
  \<open>linked h p as n\<close>: the nodes \<open>as\<close> form a doubly linked segment whose first node points
  back to \<open>p\<close> and whose last node points on to \<open>n\<close>.
\<close>

definition first_or :: "addr list \<Rightarrow> addr option \<Rightarrow> addr option" where
  "first_or as n = (case as of [] \<Rightarrow> n | a # _ \<Rightarrow> Some a)"

definition last_or :: "addr list \<Rightarrow> addr option \<Rightarrow> addr option" where
  "last_or as p = (if as = [] then p else Some (last as))"

fun linked :: "(addr \<Rightarrow> lruNode) \<Rightarrow> addr option \<Rightarrow> addr list \<Rightarrow> addr option \<Rightarrow> bool" where
  "linked h p [] n = True"
| "linked h p (a # as) n =
     (node_prev (h a) = p \<and> node_next (h a) = first_or as n \<and> linked h (Some a) as n)"

fun walk :: "(addr \<Rightarrow> lruNode) \<Rightarrow> nat \<Rightarrow> addr option \<Rightarrow> addr list" where
  "walk h 0 ptr = []"
| "walk h (Suc n) None = []"
| "walk h (Suc n) (Some a) = a # walk h n (node_next (h a))"

definition lru_chain :: "lruPolicy \<Rightarrow> addr list" where
  "lru_chain p = walk (lru_heap p) (length (lru_nodes p)) (lru_head p)"

definition lru_keys :: "lruPolicy \<Rightarrow> string list" where
  "lru_keys p = map (\<lambda>a. node_key (lru_heap p a)) (lru_chain p)"

text \<open>The pointer structure \<open>p\<close> represents the chain of nodes \<open>as\<close>.\<close>

definition lru_repr :: "lruPolicy \<Rightarrow> addr list \<Rightarrow> bool" where
  "lru_repr p as \<longleftrightarrow>
     lru_head p = first_or as None \<and> lru_tail p = last_or as None \<and>
     linked (lru_heap p) None as None \<and>
     distinct as \<and> list_all (\<lambda>a. a < lru_fresh p) as \<and>
     distinct (map (\<lambda>a. node_key (lru_heap p a)) as) \<and>
     wf_map (lru_nodes p) \<and>
     set (lru_nodes p) = set (map (\<lambda>a. (node_key (lru_heap p a), a)) as)"

definition lru_inv :: "lruPolicy \<Rightarrow> bool" where
  "lru_inv p \<longleftrightarrow> lru_repr p (lru_chain p)"

lemma first_or_simps [simp]:
  "first_or [] n = n" "first_or (a # as) n = Some a"
  by (simp_all add: first_or_def)

lemma last_or_simps [simp]:
  "last_or [] p = p" "last_or (as @ [a]) p = Some a" "last_or (a # as) p = last_or as (Some a)"
  by (simp_all add: last_or_def)

lemma last_or_append [simp]: "last_or (as @ bs) p = last_or bs (last_or as p)"
  by (simp add: last_or_def)

lemma first_or_append [simp]: "first_or (as @ bs) n = first_or as (first_or bs n)"
  by (cases as) simp_all

lemma linked_append:
  "linked h p (as @ bs) n \<longleftrightarrow> linked h p as (first_or bs n) \<and> linked h (last_or as p) bs n"
  by (induction as arbitrary: p) auto

lemma linked_cong: "(\<And>a. a \<in> set as \<Longrightarrow> node_prev (h a) = node_prev (h' a) \<and> node_next (h a) = node_next (h' a))
   \<Longrightarrow> linked h p as n = linked h' p as n"
  by (induction as arbitrary: p) auto

lemma linked_frame: "a \<notin> set as \<Longrightarrow> linked (h(a := x)) p as n = linked h p as n"
  by (rule linked_cong) auto

lemma node_key_upd [simp]:
  "node_key ((h(a := (h a)\<lparr>node_prev := x\<rparr>)) b) = node_key (h b)"
  "node_key ((h(a := (h a)\<lparr>node_next := x\<rparr>)) b) = node_key (h b)"
  by simp_all

lemma walk_linked: "linked h p as None \<Longrightarrow> walk h (length as) (first_or as None) = as"
  by (induction as arbitrary: p) auto

text \<open>
  What the two pointer surgeries do to a chain. Both leave the keys of all nodes, the
  key map and the allocation mark alone.
\<close>

lemma removeNode_frame [simp]:
  "lru_nodes (removeNode a p) = lru_nodes p"
  "lru_fresh (removeNode a p) = lru_fresh p"
  "node_key (lru_heap (removeNode a p) b) = node_key (lru_heap p b)"
  by (simp_all add: removeNode_def upd_node_def Let_def split: option.split)

lemma pushHead_frame [simp]:
  "lru_nodes (pushHead a p) = lru_nodes p"
  "lru_fresh (pushHead a p) = lru_fresh p"
  "node_key (lru_heap (pushHead a p) b) = node_key (lru_heap p b)"
  by (simp_all add: pushHead_def upd_node_def Let_def split: option.split)

lemma removeNode_chain:
  assumes "linked (lru_heap p) None (xs @ a # ys) None" and "distinct (xs @ a # ys)"
    and "lru_head p = first_or (xs @ a # ys) None" and "lru_tail p = last_or (xs @ a # ys) None"
  shows "linked (lru_heap (removeNode a p)) None (xs @ ys) None"
    and "lru_head (removeNode a p) = first_or (xs @ ys) None"
    and "lru_tail (removeNode a p) = last_or (xs @ ys) None"
  using assms
  by (cases xs rule: rev_cases; cases ys;
      auto simp: removeNode_def upd_node_def Let_def linked_append linked_frame)+

lemma pushHead_chain:
  assumes "linked (lru_heap p) None as None" and "a \<notin> set as" and "distinct as"
    and "lru_head p = first_or as None" and "lru_tail p = last_or as None"
  shows "linked (lru_heap (pushHead a p)) None (a # as) None"
    and "lru_head (pushHead a p) = Some a"
    and "lru_tail (pushHead a p) = last_or (a # as) None"
  using assms
  by (cases as; auto simp: pushHead_def upd_node_def Let_def linked_frame last_or_def)+

subsection \<open>Representation\<close>

lemma lru_repr_length:
  assumes "lru_repr p as"
  shows "length (lru_nodes p) = length as"
proof -
  let ?kas = "map (\<lambda>a. (node_key (lru_heap p a), a)) as"
  have "distinct (lru_nodes p)"
    using assms by (simp add: lru_repr_def keys_of_def distinct_map)
  moreover have "distinct ?kas"
    using assms by (auto simp: lru_repr_def distinct_map inj_on_def)
  moreover have "set (lru_nodes p) = set ?kas"
    using assms by (simp only: lru_repr_def)
  ultimately have "length (lru_nodes p) = length ?kas"
    using distinct_card [of "lru_nodes p"] distinct_card [of ?kas] by simp
  then show ?thesis by simp
qed

lemma lru_repr_chain: "lru_repr p as \<Longrightarrow> lru_chain p = as"
  by (metis lru_chain_def lru_repr_def lru_repr_length walk_linked)

lemma lru_invI: "lru_repr p as \<Longrightarrow> lru_inv p"
  by (simp add: lru_inv_def lru_repr_chain)

lemma lru_invE: "lru_inv p \<Longrightarrow> (\<And>as. lru_repr p as \<Longrightarrow> lru_chain p = as \<Longrightarrow> thesis) \<Longrightarrow> thesis"
  by (simp add: lru_inv_def)

lemma lru_repr_lookup:
  assumes "lru_repr p as"
  shows "map_of (lru_nodes p) k = Some a \<longleftrightarrow> a \<in> set as \<and> node_key (lru_heap p a) = k"
  using assms by (auto simp: lru_repr_def keys_of_def map_of_eq_Some_iff)

lemma lru_repr_lookup_None:
  assumes "lru_repr p as" and "map_of (lru_nodes p) k = None"
  shows "k \<notin> (\<lambda>a. node_key (lru_heap p a)) ` set as"
  using lru_repr_lookup [OF assms(1), of k] assms(2) by auto

lemma update_absent: "map_of m k = None \<Longrightarrow> AList.update k v m = m @ [(k, v)]"
  by (induction m) (auto split: if_splits)

lemma set_delete: "set (AList.delete k m) = {x \<in> set m. fst x \<noteq> k}"
  by (induction m) auto

lemma removeNode_repr:
  assumes "lru_repr p (xs @ a # ys)"
  shows "linked (lru_heap (removeNode a p)) None (xs @ ys) None"
    and "lru_head (removeNode a p) = first_or (xs @ ys) None"
    and "lru_tail (removeNode a p) = last_or (xs @ ys) None"
  using assms removeNode_chain [of p xs a ys] unfolding lru_repr_def by blast+

lemma moveToHead_repr:
  assumes "lru_repr p (xs @ a # ys)"
  shows "lru_repr (moveToHead a p) (a # xs @ ys)"
proof (cases "lru_head p = Some a")
  case True
  then have "xs = []" using assms by (cases xs) (auto simp: lru_repr_def)
  with True assms show ?thesis by (simp add: moveToHead_def)
next
  case False
  let ?q = "removeNode a p"
  have d: "distinct (xs @ ys)" "a \<notin> set (xs @ ys)" using assms by (auto simp: lru_repr_def)
  note chain = removeNode_repr [OF assms]
  note push = pushHead_chain [OF chain(1) d(2,1) chain(2,3)]
  show ?thesis
    using False assms push unfolding lru_repr_def by (auto simp: moveToHead_def)
qed

lemma lru_OnDelete_repr:
  assumes "lru_repr p (xs @ a # ys)"
  shows "lru_repr (lru_OnDelete (node_key (lru_heap p a)) p) (xs @ ys)"
proof -
  let ?k = "node_key (lru_heap p a)" and ?q = "removeNode a p"
  have look: "map_of (lru_nodes p) ?k = Some a"
    using lru_repr_lookup [OF assms] by simp
  note chain = removeNode_repr [OF assms]
  show ?thesis
    using assms chain unfolding lru_repr_def
    by (auto simp: lru_OnDelete_def look Let_def set_delete image_iff)
qed

lemma lru_OnSet_new_repr:
  assumes "lru_repr p as" and "map_of (lru_nodes p) k = None"
  shows "lru_repr (lru_OnSet k p) (lru_fresh p # as)"
    and "node_key (lru_heap (lru_OnSet k p) (lru_fresh p)) = k"
    and "a \<in> set as \<Longrightarrow> node_key (lru_heap (lru_OnSet k p) a) = node_key (lru_heap p a)"
proof -
  define q where "q = (snd (new_node k p))\<lparr>lru_nodes := AList.update k (lru_fresh p) (lru_nodes p)\<rparr>"
  have on: "lru_OnSet k p = pushHead (lru_fresh p) q"
    using assms(2) by (simp add: lru_OnSet_def new_node_def q_def)
  have fresh: "lru_fresh p \<notin> set as"
    using assms(1) by (auto simp: lru_repr_def list_all_iff)
  have keyeq: "node_key (lru_heap q a) = node_key (lru_heap p a)" if "a \<in> set as" for a
    using that fresh by (auto simp: q_def new_node_def)
  have key: "node_key (lru_heap q (lru_fresh p)) = k" by (simp add: q_def new_node_def)
  show "node_key (lru_heap (lru_OnSet k p) (lru_fresh p)) = k"
    and "a \<in> set as \<Longrightarrow> node_key (lru_heap (lru_OnSet k p) a) = node_key (lru_heap p a)"
    by (simp_all add: on key keyeq)
  have q: "linked (lru_heap q) None as None" "distinct as" "lru_head q = first_or as None"
    "lru_tail q = last_or as None" "lru_fresh q = Suc (lru_fresh p)"
    "lru_nodes q = lru_nodes p @ [(k, lru_fresh p)]"
    using assms fresh by (simp_all add: q_def new_node_def lru_repr_def linked_frame update_absent)
  have keys: "map (\<lambda>a. node_key (lru_heap q a)) as = map (\<lambda>a. node_key (lru_heap p a)) as"
    "(\<lambda>a. node_key (lru_heap q a)) ` set as = (\<lambda>a. node_key (lru_heap p a)) ` set as"
    "(\<lambda>a. (node_key (lru_heap q a), a)) ` set as = set (lru_nodes p)"
    using assms(1) by (simp_all add: keyeq lru_repr_def)
  note push = pushHead_chain [OF q(1) fresh q(2,3,4)]
  have "wf_map (lru_nodes q)" using wf_map_update [of "lru_nodes p" k "lru_fresh p"] assms
    by (simp add: lru_repr_def q_def)
  moreover have "list_all (\<lambda>a. a < Suc (lru_fresh p)) as"
    using assms(1) by (auto simp: lru_repr_def list_all_iff intro: less_SucI)
  ultimately show "lru_repr (lru_OnSet k p) (lru_fresh p # as)"
    using push assms(1) lru_repr_lookup_None [OF assms] q(2,5,6) fresh
    unfolding on lru_repr_def by (simp add: keys key)
qed

subsection \<open>Refinement of the list of keys by recency\<close>

lemma lru_repr_keys: "lru_repr p as \<Longrightarrow> lru_keys p = map (\<lambda>a. node_key (lru_heap p a)) as"
  by (simp add: lru_keys_def lru_repr_chain)

lemma moveToHead_key [simp]: "node_key (lru_heap (moveToHead a p) b) = node_key (lru_heap p b)"
  by (simp add: moveToHead_def)

lemma lru_OnDelete_key [simp]: "node_key (lru_heap (lru_OnDelete k p) b) = node_key (lru_heap p b)"
  by (simp add: lru_OnDelete_def Let_def split: option.split)

lemma lru_keys_distinct: "lru_inv p \<Longrightarrow> distinct (lru_keys p)"
  by (auto elim!: lru_invE simp: lru_repr_keys) (simp add: lru_repr_def)

lemma lru_keys_nodes: "lru_inv p \<Longrightarrow> set (lru_keys p) = set (keys_of (lru_nodes p))"
proof (elim lru_invE)
  fix as assume as: "lru_repr p as"
  then have "set (lru_nodes p) = (\<lambda>a. (node_key (lru_heap p a), a)) ` set as"
    by (simp add: lru_repr_def)
  then show ?thesis using as by (simp add: lru_repr_keys keys_of_def image_image)
qed

text \<open>A key that has a node splits the chain at that node.\<close>

lemma lru_split:
  assumes "lru_inv p" and "map_of (lru_nodes p) k = Some a"
  obtains xs ys where "lru_repr p (xs @ a # ys)" and "node_key (lru_heap p a) = k"
    and "k \<notin> (\<lambda>a. node_key (lru_heap p a)) ` set xs"
    and "lru_keys p = map (\<lambda>a. node_key (lru_heap p a)) xs @ k # map (\<lambda>a. node_key (lru_heap p a)) ys"
proof -
  from assms(1) obtain as where as: "lru_repr p as" by (rule lru_invE)
  with assms(2) have mem: "a \<in> set as" and key: "node_key (lru_heap p a) = k"
    by (simp_all add: lru_repr_lookup)
  from mem obtain xs ys where split: "as = xs @ a # ys" by (auto dest: split_list)
  have "k \<notin> (\<lambda>a. node_key (lru_heap p a)) ` set xs"
    using as key unfolding split lru_repr_def by auto
  with that as key show thesis by (simp add: split lru_repr_keys)
qed

lemma lru_absent: "lru_inv p \<Longrightarrow> map_of (lru_nodes p) k = None \<longleftrightarrow> k \<notin> set (lru_keys p)"
  by (simp add: lru_keys_nodes set_keys_of domIff)

lemma moveToHead_refines:
  assumes "lru_inv p" and "map_of (lru_nodes p) k = Some a"
  shows "lru_inv (moveToHead a p) \<and> lru_keys (moveToHead a p) = k # remove1 k (lru_keys p)"
proof -
  from assms obtain xs ys where split: "lru_repr p (xs @ a # ys)" "node_key (lru_heap p a) = k"
    "k \<notin> (\<lambda>a. node_key (lru_heap p a)) ` set xs"
    "lru_keys p = map (\<lambda>a. node_key (lru_heap p a)) xs @ k # map (\<lambda>a. node_key (lru_heap p a)) ys"
    by (rule lru_split)
  from moveToHead_repr [OF split(1)] show ?thesis
    using split(2-4) by (simp add: lru_invI lru_repr_keys remove1_append)
qed

lemma lru_OnGet_refines:
  assumes "lru_inv p"
  shows "lru_inv (lru_OnGet k p) \<and>
    lru_keys (lru_OnGet k p) = (if k \<in> set (lru_keys p) then k # remove1 k (lru_keys p) else lru_keys p)"
  using assms moveToHead_refines [OF assms] lru_absent [OF assms, of k]
  by (auto simp: lru_OnGet_def split: option.split)

lemma lru_OnSet_refines:
  assumes "lru_inv p"
  shows "lru_inv (lru_OnSet k p) \<and> lru_keys (lru_OnSet k p) = k # remove1 k (lru_keys p)"
proof (cases "map_of (lru_nodes p) k")
  case None
  from assms obtain as where as: "lru_repr p as" by (rule lru_invE)
  note new = lru_OnSet_new_repr [OF as None]
  have "lru_keys (lru_OnSet k p) = k # lru_keys p"
    using new as by (simp add: lru_repr_keys)
  moreover have "remove1 k (lru_keys p) = lru_keys p"
    using None lru_absent [OF assms] by (simp add: remove1_idem)
  ultimately show ?thesis using new(1) by (simp add: lru_invI)
next
  case (Some a)
  with moveToHead_refines [OF assms Some] show ?thesis by (simp add: lru_OnSet_def)
qed

lemma lru_OnDelete_refines:
  assumes "lru_inv p"
  shows "lru_inv (lru_OnDelete k p) \<and> lru_keys (lru_OnDelete k p) = remove1 k (lru_keys p)"
proof (cases "map_of (lru_nodes p) k")
  case None
  then have "k \<notin> set (lru_keys p)" using lru_absent [OF assms] by simp
  with None assms show ?thesis by (simp add: lru_OnDelete_def remove1_idem)
next
  case (Some a)
  with assms obtain xs ys where split: "lru_repr p (xs @ a # ys)" "node_key (lru_heap p a) = k"
    "k \<notin> (\<lambda>a. node_key (lru_heap p a)) ` set xs"
    "lru_keys p = map (\<lambda>a. node_key (lru_heap p a)) xs @ k # map (\<lambda>a. node_key (lru_heap p a)) ys"
    by (rule lru_split)
  from lru_OnDelete_repr [OF split(1)] have "lru_repr (lru_OnDelete k p) (xs @ ys)"
    by (simp add: split(2))
  with split(3,4) show ?thesis by (simp add: lru_invI lru_repr_keys remove1_append)
qed

lemma lru_SelectEvict_refines:
  assumes "lru_inv p"
  shows "lru_SelectEvict p = (p, last_opt (lru_keys p))"
  using assms
  by (auto elim!: lru_invE simp: lru_SelectEvict_def lru_repr_keys last_opt_def last_map)
    (auto simp: lru_repr_def last_or_def)

lemma lru_empty_refines:
  "lru_inv NewLRUPolicy" "lru_keys NewLRUPolicy = []"
  "lru_inv (lru_Clear p)" "lru_keys (lru_Clear p) = []"
proof -
  have "lru_repr NewLRUPolicy []" "lru_repr (lru_Clear p) []"
    by (simp_all add: lru_repr_def NewLRUPolicy_def lru_Clear_def)
  then show "lru_inv NewLRUPolicy" "lru_keys NewLRUPolicy = []"
    "lru_inv (lru_Clear p)" "lru_keys (lru_Clear p) = []"
    by (simp_all add: lru_invI lru_repr_keys)
qed

text \<open>The LRU policy meets the recency contract.\<close>

interpretation lru: recency_policy lruPolicy_methods lru_inv lru_keys
proof (unfold_locales, goal_cases)
  case (11 p p' k)
  then show ?case
    by (auto simp: lruPolicy_methods_def lru_SelectEvict_refines last_opt_Some_iff)
qed (auto simp: lruPolicy_methods_def lru_OnGet_refines lru_OnSet_refines lru_OnDelete_refines
      lru_SelectEvict_refines lru_empty_refines lru_keys_distinct insert_absorb)

end
