(* ===== verification/Shard.thy ===== *)
theory Shard
  imports Expiring_Map LRU_Policy
begin

text \<open>
  \<open>internal/store/shard.go\<close>: one shard, a map of entries with an optional eviction policy.
  Each operation is split at the code's lock boundaries: \<open>get\<close>, \<open>exists\<close> and \<open>ttl\<close>
  first look the key up under the read lock and then, with the lock released, act on
  what they saw under the write lock. The operations here run both sections in a row;
  \<open>Shard_Concurrency\<close> interleaves the sections of several goroutines.

  The argument \<open>P\<close> is the method table of the policy in the shard's \<open>eviction\<close> field.
  The lemmas are proved for every policy that meets the contract \<open>eviction_policy\<close>; the
  recency lemmas for every policy that meets \<open>recency_policy\<close>.
\<close>

record 'p shard =
  items :: "(string, Entry) gomap"
  maxKeys :: goint
  eviction :: "'p option"

subsection \<open>The code\<close>

definition newShard :: "goint \<Rightarrow> 'p EvictionPolicyFactory \<Rightarrow> 'p shard" where
  "newShard max_keys factory = \<lparr>items = [], maxKeys = max_keys, eviction = factory\<rparr>"

text \<open>\<open>if s.eviction != nil { s.eviction.f(key) }\<close>\<close>

definition notify_policy :: "('p \<Rightarrow> 'p) \<Rightarrow> 'p shard \<Rightarrow> 'p shard" where
  "notify_policy f s = s\<lparr>eviction := map_option f (eviction s)\<rparr>"

definition remove_key :: "'p EvictionPolicy \<Rightarrow> string \<Rightarrow> 'p shard \<Rightarrow> 'p shard" where
  "remove_key P k s = notify_policy (OnDelete P k) (s\<lparr>items := AList.delete k (items s)\<rparr>)"

definition store_entry :: "'p EvictionPolicy \<Rightarrow> string \<Rightarrow> Entry \<Rightarrow> 'p shard \<Rightarrow> 'p shard" where
  "store_entry P k e s = notify_policy (OnSet P k) (s\<lparr>items := AList.update k e (items s)\<rparr>)"

text \<open>The capacity check that precedes the insertion of a new key.\<close>

definition evict_if_full :: "'p EvictionPolicy \<Rightarrow> 'p shard \<Rightarrow> 'p shard" where
  "evict_if_full P s =
     (if 0 <s maxKeys s \<and> sint (maxKeys s) \<le> int (length (items s)) then
        (case eviction s of
           None \<Rightarrow> s
         | Some p \<Rightarrow>
             (case SelectEvict P p of
                (p', Some evictKey) \<Rightarrow> remove_key P evictKey (s\<lparr>eviction := Some p'\<rparr>)
              | (p', None) \<Rightarrow> s\<lparr>eviction := Some p'\<rparr>))
      else s)"

definition shard_set :: "'p EvictionPolicy \<Rightarrow> string \<Rightarrow> byte slice \<Rightarrow> Duration \<Rightarrow> int64 \<Rightarrow>
    'p shard \<Rightarrow> 'p shard" where
  "shard_set P k val ttl now s =
     (case map_of (items s) k of
        Some _ \<Rightarrow> store_entry P k (NewEntry val ttl now) s
      | None \<Rightarrow> store_entry P k (NewEntry val ttl now) (evict_if_full P s))"

text \<open>The write-locked section that \<open>get\<close>, \<open>exists\<close> and \<open>ttl\<close> run for an expired key.\<close>

definition purge_expired :: "'p EvictionPolicy \<Rightarrow> string \<Rightarrow> int64 \<Rightarrow> 'p shard \<Rightarrow> 'p shard" where
  "purge_expired P k now s =
     (case map_of (items s) k of
        Some e \<Rightarrow> if IsExpired e now then remove_key P k s else s
      | None \<Rightarrow> s)"

text \<open>The write-locked section that \<open>get\<close> and \<open>exists\<close> run for a live key.\<close>

definition touch :: "'p EvictionPolicy \<Rightarrow> string \<Rightarrow> 'p shard \<Rightarrow> 'p shard" where
  "touch P k s =
     (case eviction s of
        None \<Rightarrow> s
      | Some p \<Rightarrow>
          (case map_of (items s) k of
             Some _ \<Rightarrow> s\<lparr>eviction := Some (OnGet P k p)\<rparr>
           | None \<Rightarrow> s))"

text \<open>What the read-locked section of a lookup finds.\<close>

datatype 'a outcome = Missing | Expired | Found 'a

definition lookup_section :: "(Entry \<Rightarrow> 'a) \<Rightarrow> string \<Rightarrow> int64 \<Rightarrow> 'p shard \<Rightarrow> 'a outcome" where
  "lookup_section f k now s =
     (case map_of (items s) k of
        None \<Rightarrow> Missing
      | Some e \<Rightarrow> if IsExpired e now then Expired else Found (f e))"

text \<open>\<open>entry.AccessedAt = now\<close>, through the pointer held by the map.\<close>

definition mark_access :: "string \<Rightarrow> int64 \<Rightarrow> 'p shard \<Rightarrow> 'p shard" where
  "mark_access k now s =
     (case map_of (items s) k of
        None \<Rightarrow> s
      | Some e \<Rightarrow> s\<lparr>items := AList.update k (e\<lparr>AccessedAt := now\<rparr>) (items s)\<rparr>)"

definition shard_get :: "'p EvictionPolicy \<Rightarrow> string \<Rightarrow> int64 \<Rightarrow> 'p shard \<Rightarrow> bytes option \<times> 'p shard" where
  "shard_get P k now s =
     (case lookup_section Value k now s of
        Missing \<Rightarrow> (None, s)
      | Expired \<Rightarrow> (None, purge_expired P k now s)
      | Found v \<Rightarrow> (Some v, touch P k (mark_access k now s)))"

definition shard_delete :: "'p EvictionPolicy \<Rightarrow> string \<Rightarrow> 'p shard \<Rightarrow> bool \<times> 'p shard" where
  "shard_delete P k s =
     (case map_of (items s) k of
        Some _ \<Rightarrow> (True, remove_key P k s)
      | None \<Rightarrow> (False, s))"

definition shard_exists :: "'p EvictionPolicy \<Rightarrow> string \<Rightarrow> int64 \<Rightarrow> 'p shard \<Rightarrow> bool \<times> 'p shard" where
  "shard_exists P k now s =
     (case lookup_section (\<lambda>_. ()) k now s of
        Missing \<Rightarrow> (False, s)
      | Expired \<Rightarrow> (False, purge_expired P k now s)
      | Found _ \<Rightarrow> (True, touch P k s))"

definition shard_ttl :: "'p EvictionPolicy \<Rightarrow> string \<Rightarrow> int64 \<Rightarrow> 'p shard \<Rightarrow>
    (Duration \<times> bool) \<times> 'p shard" where
  "shard_ttl P k now s =
     (case lookup_section (\<lambda>e. RemainingTTL e now) k now s of
        Missing \<Rightarrow> ((- 2, False), s)
      | Expired \<Rightarrow> ((- 2, False), purge_expired P k now s)
      | Found r \<Rightarrow> ((r, True), s))"

definition shard_expire :: "'p EvictionPolicy \<Rightarrow> string \<Rightarrow> Duration \<Rightarrow> int64 \<Rightarrow> 'p shard \<Rightarrow>
    bool \<times> 'p shard" where
  "shard_expire P k ttl now s =
     (case map_of (items s) k of
        None \<Rightarrow> (False, s)
      | Some e \<Rightarrow>
          if IsExpired e now then (False, remove_key P k s)
          else
            (True,
             notify_policy (OnSet P k)
               (s\<lparr>items := AList.update k
                    (e\<lparr>ExpiresAt := (if 0 <s ttl then now + ttl else 0)\<rparr>) (items s)\<rparr>)))"

text \<open>The loop of \<open>len\<close>, over the entries in any order, and its 64-bit counter.\<close>

fun count_live :: "int64 \<Rightarrow> Entry list \<Rightarrow> int64 \<Rightarrow> int64" where
  "count_live now [] count = count"
| "count_live now (e # es) count = count_live now es (if IsExpired e now then count else count + 1)"

definition shard_len :: "int64 \<Rightarrow> 'p shard \<Rightarrow> int64" where
  "shard_len now s = count_live now (map snd (items s)) 0"

text \<open>
  \<open>activeSweep\<close> receives the order in which its \<open>range\<close> loop visits the keys. A key that
  is no longer in the map when the loop would reach it is not produced.
\<close>

fun sweep_loop :: "'p EvictionPolicy \<Rightarrow> goint \<Rightarrow> int64 \<Rightarrow> string list \<Rightarrow> nat \<Rightarrow> nat \<Rightarrow> 'p shard \<Rightarrow>
    (nat \<times> nat) \<times> 'p shard" where
  "sweep_loop P sampleSize now [] expired sampled s = ((expired, sampled), s)"
| "sweep_loop P sampleSize now (k # ks) expired sampled s =
     (case map_of (items s) k of
        None \<Rightarrow> sweep_loop P sampleSize now ks expired sampled s
      | Some e \<Rightarrow>
          if sint sampleSize \<le> int sampled then ((expired, sampled), s)
          else if IsExpired e now then
            sweep_loop P sampleSize now ks (Suc expired) (Suc sampled) (remove_key P k s)
          else sweep_loop P sampleSize now ks expired (Suc sampled) s)"

definition activeSweep :: "'p EvictionPolicy \<Rightarrow> goint \<Rightarrow> int64 \<Rightarrow> string list \<Rightarrow> 'p shard \<Rightarrow>
    (nat \<times> nat) \<times> 'p shard" where
  "activeSweep P sampleSize now order s =
     (if length (items s) = 0 then ((0, 0), s)
      else sweep_loop P sampleSize now order 0 0 s)"

lemmas shard_op_defs = shard_set_def shard_get_def shard_delete_def shard_exists_def
  shard_ttl_def shard_expire_def

subsection \<open>Invariant and view\<close>

text \<open>
  The map has distinct keys, the policy tracks exactly the keys of the map, and a shard
  with a policy and a positive limit holds no more keys than the limit.
\<close>

definition policy_agrees :: "('p \<Rightarrow> bool) \<Rightarrow> ('p \<Rightarrow> string set) \<Rightarrow> 'p shard \<Rightarrow> bool" where
  "policy_agrees pinv tracked s \<longleftrightarrow>
     (case eviction s of None \<Rightarrow> True
      | Some p \<Rightarrow> pinv p \<and> tracked p = set (keys_of (items s)))"

definition within_capacity :: "'p shard \<Rightarrow> bool" where
  "within_capacity s \<longleftrightarrow>
     (eviction s \<noteq> None \<and> 0 <s maxKeys s \<longrightarrow> int (length (items s)) \<le> sint (maxKeys s))"

definition shard_inv :: "('p \<Rightarrow> bool) \<Rightarrow> ('p \<Rightarrow> string set) \<Rightarrow> 'p shard \<Rightarrow> bool" where
  "shard_inv pinv tracked s \<longleftrightarrow>
     wf_map (items s) \<and> policy_agrees pinv tracked s \<and> within_capacity s"

definition shard_view :: "'p shard \<Rightarrow> int64 \<Rightarrow> string \<Rightarrow> (bytes \<times> int64) option" where
  "shard_view s t k =
     (case map_of (items s) k of None \<Rightarrow> None | Some e \<Rightarrow> live (Value e) (ExpiresAt e) t)"

lemmas inv_defs = shard_inv_def policy_agrees_def within_capacity_def

lemma basic_ops_items [simp]:
  "items (notify_policy f s) = items s"
  "items (remove_key P k s) = AList.delete k (items s)"
  "items (store_entry P k e s) = AList.update k e (items s)"
  "items (touch P k s) = items s"
  by (auto simp: notify_policy_def remove_key_def store_entry_def touch_def split: option.split)

lemma basic_ops_maxKeys [simp]:
  "maxKeys (notify_policy f s) = maxKeys s"
  "maxKeys (remove_key P k s) = maxKeys s"
  "maxKeys (store_entry P k e s) = maxKeys s"
  "maxKeys (touch P k s) = maxKeys s"
  "maxKeys (mark_access k now s) = maxKeys s"
  "maxKeys (evict_if_full P s) = maxKeys s"
  by (auto simp: notify_policy_def remove_key_def store_entry_def touch_def mark_access_def
      evict_if_full_def split: option.split prod.split)

lemma mark_access_items [simp]:
  "map_of (items (mark_access k now s)) k' =
     (if k' = k then map_option (AccessedAt_update (\<lambda>_. now)) (map_of (items s) k) else map_of (items s) k')"
  by (auto simp: mark_access_def split: option.split)

lemma mark_access_simps [simp]:
  "eviction (mark_access k now s) = eviction s"
  "wf_map (items s) \<Longrightarrow> wf_map (items (mark_access k now s))"
  "wf_map (items s) \<Longrightarrow> length (items (mark_access k now s)) = length (items s)"
  "set (keys_of (items (mark_access k now s))) = set (keys_of (items s))"
  by (auto simp: mark_access_def length_update set_keys_of insert_absorb domI split: option.split)

lemma shard_view_mark_access [simp]: "shard_view (mark_access k now s) = shard_view s"
  by (auto simp: shard_view_def fun_eq_iff split: option.split)

lemma shard_view_remove [simp]: "shard_view (remove_key P k s) t = (shard_view s t)(k := None)"
  by (auto simp: shard_view_def fun_eq_iff)

lemma shard_view_store [simp]:
  "shard_view (store_entry P k e s) t = (shard_view s t)(k := live (Value e) (ExpiresAt e) t)"
  by (auto simp: shard_view_def fun_eq_iff)

lemma shard_view_touch [simp]: "shard_view (touch P k s) = shard_view s"
  by (auto simp: shard_view_def fun_eq_iff)

lemma shard_view_purge:
  assumes "now \<le>s t"
  shows "shard_view (purge_expired P k now s) t = shard_view s t"
  using passed_mono [OF _ assms]
  by (auto simp: purge_expired_def shard_view_def fun_eq_iff live_def IsExpired_passed
      split: option.split)

text \<open>What a lookup section reports, in terms of the view.\<close>

lemma lookup_section_view:
  "lookup_section f k now s =
     (case map_of (items s) k of None \<Rightarrow> Missing
      | Some e \<Rightarrow> if shard_view s now k = None then Expired else Found (f e))"
  by (auto simp: lookup_section_def shard_view_def live_def IsExpired_passed split: option.split)

context eviction_policy
begin

abbreviation s_inv :: "'p shard \<Rightarrow> bool" where
  "s_inv \<equiv> shard_inv invar tracked"

lemma remove_key_inv: "s_inv s \<Longrightarrow> s_inv (remove_key P k s)"
  using length_delete_le [of k "items s"]
  by (auto simp: inv_defs remove_key_def notify_policy_def set_keys_of split: option.splits)

lemma store_entry_inv:
  assumes "s_inv s"
    and "map_of (items s) k = None \<Longrightarrow> eviction s \<noteq> None \<Longrightarrow> 0 <s maxKeys s \<Longrightarrow>
      int (length (items s)) < sint (maxKeys s)"
  shows "s_inv (store_entry P k e s)"
  using assms
  by (auto simp: inv_defs store_entry_def notify_policy_def set_keys_of length_update
      split: option.splits)

lemma mark_access_inv: "s_inv s \<Longrightarrow> s_inv (mark_access k now s)"
  by (cases "eviction s") (simp_all add: inv_defs)

lemma touch_inv: "s_inv s \<Longrightarrow> s_inv (touch P k s)"
  by (cases "eviction s"; cases "map_of (items s) k") (simp_all add: inv_defs touch_def)

lemma purge_expired_inv: "s_inv s \<Longrightarrow> s_inv (purge_expired P k now s)"
  by (auto simp: purge_expired_def remove_key_inv split: option.split)

text \<open>The capacity check makes room, and forgets at most one key.\<close>

lemma evict_cases:
  assumes "s_inv s"
  obtains (keep) "items (evict_if_full P s) = items s"
      and "eviction (evict_if_full P s) \<noteq> None \<Longrightarrow> 0 <s maxKeys s \<Longrightarrow>
        int (length (items s)) < sint (maxKeys s)"
  | (evict) ek where "map_of (items s) ek \<noteq> None"
      and "items (evict_if_full P s) = AList.delete ek (items s)"
      and "0 <s maxKeys s" and "int (length (items s)) \<le> sint (maxKeys s)"
proof (cases "0 <s maxKeys s \<and> sint (maxKeys s) \<le> int (length (items s)) \<and> eviction s \<noteq> None")
  case True
  then obtain p where p: "eviction s = Some p" by auto
  with assms have pi: "invar p" "tracked p = dom (map_of (items s))"
    by (simp_all add: inv_defs set_keys_of)
  obtain p' r where sel: "SelectEvict P p = (p', r)" by fastforce
  from True have "items s \<noteq> []" by (auto simp: signed_simps)
  then have "tracked p \<noteq> {}" using pi(2) by simp
  then obtain ek where ek: "r = Some ek" using select_None [OF pi(1)] sel by (cases r) auto
  with sel pi select_Some [OF pi(1)] have "map_of (items s) ek \<noteq> None" by auto
  moreover have "items (evict_if_full P s) = AList.delete ek (items s)"
    using True p sel ek by (simp add: evict_if_full_def)
  moreover have "int (length (items s)) \<le> sint (maxKeys s)"
    using assms True by (auto simp: inv_defs)
  ultimately show thesis using True that(2) by blast
next
  case False
  then have "evict_if_full P s = s" by (auto simp: evict_if_full_def split: option.split)
  with False show thesis using that(1) by auto
qed

lemma evict_if_full_inv:
  assumes "s_inv s"
  shows "s_inv (evict_if_full P s)"
proof -
  have 1: "s_inv (s\<lparr>eviction := Some p'\<rparr>)"
    if "eviction s = Some p" "SelectEvict P p = (p', r)" for p p' r
    using assms that invar_SelectEvict [of p] tracked_SelectEvict [of p] by (auto simp: inv_defs)
  show ?thesis
    using assms 1 by (auto simp: evict_if_full_def intro!: remove_key_inv split: option.split prod.split)
qed

lemma evict_if_full_room:
  assumes "s_inv s" and "eviction (evict_if_full P s) \<noteq> None" and "0 <s maxKeys s"
  shows "int (length (items (evict_if_full P s))) < sint (maxKeys s)"
  using assms(1)
proof (cases rule: evict_cases)
  case keep
  with assms show ?thesis by simp
next
  case (evict ek)
  then have "length (items (evict_if_full P s)) < length (items s)"
    by (simp add: length_delete_less)
  with evict show ?thesis by simp
qed

lemma evict_if_full_map:
  assumes "s_inv s"
  shows "map_of (items (evict_if_full P s)) k = map_of (items s) k \<or>
    map_of (items (evict_if_full P s)) k = None"
  using assms by (cases rule: evict_cases) auto

lemma shard_set_inv: "s_inv s \<Longrightarrow> s_inv (shard_set P k v d now s)"
  using evict_if_full_room [of s]
  by (auto simp: shard_set_def intro!: store_entry_inv evict_if_full_inv split: option.split)

lemma shard_expire_inv: "s_inv s \<Longrightarrow> s_inv (snd (shard_expire P k d now s))"
  using store_entry_inv [of s k]
  by (auto simp: shard_expire_def store_entry_def remove_key_inv split: option.split)

lemma shard_view_set:
  assumes "s_inv s"
  shows "shard_view (shard_set P k v d now s) t k = live (elems v) (deadline d now) t"
    and "k' \<noteq> k \<Longrightarrow> shard_view (shard_set P k v d now s) t k' = shard_view s t k' \<or>
      shard_view (shard_set P k v d now s) t k' = None"
  using evict_if_full_map [OF assms, of k']
  by (auto simp: shard_set_def shard_view_def split: option.split)

lemma shard_reads_inv:
  assumes "s_inv s"
  shows "s_inv (snd (shard_get P k now s))" and "s_inv (snd (shard_exists P k now s))"
    and "s_inv (snd (shard_ttl P k now s))" and "s_inv (snd (shard_delete P k s))"
  using assms
  by (auto simp: shard_op_defs remove_key_inv purge_expired_inv touch_inv mark_access_inv
      split: outcome.split option.split)

end

text \<open>The results of the reading operations and their effect on the view.\<close>

lemma shard_results:
  "fst (shard_get P k now s) = map_option fst (shard_view s now k)"
  "fst (shard_exists P k now s) \<longleftrightarrow> shard_view s now k \<noteq> None"
  "fst (shard_ttl P k now s) =
     (case shard_view s now k of None \<Rightarrow> (- 2, False) | Some (v, d) \<Rightarrow> (remaining d now, True))"
  "fst (shard_expire P k d now s) \<longleftrightarrow> shard_view s now k \<noteq> None"
  "fst (shard_delete P k s) \<longleftrightarrow> map_of (items s) k \<noteq> None"
  by (auto simp: shard_op_defs lookup_section_def shard_view_def live_def IsExpired_passed
      RemainingTTL_remaining split: option.split)

lemma shard_views:
  assumes "now \<le>s t"
  shows "shard_view (snd (shard_get P k now s)) t = shard_view s t"
    and "shard_view (snd (shard_exists P k now s)) t = shard_view s t"
    and "shard_view (snd (shard_ttl P k now s)) t = shard_view s t"
  using shard_view_purge [OF assms]
  by (auto simp: shard_op_defs split: outcome.split)

lemma shard_view_delete: "shard_view (snd (shard_delete P k s)) t = (shard_view s t)(k := None)"
  by (auto simp: shard_delete_def shard_view_def fun_eq_iff split: option.split)

lemma shard_view_expire:
  assumes "now \<le>s t"
  shows "shard_view (snd (shard_expire P k d now s)) t =
    (case shard_view s now k of None \<Rightarrow> shard_view s t
     | Some (v, _) \<Rightarrow> (shard_view s t)(k := live v (deadline d now) t))"
  using passed_mono [OF _ assms]
  by (auto simp: shard_expire_def shard_view_def live_def IsExpired_passed deadline_def fun_eq_iff
      split: option.split)

lemma delete_result_view: "shard_view s t k \<noteq> None \<Longrightarrow> fst (shard_delete P k s)"
  by (auto simp: shard_results shard_view_def split: option.splits)

text \<open>A shard meets the contract of an expiring map, whatever its policy.\<close>

sublocale eviction_policy \<subseteq> shard: expiring_map "shard_inv invar tracked" shard_view
  "shard_set P" "shard_get P" "shard_delete P" "shard_exists P" "shard_ttl P" "shard_expire P"
  by unfold_locales
    (use shard_view_set delete_result_view in
      \<open>simp_all add: shard_set_inv shard_reads_inv shard_expire_inv shard_results shard_views
        shard_view_delete shard_view_expire\<close>)

subsection \<open>Shards without a policy, and recency order with one\<close>

lemma evict_if_full_None [simp]: "eviction s = None \<Longrightarrow> evict_if_full P s = s"
  by (simp add: evict_if_full_def)

lemma eviction_None_iff [simp]:
  "eviction (notify_policy f s) = None \<longleftrightarrow> eviction s = None"
  "eviction (remove_key P k s) = None \<longleftrightarrow> eviction s = None"
  "eviction (store_entry P k e s) = None \<longleftrightarrow> eviction s = None"
  "eviction (touch P k s) = None \<longleftrightarrow> eviction s = None"
  "eviction (purge_expired P k now s) = None \<longleftrightarrow> eviction s = None"
  "eviction (evict_if_full P s) = None \<longleftrightarrow> eviction s = None"
  by (auto simp: notify_policy_def remove_key_def store_entry_def touch_def purge_expired_def
      evict_if_full_def split: option.split prod.split)

lemma shard_ops_eviction_None [simp]:
  "eviction (shard_set P k v d now s) = None \<longleftrightarrow> eviction s = None"
  "eviction (snd (shard_get P k now s)) = None \<longleftrightarrow> eviction s = None"
  "eviction (snd (shard_delete P k s)) = None \<longleftrightarrow> eviction s = None"
  "eviction (snd (shard_exists P k now s)) = None \<longleftrightarrow> eviction s = None"
  "eviction (snd (shard_ttl P k now s)) = None \<longleftrightarrow> eviction s = None"
  "eviction (snd (shard_expire P k d now s)) = None \<longleftrightarrow> eviction s = None"
  by (auto simp: shard_op_defs split: option.split outcome.split)

lemma shard_view_set_keep:
  "eviction s = None \<Longrightarrow> k' \<noteq> k \<Longrightarrow> shard_view (shard_set P k v d now s) t k' = shard_view s t k'"
  by (auto simp: shard_set_def split: option.split)

text \<open>
  The contents of a shard, expired entries included. Without a policy each operation changes
  the contents of its own key only.
\<close>

definition shard_contents :: "'p shard \<Rightarrow> string \<Rightarrow> (bytes \<times> int64) option" where
  "shard_contents s k = map_option (\<lambda>e. (Value e, ExpiresAt e)) (map_of (items s) k)"

lemma shard_view_contents: "shard_view s t = live_at t (shard_contents s)"
  by (auto simp: shard_view_def live_at_def shard_contents_def fun_eq_iff split: option.split)

lemma contents_simps [simp]:
  "shard_contents (remove_key P k s) = (shard_contents s)(k := None)"
  "shard_contents (store_entry P k e s) = (shard_contents s)(k \<mapsto> (Value e, ExpiresAt e))"
  "shard_contents (touch P k s) = shard_contents s" "shard_contents (mark_access k now s) = shard_contents s"
  "shard_contents (notify_policy f s) = shard_contents s"
  by (auto simp: shard_contents_def fun_eq_iff map_option.compositionality comp_def)

lemma contents_purge:
  "shard_view s now k = None \<Longrightarrow> shard_contents (purge_expired P k now s) = (shard_contents s)(k := None)"
  by (auto simp: purge_expired_def shard_view_def live_def IsExpired_passed split: option.splits if_splits)
    (auto simp: shard_contents_def)

lemma shard_set_contents:
  "eviction s = None \<Longrightarrow> shard_contents (shard_set P k v d now s) = (shard_contents s)(k \<mapsto> (elems v, deadline d now))"
  by (simp add: shard_set_def split: option.split)

lemma shard_read_contents:
  "shard_contents (snd (shard_get P k now s)) = forget now k (shard_contents s)"
  "shard_contents (snd (shard_exists P k now s)) = forget now k (shard_contents s)"
  "shard_contents (snd (shard_ttl P k now s)) = forget now k (shard_contents s)"
  using contents_purge [of s now k P]
  by (auto simp: shard_op_defs lookup_section_view forget_def shard_view_contents [symmetric] split: option.split)
    (auto simp: shard_contents_def shard_view_def fun_eq_iff)

lemma shard_write_contents:
  "shard_contents (snd (shard_delete P k s)) = (shard_contents s)(k := None)"
  "shard_contents (snd (shard_expire P k d now s)) =
     (case live_at now (shard_contents s) k of
        None \<Rightarrow> (shard_contents s)(k := None)
      | Some (v, _) \<Rightarrow> (shard_contents s)(k \<mapsto> (v, deadline d now)))"
  by (auto simp: shard_delete_def shard_expire_def live_at_def live_def IsExpired_passed deadline_def shard_contents_def
      fun_eq_iff split: option.split)

text \<open>The operations never add a key to a shard, but for \<open>set\<close>, which adds its own.\<close>

lemma shard_ops_dom:
  "dom (map_of (items (shard_set P k v d now s))) \<subseteq> insert k (dom (map_of (items s)))"
  "dom (map_of (items (snd (shard_get P k now s)))) \<subseteq> dom (map_of (items s))"
  "dom (map_of (items (snd (shard_delete P k s)))) \<subseteq> dom (map_of (items s))"
  "dom (map_of (items (snd (shard_exists P k now s)))) \<subseteq> dom (map_of (items s))"
  "dom (map_of (items (snd (shard_ttl P k now s)))) \<subseteq> dom (map_of (items s))"
  "dom (map_of (items (snd (shard_expire P k d now s)))) \<subseteq> dom (map_of (items s))"
  by (auto simp: shard_op_defs evict_if_full_def purge_expired_def
      split: option.splits outcome.splits prod.splits if_splits)

context recency_policy
begin

text \<open>
  Inserting a new key into a full shard removes exactly the least recently used key, and
  the new key becomes the most recently used one.
\<close>

lemma shard_set_evicts:
  assumes inv: "shard_inv invar (\<lambda>p. set (order p)) s" and p: "eviction s = Some p"
    and new: "map_of (items s) k = None"
    and full: "0 <s maxKeys s" "int (length (items s)) = sint (maxKeys s)"
  shows "\<exists>p'. map_of (items (shard_set P k v d now s)) =
      (map_of (items s))(last (order p) := None, k \<mapsto> NewEntry v d now) \<and>
      eviction (shard_set P k v d now s) = Some p' \<and> order p' = k # butlast (order p)"
proof -
  from inv p have pi: "invar p" "set (order p) = dom (map_of (items s))"
    by (simp_all add: inv_defs set_keys_of)
  from full have "items s \<noteq> []" by (auto simp: signed_simps)
  then have "set (order p) \<noteq> {}" using pi(2) by simp
  then have ne: "order p \<noteq> []" by simp
  obtain p1 r where sel: "SelectEvict P p = (p1, r)" by fastforce
  have r: "r = Some (last (order p))" and o1: "order p1 = order p" and i1: "invar p1"
    using order_SelectEvict [OF pi(1) sel] invar_SelectEvict [OF pi(1) sel] ne
    by (simp_all add: last_opt_def)
  let ?l = "last (order p)"
  have rem: "remove1 ?l (order p) = butlast (order p)"
    using ne order_distinct [OF pi(1)]
    by (metis append_butlast_last_id distinct_butlast distinct_append not_distinct_conv_prefix
        remove1_append remove1.simps(2) append_Nil2 remove1.simps(1))
  have "k \<notin> set (order p)" using new pi(2) by auto
  then have "k \<notin> set (butlast (order p))" by (auto dest: in_set_butlastD)
  then have "order (OnSet P k (OnDelete P ?l p1)) = k # butlast (order p)"
    using i1 o1 rem by (simp add: order_OnSet order_OnDelete invar_OnDelete remove1_idem)
  moreover have "shard_set P k v d now s =
      store_entry P k (NewEntry v d now) (remove_key P ?l (s\<lparr>eviction := Some p1\<rparr>))"
    using new p sel r full by (simp add: shard_set_def evict_if_full_def)
  ultimately show ?thesis
    by (simp add: store_entry_def remove_key_def notify_policy_def)
qed

text \<open>A successful read makes its key the most recently used one.\<close>

lemma shard_get_promotes:
  assumes "shard_inv invar (\<lambda>p. set (order p)) s" and "eviction s = Some p"
    and "fst (shard_get P k now s) \<noteq> None"
  shows "\<exists>p'. eviction (snd (shard_get P k now s)) = Some p' \<and> order p' = k # remove1 k (order p)"
proof -
  from assms(3) obtain e where e: "map_of (items s) k = Some e" "\<not> IsExpired e now"
    by (auto simp: shard_get_def lookup_section_def split: option.splits if_splits)
  from assms(1,2) have "invar p" "set (order p) = dom (map_of (items s))"
    by (simp_all add: inv_defs set_keys_of)
  with e assms(2) show ?thesis
    by (auto simp: shard_get_def lookup_section_def touch_def order_OnGet domI)
qed

end

subsection \<open>Counting and sweeping\<close>

lemma count_live_eq: "count_live now es c = c + word_of_nat (length (filter (\<lambda>e. \<not> IsExpired e now) es))"
  by (induction now es c rule: count_live.induct) auto

lemma length_live_items:
  assumes "wf_map (items s)"
  shows "length (filter (\<lambda>e. \<not> IsExpired e now) (map snd (items s))) = card (dom (shard_view s now))"
proof -
  let ?kvs = "filter (\<lambda>kv. \<not> IsExpired (snd kv) now) (items s)"
  have d: "distinct (map fst ?kvs)"
    using assms by (simp add: keys_of_def distinct_map_filter)
  have eq: "(k, e) \<in> set (items s) \<longleftrightarrow> map_of (items s) k = Some e" for k e
    using assms by (simp add: keys_of_def map_of_eq_Some_iff)
  have "k \<in> set (map fst ?kvs) \<longleftrightarrow> k \<in> dom (shard_view s now)" for k
    by (auto simp: eq shard_view_def live_def IsExpired_passed image_iff domIff Bex_def
        split: option.split)
  then have "set (map fst ?kvs) = dom (shard_view s now)" by blast
  then have "card (dom (shard_view s now)) = length ?kvs"
    using distinct_card [OF d] by simp
  then show ?thesis by (simp add: filter_map comp_def)
qed

lemma shard_len_eq: "wf_map (items s) \<Longrightarrow> shard_len now s = word_of_nat (card (dom (shard_view s now)))"
  unfolding shard_len_def count_live_eq by (simp only: length_live_items add_0)

text \<open>
  The loop of \<open>activeSweep\<close>: its counters, and the fact that each expired key counted
  has left the map, on which the termination of the sweep cycle rests.
\<close>

lemma sweep_loop_counts:
  assumes "sweep_loop P sz now ks e n s = ((e', n'), s')"
  shows "e \<le> e'" "n \<le> n'" "e' - e \<le> n' - n" "length (items s') + (e' - e) \<le> length (items s)"
    "int n' \<le> max (int n) (sint sz)" "n' - n \<le> length ks"
proof (atomize (full), use assms in \<open>induction P sz now ks e n s rule: sweep_loop.induct\<close>)
  case (2 P sz now k ks e n s)
  show ?case
  proof (cases "map_of (items s) k")
    case None
    with 2 show ?thesis by fastforce
  next
    case (Some en)
    then have less: "length (AList.delete k (items s)) < length (items s)"
      by (simp add: length_delete_less)
    consider (stop) "sint sz \<le> int n" | (exp) "\<not> sint sz \<le> int n" "IsExpired en now"
      | (live) "\<not> sint sz \<le> int n" "\<not> IsExpired en now" by blast
    then show ?thesis
    proof cases
      case stop
      with 2(4) Some show ?thesis by simp
    next
      case exp
      with 2(2) [OF Some] 2(4) Some less show ?thesis by fastforce
    next
      case live
      with 2(3) [OF Some] 2(4) Some show ?thesis by fastforce
    qed
  qed
qed simp

lemma sweep_loop_map:
  "map_of (items (snd (sweep_loop P sz now ks e n s))) k =
     map_of (items s) k \<or>
   (\<exists>en. map_of (items s) k = Some en \<and> IsExpired en now \<and>
     map_of (items (snd (sweep_loop P sz now ks e n s))) k = None)"
proof (induction ks arbitrary: e n s)
  case (Cons a ks)
  show ?case
    using Cons.IH [of e n s] Cons.IH [of e "Suc n" s]
      Cons.IH [of "Suc e" "Suc n" "remove_key P a s"]
    by (cases "k = a") (auto split: option.split)
qed simp

lemma sweep_loop_view:
  assumes "now \<le>s t"
  shows "shard_view (snd (sweep_loop P sz now ks e n s)) t = shard_view s t"
proof
  fix k
  show "shard_view (snd (sweep_loop P sz now ks e n s)) t k = shard_view s t k"
    using sweep_loop_map [of P sz now ks e n s k] passed_mono [OF _ assms]
    by (auto simp: shard_view_def live_def IsExpired_passed)
qed

lemma sweep_loop_eviction_None [simp]:
  "eviction (snd (sweep_loop P sz now ks e n s)) = None \<longleftrightarrow> eviction s = None"
  by (induction P sz now ks e n s rule: sweep_loop.induct) (auto split: option.split)

text \<open>
  What the loop does exactly: it examines the first keys of the visiting order, as many as
  the sample size leaves, and of these it removes and counts the expired ones.
\<close>

definition expired_key :: "'p shard \<Rightarrow> int64 \<Rightarrow> string \<Rightarrow> bool" where
  "expired_key s now k = (case map_of (items s) k of None \<Rightarrow> False | Some e \<Rightarrow> IsExpired e now)"

lemma expired_key_remove: "k' \<noteq> k \<Longrightarrow> expired_key (remove_key P k s) now k' = expired_key s now k'"
  by (simp add: expired_key_def)

lemma sweep_loop_exact:
  assumes "distinct ks" and "set ks \<subseteq> dom (map_of (items s))"
    and "sweep_loop P sz now ks e n s = ((e', n'), s')" and "j = min (length ks) (nat (sint sz) - n)"
  shows "n' = n + j \<and> e' = e + length (filter (expired_key s now) (take j ks)) \<and>
    map_of (items s') k = (if k \<in> set (take j ks) \<and> expired_key s now k then None else map_of (items s) k)"
  using assms
proof (induction ks arbitrary: e n s j)
  case (Cons a ks)
  obtain en where en: "map_of (items s) a = Some en" using Cons.prems(2) by auto
  show ?case
  proof (cases "sint sz \<le> int n")
    case True
    with Cons.prems(3,4) en show ?thesis by simp
  next
    case False
    define i where "i = min (length ks) (nat (sint sz) - Suc n)"
    have j: "j = Suc i" using False Cons.prems(4) by (auto simp: i_def)
    show ?thesis
    proof (cases "IsExpired en now")
      case True
      let ?s = "remove_key P a s"
      have r: "sweep_loop P sz now ks (Suc e) (Suc n) ?s = ((e', n'), s')" using Cons.prems(3) False True en by simp
      have d: "distinct ks" "set ks \<subseteq> dom (map_of (items ?s))" "a \<notin> set ks" using Cons.prems(1,2) by auto
      have "filter (expired_key ?s now) (take i ks) = filter (expired_key s now) (take i ks)"
        using d(3) by (intro filter_cong refl expired_key_remove) (auto dest: in_set_takeD)
      moreover have "expired_key s now a" using True en by (simp add: expired_key_def)
      ultimately show ?thesis
        using Cons.IH [OF d(1,2) r i_def] expired_key_remove [of k a P s now] d(3)
        by (cases "k = a") (auto simp: j dest: in_set_takeD)
    next
      case live: False
      have r: "sweep_loop P sz now ks e (Suc n) s = ((e', n'), s')" using Cons.prems(3) False live en by simp
      have "\<not> expired_key s now a" using live en by (simp add: expired_key_def)
      with Cons.IH [OF _ _ r i_def] Cons.prems(1,2) show ?thesis by (auto simp: j)
    qed
  qed
qed simp

context eviction_policy
begin

lemma sweep_loop_inv: "s_inv s \<Longrightarrow> s_inv (snd (sweep_loop P sz now ks e n s))"
  by (induction ks arbitrary: e n s) (auto simp: remove_key_inv split: option.split)

lemma activeSweep_inv: "s_inv s \<Longrightarrow> s_inv (snd (activeSweep P sz now ks s))"
  by (simp add: activeSweep_def sweep_loop_inv)

end

lemma activeSweep_counts:
  assumes "activeSweep P sz now ks s = ((e, n), s')"
  shows "e \<le> n" "length (items s') + e \<le> length (items s)" "int n \<le> max 0 (sint sz)"
  using assms sweep_loop_counts [of P sz now ks 0 0 s e n s']
  by (auto simp: activeSweep_def split: if_splits)

lemma activeSweep_view: "now \<le>s t \<Longrightarrow> shard_view (snd (activeSweep P sz now ks s)) t = shard_view s t"
  by (simp add: activeSweep_def sweep_loop_view)

lemma activeSweep_dom: "dom (map_of (items (snd (activeSweep P sz now ks s)))) \<subseteq> dom (map_of (items s))"
proof (rule subsetI)
  fix k assume "k \<in> dom (map_of (items (snd (activeSweep P sz now ks s))))"
  with sweep_loop_map [of P sz now ks 0 0 s k] show "k \<in> dom (map_of (items s))"
    by (auto simp: activeSweep_def split: if_splits)
qed

lemma activeSweep_eviction_None [simp]:
  "eviction (snd (activeSweep P sz now ks s)) = None \<longleftrightarrow> eviction s = None"
  by (simp add: activeSweep_def)

text \<open>No operation changes the limit of a shard.\<close>

lemma purge_expired_maxKeys [simp]: "maxKeys (purge_expired P k now s) = maxKeys s"
  by (simp add: purge_expired_def split: option.split)

lemma shard_ops_maxKeys [simp]:
  "maxKeys (shard_set P k v d now s) = maxKeys s" "maxKeys (snd (shard_get P k now s)) = maxKeys s"
  "maxKeys (snd (shard_delete P k s)) = maxKeys s" "maxKeys (snd (shard_exists P k now s)) = maxKeys s"
  "maxKeys (snd (shard_ttl P k now s)) = maxKeys s" "maxKeys (snd (shard_expire P k d now s)) = maxKeys s"
  by (auto simp: shard_op_defs split: option.split outcome.split)

lemma sweep_loop_maxKeys [simp]: "maxKeys (snd (sweep_loop P sz now ks e n s)) = maxKeys s"
  by (induction P sz now ks e n s rule: sweep_loop.induct) (auto split: option.split)

lemma activeSweep_maxKeys [simp]: "maxKeys (snd (activeSweep P sz now ks s)) = maxKeys s"
  by (simp add: activeSweep_def)

end
