(* ===== verification/Go_Text.thy ===== *)
theory Go_Text
  imports Vortex_Prelude
begin

text \<open>
  The parts of Go's \<open>strconv\<close> and \<open>strings\<close> packages that the program calls:
  \<open>FormatInt\<close>/\<open>Itoa\<close> and \<open>ParseInt\<close>/\<open>Atoi\<close> in base 10 on 64-bit integers, and
  \<open>strings.ToUpper\<close>. The main facts are that parsing inverts formatting, which the wire
  protocol and the replication stream rely on, and that a formatted number holds only
  digits and a sign, so that it never contains a line terminator.
\<close>

subsection \<open>Decimal formatting\<close>

definition digit_char :: "nat \<Rightarrow> char" where
  "digit_char n = char_of (48 + n)"

definition is_digit :: "char \<Rightarrow> bool" where
  "is_digit c \<longleftrightarrow> (48 :: nat) \<le> of_char c \<and> of_char c \<le> (57 :: nat)"

definition digit_val :: "char \<Rightarrow> nat" where
  "digit_val c = of_char c - 48"

fun format_nat :: "nat \<Rightarrow> string" where
  "format_nat n =
     (if n < 10 then [digit_char n] else format_nat (n div 10) @ [digit_char (n mod 10)])"

declare format_nat.simps [simp del]

text \<open>\<open>strconv.FormatInt(n, 10)\<close>; \<open>strconv.Itoa(n)\<close> is \<open>FormatInt(int64(n), 10)\<close>.\<close>

definition FormatInt :: "int64 \<Rightarrow> string" where
  "FormatInt n =
     (if sint n < 0 then CHR ''-'' # format_nat (nat (- sint n)) else format_nat (nat (sint n)))"

definition Itoa :: "nat \<Rightarrow> string" where
  "Itoa n = FormatInt (word_of_nat n)"

subsection \<open>Decimal parsing\<close>

text \<open>
  \<open>ParseInt\<close> returns a value together with an error. A syntax error gives 0, a range
  error the nearest representable value; digits are read left to right, so that the
  first of the two problems met is the one reported.
\<close>

datatype ParseErr = ErrSyntax | ErrRange

fun parse_uint :: "nat \<Rightarrow> string \<Rightarrow> ParseErr + nat" where
  "parse_uint acc [] = Inr acc"
| "parse_uint acc (c # cs) =
     (if \<not> is_digit c then Inl ErrSyntax
      else if 10 * acc + digit_val c \<ge> 2 ^ 64 then Inl ErrRange
      else parse_uint (10 * acc + digit_val c) cs)"

definition ParseUint :: "string \<Rightarrow> ParseErr + nat" where
  "ParseUint s = (if s = [] then Inl ErrSyntax else parse_uint 0 s)"

definition ParseInt :: "string \<Rightarrow> int64 \<times> ParseErr option" where
  "ParseInt s =
     (let neg = (hd_opt s = Some (CHR ''-''));
          ds = (if neg \<or> hd_opt s = Some (CHR ''+'') then tl s else s)
      in case ParseUint ds of
           Inl ErrSyntax \<Rightarrow> (0, Some ErrSyntax)
         | Inl ErrRange \<Rightarrow>
             (if neg then (word_of_int (- (2 ^ 63)), Some ErrRange)
              else (word_of_int (2 ^ 63 - 1), Some ErrRange))
         | Inr un \<Rightarrow>
             (if \<not> neg \<and> un \<ge> 2 ^ 63 then (word_of_int (2 ^ 63 - 1), Some ErrRange)
              else if neg \<and> un > 2 ^ 63 then (word_of_int (- (2 ^ 63)), Some ErrRange)
              else (word_of_int (if neg then - int un else int un), None)))"

text \<open>\<open>strconv.Atoi\<close>: on a 64-bit platform, \<open>ParseInt(s, 10, 0)\<close>.\<close>

definition Atoi :: "string \<Rightarrow> goint \<times> ParseErr option" where
  "Atoi s = ParseInt s"

subsection \<open>Upper-casing\<close>

text \<open>
  \<open>strings.ToUpper\<close> maps the ASCII letters of an ASCII string. On a string with a byte
  outside ASCII it applies Unicode's case tables; that branch is the argument \<open>up\<close>, and
  every theorem holds for each choice of it.
\<close>

definition is_ascii :: "char \<Rightarrow> bool" where
  "is_ascii c \<longleftrightarrow> of_char c < (128 :: nat)"

definition upper_ascii :: "char \<Rightarrow> char" where
  "upper_ascii c =
     (if (97 :: nat) \<le> of_char c \<and> of_char c \<le> (122 :: nat) then char_of (of_char c - (32 :: nat)) else c)"

definition ToUpper :: "(string \<Rightarrow> string) \<Rightarrow> string \<Rightarrow> string" where
  "ToUpper up s = (if list_all is_ascii s then map upper_ascii s else up s)"

subsection \<open>Formatted numbers\<close>

lemma of_char_digit_char: "n < 10 \<Longrightarrow> of_char (digit_char n) = 48 + n"
  by (simp add: digit_char_def)

lemma is_digit_digit_char [simp]: "n < 10 \<Longrightarrow> is_digit (digit_char n)"
  by (simp add: is_digit_def of_char_digit_char)

lemma digit_val_digit_char [simp]: "n < 10 \<Longrightarrow> digit_val (digit_char n) = n"
  by (simp add: digit_val_def of_char_digit_char)

lemma format_nat_nonempty [simp]: "format_nat n \<noteq> []"
  by (subst format_nat.simps) simp

lemma format_nat_digits: "c \<in> set (format_nat n) \<Longrightarrow> is_digit c"
proof (induction n rule: format_nat.induct)
  case (1 n)
  then show ?case
    by (subst (asm) (2) format_nat.simps) (auto split: if_splits)
qed

lemma digit_not_special:
  assumes "is_digit c"
  shows "c \<noteq> CHR ''-''" "c \<noteq> CHR ''+''" "c \<noteq> CHR 0x0A" "c \<noteq> CHR 0x0D"
  using assms by (auto simp: is_digit_def)

lemma FormatInt_chars: "c \<in> set (FormatInt n) \<Longrightarrow> is_digit c \<or> c = CHR ''-''"
  by (auto simp: FormatInt_def format_nat_digits split: if_splits)

lemma FormatInt_no_newline [simp]: "CHR 0x0A \<notin> set (FormatInt n)"
  using FormatInt_chars digit_not_special(3) by fastforce

lemma Itoa_no_newline [simp]: "CHR 0x0A \<notin> set (Itoa n)"
  by (simp add: Itoa_def)

lemma parse_uint_append_digit:
  "parse_uint acc (s @ [c]) =
     (case parse_uint acc s of Inl e \<Rightarrow> Inl e
      | Inr n \<Rightarrow> if \<not> is_digit c then Inl ErrSyntax
          else if 10 * n + digit_val c \<ge> 2 ^ 64 then Inl ErrRange else Inr (10 * n + digit_val c))"
  by (induction acc s rule: parse_uint.induct) auto

lemma parse_format_nat: "n < 2 ^ 64 \<Longrightarrow> parse_uint 0 (format_nat n) = Inr n"
proof (induction n rule: format_nat.induct)
  case (1 n)
  show ?case
  proof (cases "n < 10")
    case True
    then show ?thesis by (subst format_nat.simps) simp
  next
    case False
    with 1 have IH: "parse_uint 0 (format_nat (n div 10)) = Inr (n div 10)" by simp
    have "10 * (n div 10) + n mod 10 = n" by simp
    with False IH 1(2) show ?thesis
      by (subst format_nat.simps) (simp add: parse_uint_append_digit)
  qed
qed

lemma hd_opt_format_nat: "hd_opt (format_nat n) = Some c \<Longrightarrow> is_digit c"
  by (metis format_nat_digits hd_opt_Some_iff list.set_intros(1))

lemma format_nat_leading: "0 < n \<Longrightarrow> hd (format_nat n) \<noteq> CHR ''0''"
proof (induction n rule: format_nat.induct)
  case (1 n)
  show ?case
  proof (cases "n < 10")
    case True
    have "of_char (digit_char n) = 48 + n" using True by (rule of_char_digit_char)
    then have "digit_char n \<noteq> CHR ''0''" using 1(2) by auto
    with True show ?thesis by (subst format_nat.simps) simp
  next
    case False
    with 1 show ?thesis by (subst format_nat.simps) simp
  qed
qed

lemma ParseUint_format_nat: "n < 2 ^ 64 \<Longrightarrow> ParseUint (format_nat n) = Inr n"
  by (simp add: ParseUint_def parse_format_nat)

theorem ParseInt_FormatInt [simp]: "ParseInt (FormatInt n) = (n, None)"
proof (cases "sint n < 0")
  case True
  have "nat (- sint n) \<le> 2 ^ 63" using sint64_bounds(1) [of n] by simp
  moreover from this have "ParseUint (format_nat (nat (- sint n))) = Inr (nat (- sint n))"
    by (intro ParseUint_format_nat) simp
  ultimately show ?thesis using True by (simp add: FormatInt_def ParseInt_def)
next
  case False
  have lt: "nat (sint n) < 2 ^ 63" using sint64_bounds(2) [of n] by simp
  then have "ParseUint (format_nat (nat (sint n))) = Inr (nat (sint n))"
    by (intro ParseUint_format_nat) simp
  moreover have "hd_opt (format_nat (nat (sint n))) \<noteq> Some (CHR ''-'')"
    "hd_opt (format_nat (nat (sint n))) \<noteq> Some (CHR ''+'')"
    using hd_opt_format_nat digit_not_special(1,2) by blast+
  ultimately show ?thesis using False lt by (simp add: FormatInt_def ParseInt_def)
qed

lemma Atoi_Itoa: "n < 2 ^ 63 \<Longrightarrow> Atoi (Itoa n) = (word_of_nat n, None)"
  by (simp add: Atoi_def Itoa_def)

lemma sint_word_of_nat: "n < 2 ^ 63 \<Longrightarrow> sint (word_of_nat n :: 64 word) = int n"
  using sint64_of_int [of "int n"] by simp

lemma length_format_nat: "n < 10 ^ k \<Longrightarrow> 0 < k \<Longrightarrow> length (format_nat n) \<le> k"
proof (induction k arbitrary: n)
  case (Suc k)
  show ?case
  proof (cases "n < 10")
    case True
    then show ?thesis by (subst format_nat.simps) simp
  next
    case False
    then have "0 < k" using Suc.prems(1) by (cases k) auto
    moreover have "n div 10 < 10 ^ k" using Suc.prems(1) by (simp add: less_mult_imp_div_less mult.commute)
    ultimately have "length (format_nat (n div 10)) \<le> k" by (simp add: Suc.IH)
    with False show ?thesis by (subst format_nat.simps) simp
  qed
qed simp

lemma length_FormatInt: "length (FormatInt n) \<le> 20"
proof -
  have "nat (- sint n) < 10 ^ 19" "nat (sint n) < 10 ^ 19"
    using sint64_bounds(1) [of n] sint64_bounds(2) [of n] by simp_all
  with length_format_nat [of "nat (- sint n)" 19] length_format_nat [of "nat (sint n)" 19] show ?thesis
    by (simp add: FormatInt_def)
qed

end
