(* ===== verification/Cache_Store.thy ===== *)
theory Cache_Store
  imports Shard Go_Text
begin

text \<open>
  \<open>internal/store/store.go\<close>: the sharded store. A store operation takes the instant that
  \<open>time.Now().UnixNano()\<close> returns in it, and works on a pair of the store and the state
  \<open>'e\<close> of whoever registered write listeners; a listener is a transformer of that state
  and is called, as in the code, after the shard operation.

  The field \<open>seed\<close> holds the function \<open>maphash.String(seed, -)\<close> that the random seed
  selects, so that every result holds for every hash function. The two sources of
  nondeterminism of a sweep, the clock and the iteration order of maps, are the two
  functions of \<open>sweep_env\<close>.
\<close>

record SnapshotEntry =
  snap_Key :: string
  snap_Value :: bytes
  snap_TTL :: Duration

type_synonym 'e WriteListener = "string \<Rightarrow> string \<Rightarrow> byte slice \<Rightarrow> Duration \<Rightarrow> 'e \<Rightarrow> 'e"

text \<open>The errors of the package; \<open>StorePanic\<close> is the run-time panic of \<open>make\<close> in \<open>NewStore\<close>.\<close>

datatype StoreErr = ErrInvalidShardCount | ErrStoreClosed | StorePanic

fun StoreErr_Error :: "StoreErr \<Rightarrow> string" where
  "StoreErr_Error ErrInvalidShardCount = ''shard count must be a positive power of 2''"
| "StoreErr_Error ErrStoreClosed = ''store is closed''"
| "StoreErr_Error StorePanic = makeslice_panic"

record 'p Config =
  ShardCount :: goint
  MaxKeysPerShard :: goint
  EvictionFactory :: "'p EvictionPolicyFactory"
  ActiveSweepInterval :: Duration
  ActiveSweepSampleSize :: goint
  ActiveSweepMaxCPU :: Duration

definition DefaultConfig :: "'p Config" where
  "DefaultConfig =
     \<lparr>ShardCount = 16, MaxKeysPerShard = 0, EvictionFactory = None,
      ActiveSweepInterval = 100 * 1000000, ActiveSweepSampleSize = 20,
      ActiveSweepMaxCPU = 1 * 1000000\<rparr>"

definition WithLRUEviction :: "goint \<Rightarrow> goint \<Rightarrow> lruPolicy Config" where
  "WithLRUEviction shardCount maxKeysPerShard =
     DefaultConfig\<lparr>ShardCount := shardCount, MaxKeysPerShard := maxKeysPerShard,
       EvictionFactory := Some NewLRUPolicy\<rparr>"

record ('p, 'e) Store =
  cfg :: "'p Config"
  shards :: "'p shard list"
  shardMask :: "64 word"
  seed :: "string \<Rightarrow> 64 word"
  ctx_done :: bool
  closed :: bool
  onWriteHooks :: "'e WriteListener list"

definition NewStore :: "'p Config \<Rightarrow> (string \<Rightarrow> 64 word) \<Rightarrow> StoreErr + ('p, 'e) Store" where
  "NewStore c hash =
     (if ShardCount c \<le>s 0 \<or> ShardCount c AND (ShardCount c - 1) \<noteq> 0
      then Inl ErrInvalidShardCount
      else if \<not> make_ok 8 (ShardCount c) then Inl StorePanic
      else
        let c = (if ActiveSweepInterval c \<le>s 0 then c\<lparr>ActiveSweepInterval := 100 * 1000000\<rparr> else c);
            c = (if ActiveSweepSampleSize c \<le>s 0 then c\<lparr>ActiveSweepSampleSize := 20\<rparr> else c);
            c = (if ActiveSweepMaxCPU c \<le>s 0 then c\<lparr>ActiveSweepMaxCPU := 1 * 1000000\<rparr> else c)
        in Inr \<lparr>cfg = c,
                shards = replicate (nat (sint (ShardCount c)))
                  (newShard (MaxKeysPerShard c) (EvictionFactory c)),
                shardMask = ShardCount c - 1, seed = hash,
                ctx_done = False, closed = False, onWriteHooks = []\<rparr>)"

definition OnWrite :: "'e WriteListener \<Rightarrow> ('p, 'e) Store \<Rightarrow> ('p, 'e) Store" where
  "OnWrite listener s = s\<lparr>onWriteHooks := onWriteHooks s @ [listener]\<rparr>"

definition notifyWrite :: "string \<Rightarrow> string \<Rightarrow> byte slice \<Rightarrow> Duration \<Rightarrow> ('p, 'e) Store \<Rightarrow> 'e \<Rightarrow> 'e" where
  "notifyWrite cmdName k val ttl s env =
     fold (\<lambda>hook. hook cmdName k val ttl) (onWriteHooks s) env"

text \<open>\<open>getShard\<close> as an index into the slice of shards.\<close>

definition getShard :: "('p, 'e) Store \<Rightarrow> string \<Rightarrow> nat" where
  "getShard s k = unat (seed s k AND shardMask s)"

text \<open>Run a shard operation on the shard of a key, in place.\<close>

definition on_shard :: "string \<Rightarrow> ('p shard \<Rightarrow> 'r \<times> 'p shard) \<Rightarrow> ('p, 'e) Store \<Rightarrow>
    'r \<times> ('p, 'e) Store" where
  "on_shard k f s =
     (let i = getShard s k; (r, shd) = f (shards s ! i) in (r, s\<lparr>shards := (shards s)[i := shd]\<rparr>))"

definition Store_Set :: "'p EvictionPolicy \<Rightarrow> string \<Rightarrow> byte slice \<Rightarrow> Duration \<Rightarrow> int64 \<Rightarrow>
    ('p, 'e) Store \<times> 'e \<Rightarrow> StoreErr option \<times> ('p, 'e) Store \<times> 'e" where
  "Store_Set P k val ttl now st =
     (let (s, env) = st in
      if closed s then (Some ErrStoreClosed, s, env)
      else
        let (_, s) = on_shard k (\<lambda>shd. ((), shard_set P k val ttl now shd)) s
        in (None, s, notifyWrite ''SET'' k val ttl s env))"

definition Store_Get :: "'p EvictionPolicy \<Rightarrow> string \<Rightarrow> int64 \<Rightarrow> ('p, 'e) Store \<times> 'e \<Rightarrow>
    bytes option \<times> ('p, 'e) Store \<times> 'e" where
  "Store_Get P k now st =
     (let (s, env) = st in
      if closed s then (None, s, env)
      else let (r, s) = on_shard k (shard_get P k now) s in (r, s, env))"

definition Store_Delete :: "'p EvictionPolicy \<Rightarrow> string \<Rightarrow> ('p, 'e) Store \<times> 'e \<Rightarrow>
    bool \<times> ('p, 'e) Store \<times> 'e" where
  "Store_Delete P k st =
     (let (s, env) = st in
      if closed s then (False, s, env)
      else
        let (deleted, s) = on_shard k (shard_delete P k) s
        in (deleted, s, if deleted then notifyWrite ''DEL'' k None 0 s env else env))"

definition Store_Exists :: "'p EvictionPolicy \<Rightarrow> string \<Rightarrow> int64 \<Rightarrow> ('p, 'e) Store \<times> 'e \<Rightarrow>
    bool \<times> ('p, 'e) Store \<times> 'e" where
  "Store_Exists P k now st =
     (let (s, env) = st in
      if closed s then (False, s, env)
      else let (r, s) = on_shard k (shard_exists P k now) s in (r, s, env))"

definition Store_TTL :: "'p EvictionPolicy \<Rightarrow> string \<Rightarrow> int64 \<Rightarrow> ('p, 'e) Store \<times> 'e \<Rightarrow>
    (Duration \<times> bool) \<times> ('p, 'e) Store \<times> 'e" where
  "Store_TTL P k now st =
     (let (s, env) = st in
      if closed s then ((- 2, False), s, env)
      else let (r, s) = on_shard k (shard_ttl P k now) s in (r, s, env))"

definition Store_Expire :: "'p EvictionPolicy \<Rightarrow> string \<Rightarrow> Duration \<Rightarrow> int64 \<Rightarrow>
    ('p, 'e) Store \<times> 'e \<Rightarrow> bool \<times> ('p, 'e) Store \<times> 'e" where
  "Store_Expire P k ttl now st =
     (let (s, env) = st in
      if closed s then (False, s, env)
      else
        let (updated, s) = on_shard k (shard_expire P k ttl now) s
        in (updated, s, if updated then notifyWrite ''EXPIRE'' k None ttl s env else env))"

definition Store_Len :: "int64 \<Rightarrow> ('p, 'e) Store \<Rightarrow> int64" where
  "Store_Len now s =
     (if closed s then 0 else fold (\<lambda>shd total. total + shard_len now shd) (shards s) 0)"

text \<open>\<open>Snapshot\<close>: \<open>orders i\<close> is the order in which the loop over shard \<open>i\<close> visits its keys.\<close>

fun snapshot_items :: "int64 \<Rightarrow> (string, Entry) gomap \<Rightarrow> string list \<Rightarrow> SnapshotEntry list" where
  "snapshot_items now m [] = []"
| "snapshot_items now m (k # ks) =
     (case map_of m k of
        None \<Rightarrow> snapshot_items now m ks
      | Some item \<Rightarrow>
          if \<not> IsExpired item now
          then \<lparr>snap_Key = k, snap_Value = Value item, snap_TTL = RemainingTTL item now\<rparr>
                 # snapshot_items now m ks
          else snapshot_items now m ks)"

definition Snapshot :: "int64 \<Rightarrow> (nat \<Rightarrow> string list) \<Rightarrow> ('p, 'e) Store \<Rightarrow> SnapshotEntry list" where
  "Snapshot now orders s =
     (if closed s then []
      else concat (map (\<lambda>i. snapshot_items now (items (shards s ! i)) (orders i))
             [0..<length (shards s)]))"

definition Store_Close :: "('p, 'e) Store \<Rightarrow> ('p, 'e) Store" where
  "Store_Close s = (if closed s then s else s\<lparr>closed := True, ctx_done := True\<rparr>)"

definition Stats :: "int64 \<Rightarrow> ('p, 'e) Store \<Rightarrow> string" where
  "Stats now s =
     ''Shards: '' @ FormatInt (ShardCount (cfg s)) @ '', MaxKeysPerShard: '' @
     FormatInt (MaxKeysPerShard (cfg s)) @ '', Keys: '' @ FormatInt (Store_Len now s)"

subsection \<open>The active sweep\<close>

text \<open>
  \<open>clock n\<close> is what the \<open>n\<close>-th call of \<open>time.Now()\<close> reads: the wall clock in Unix
  nanoseconds and the monotonic clock that \<open>After\<close> compares. \<open>range_order n ks\<close> is the order
  in which the loop that starts at call \<open>n\<close> visits the keys \<open>ks\<close>. The functions return
  the number of clock readings taken so far with the new state.
\<close>

record sweep_env =
  clock :: "nat \<Rightarrow> int64 \<times> int"
  range_order :: "nat \<Rightarrow> string list \<Rightarrow> string list"

lemma activeSweep_progress:
  assumes "activeSweep P sz now ks s = ((e, n), s')" and "n \<noteq> 0" and "\<not> e * 100 div n < 25"
  shows "length (items s') < length (items s)"
proof -
  have "e \<noteq> 0" using assms(3) by (cases e) auto
  with activeSweep_counts(2) [OF assms(1)] show ?thesis by simp
qed

text \<open>
  The inner loop: sweep one shard again while a quarter of the sample had expired. The counters
  are natural numbers: they never exceed the number of entries in the shard, which the address
  space keeps far below the values at which the code's \<open>expired * 100\<close> would overflow. The loop
  is run here on a shard that no other goroutine changes between two rounds; the rounds of
  several goroutines are interleaved in \<open>Shard_Concurrency\<close>, one \<open>activeSweep\<close> at a time.
\<close>

function sweep_rounds :: "'p EvictionPolicy \<Rightarrow> goint \<Rightarrow> int \<Rightarrow> sweep_env \<Rightarrow> nat \<Rightarrow> 'p shard \<Rightarrow>
    nat \<times> 'p shard" where
  "sweep_rounds P sampleSize limit E n shd =
     (case activeSweep P sampleSize (fst (clock E n)) (range_order E n (keys_of (items shd))) shd of
        ((expired, sampled), shd') \<Rightarrow>
          if sampled = 0 \<or> expired * 100 div sampled < 25 then (Suc n, shd')
          else if limit < snd (clock E (Suc n)) then (n + 2, shd')
          else sweep_rounds P sampleSize limit E (n + 2) shd')"
  by pat_completeness auto
termination
  by (relation "measure (\<lambda>(P, sz, l, E, n, shd). length (items shd))")
    (auto dest: activeSweep_progress [OF sym])

declare sweep_rounds.simps [simp del]

text \<open>The outer loop over the shards, which stops at the deadline.\<close>

fun sweep_shards :: "'p EvictionPolicy \<Rightarrow> goint \<Rightarrow> int \<Rightarrow> sweep_env \<Rightarrow> nat \<Rightarrow> 'p shard list \<Rightarrow>
    nat \<times> 'p shard list" where
  "sweep_shards P sampleSize limit E n [] = (n, [])"
| "sweep_shards P sampleSize limit E n (shd # rest) =
     (if limit < snd (clock E n) then (Suc n, shd # rest)
      else
        let (n, shd) = sweep_rounds P sampleSize limit E (Suc n) shd;
            (n, rest) = sweep_shards P sampleSize limit E n rest
        in (n, shd # rest))"

definition runActiveSweepCycle :: "'p EvictionPolicy \<Rightarrow> sweep_env \<Rightarrow> nat \<Rightarrow> ('p, 'e) Store \<Rightarrow>
    nat \<times> ('p, 'e) Store" where
  "runActiveSweepCycle P E n s =
     (let limit = snd (clock E n) + sint (ActiveSweepMaxCPU (cfg s));
          (n, shds) = sweep_shards P (ActiveSweepSampleSize (cfg s)) limit E (Suc n) (shards s)
      in (n, s\<lparr>shards := shds\<rparr>))"

text \<open>
  \<open>activeExpireLoop\<close> over the sequence of channel events its \<open>select\<close> receives; an
  exhausted sequence is a loop still waiting.
\<close>

datatype sweeper_event = CtxDone | Tick

fun activeExpireLoop :: "'p EvictionPolicy \<Rightarrow> sweep_env \<Rightarrow> sweeper_event list \<Rightarrow> nat \<Rightarrow>
    ('p, 'e) Store \<Rightarrow> nat \<times> ('p, 'e) Store" where
  "activeExpireLoop P E [] n s = (n, s)"
| "activeExpireLoop P E (CtxDone # evs) n s = (n, s)"
| "activeExpireLoop P E (Tick # evs) n s =
     (let (n, s) = runActiveSweepCycle P E n s in activeExpireLoop P E evs n s)"

lemmas store_op_defs = Store_Set_def Store_Get_def Store_Delete_def Store_Exists_def
  Store_TTL_def Store_Expire_def

subsection \<open>Invariant and view\<close>

text \<open>
  Every shard satisfies its own invariant, the mask is the number of shards less one, and
  each key lies in the shard that \<open>getShard\<close> routes it to.
\<close>

definition store_inv :: "('p \<Rightarrow> bool) \<Rightarrow> ('p \<Rightarrow> string set) \<Rightarrow> ('p, 'e) Store \<Rightarrow> bool" where
  "store_inv pinv tracked s \<longleftrightarrow>
     length (shards s) = Suc (unat (shardMask s)) \<and>
     list_all (shard_inv pinv tracked) (shards s) \<and>
     list_all (\<lambda>i. list_all (\<lambda>k. getShard s k = i) (keys_of (items (shards s ! i))))
       [0..<length (shards s)]"

definition store_view :: "('p, 'e) Store \<Rightarrow> int64 \<Rightarrow> string \<Rightarrow> (bytes \<times> int64) option" where
  "store_view s t k = shard_view (shards s ! getShard s k) t k"

definition no_eviction :: "('p, 'e) Store \<Rightarrow> bool" where
  "no_eviction s \<longleftrightarrow> list_all (\<lambda>shd. eviction shd = None) (shards s)"

lemma store_invI:
  assumes "length (shards s) = Suc (unat (shardMask s))"
    and "\<And>i. i < length (shards s) \<Longrightarrow> shard_inv pinv tracked (shards s ! i)"
    and "\<And>i k. i < length (shards s) \<Longrightarrow> k \<in> dom (map_of (items (shards s ! i))) \<Longrightarrow> getShard s k = i"
  shows "store_inv pinv tracked s"
  unfolding store_inv_def list_all_iff set_keys_of all_set_conv_all_nth [of "shards s"]
  using assms by simp

lemma store_invD:
  assumes "store_inv pinv tracked s"
  shows "length (shards s) = Suc (unat (shardMask s))"
    and "i < length (shards s) \<Longrightarrow> shard_inv pinv tracked (shards s ! i)"
    and "i < length (shards s) \<Longrightarrow> k \<in> dom (map_of (items (shards s ! i))) \<Longrightarrow> getShard s k = i"
  using assms unfolding store_inv_def list_all_iff set_keys_of by simp_all

text \<open>The masked hash is always a valid index.\<close>

lemma getShard_less:
  assumes "store_inv pinv tracked s"
  shows "getShard s k < length (shards s)"
proof -
  have "unat (seed s k AND shardMask s) \<le> unat (shardMask s)"
    by (rule word_and_le1 [THEN word_le_nat_alt [THEN iffD1]])
  then show ?thesis using store_invD(1) [OF assms] by (simp add: getShard_def)
qed

lemma getShard_update [simp]: "getShard (s\<lparr>shards := x\<rparr>) = getShard s"
  by (simp add: getShard_def fun_eq_iff)

lemma on_shard_frame [simp]:
  "closed (snd (on_shard k f s)) = closed s"
  "cfg (snd (on_shard k f s)) = cfg s"
  "onWriteHooks (snd (on_shard k f s)) = onWriteHooks s"
  "getShard (snd (on_shard k f s)) = getShard s"
  "length (shards (snd (on_shard k f s))) = length (shards s)"
  by (simp_all add: on_shard_def Let_def split: prod.split)

lemma on_shard_result: "fst (on_shard k f s) = fst (f (shards s ! getShard s k))"
  by (simp add: on_shard_def Let_def split: prod.split)

lemma on_shard_shards:
  "shards (snd (on_shard k f s)) = (shards s)[getShard s k := snd (f (shards s ! getShard s k))]"
  by (simp add: on_shard_def Let_def split: prod.split)

lemma on_shard_inv:
  assumes "store_inv pinv tracked s"
    and "\<And>shd. shard_inv pinv tracked shd \<Longrightarrow> shard_inv pinv tracked (snd (f shd))"
    and "\<And>shd. dom (map_of (items (snd (f shd)))) \<subseteq> insert k (dom (map_of (items shd)))"
  shows "store_inv pinv tracked (snd (on_shard k f s))"
proof (rule store_invI)
  show "length (shards (snd (on_shard k f s))) = Suc (unat (shardMask (snd (on_shard k f s))))"
    using store_invD(1) [OF assms(1)] by (simp add: on_shard_def Let_def split: prod.split)
next
  fix i assume "i < length (shards (snd (on_shard k f s)))"
  then have i: "i < length (shards s)" by simp
  show "shard_inv pinv tracked (shards (snd (on_shard k f s)) ! i)"
    using store_invD(2) [OF assms(1)] i assms(2) getShard_less [OF assms(1)]
    by (cases "i = getShard s k") (simp_all add: on_shard_shards)
  show "getShard (snd (on_shard k f s)) k' = i"
    if "k' \<in> dom (map_of (items (shards (snd (on_shard k f s)) ! i)))" for k'
  proof (cases "i = getShard s k")
    case True
    with that i have "k' \<in> insert k (dom (map_of (items (shards s ! i))))"
      using assms(3) [of "shards s ! i"] by (auto simp: on_shard_shards)
    with True show ?thesis using store_invD(3) [OF assms(1) i] by auto
  next
    case False
    with that show ?thesis using store_invD(3) [OF assms(1) i] by (simp add: on_shard_shards)
  qed
qed

lemma on_shard_view:
  assumes "store_inv pinv tracked s"
  shows "store_view (snd (on_shard k f s)) t k' =
    (if getShard s k' = getShard s k then shard_view (snd (f (shards s ! getShard s k))) t k'
     else store_view s t k')"
  using getShard_less [OF assms] by (simp add: store_view_def on_shard_shards)

lemma on_shard_no_eviction:
  assumes "no_eviction s" and "\<And>shd. eviction shd = None \<Longrightarrow> eviction (snd (f shd)) = None"
    and "getShard s k < length (shards s)"
  shows "no_eviction (snd (on_shard k f s))"
  using assms by (auto simp: no_eviction_def list_all_length on_shard_shards nth_list_update)

subsection \<open>The store is an expiring map\<close>

definition open_store :: "('p \<Rightarrow> bool) \<Rightarrow> ('p \<Rightarrow> string set) \<Rightarrow> ('p, 'e) Store \<times> 'e \<Rightarrow> bool" where
  "open_store pinv tracked st \<longleftrightarrow> store_inv pinv tracked (fst st) \<and> \<not> closed (fst st)"

text \<open>An operation on an open store is the shard operation on the key's shard.\<close>

lemma store_ops_open:
  assumes "\<not> closed s"
  shows "Store_Set P k v d now (s, env) =
      (let s' = snd (on_shard k (\<lambda>shd. ((), shard_set P k v d now shd)) s)
       in (None, s', notifyWrite ''SET'' k v d s' env))"
    and "Store_Get P k now (s, env) =
      (fst (on_shard k (shard_get P k now) s), snd (on_shard k (shard_get P k now) s), env)"
    and "Store_Exists P k now (s, env) =
      (fst (on_shard k (shard_exists P k now) s), snd (on_shard k (shard_exists P k now) s), env)"
    and "Store_TTL P k now (s, env) =
      (fst (on_shard k (shard_ttl P k now) s), snd (on_shard k (shard_ttl P k now) s), env)"
    and "Store_Delete P k (s, env) =
      (let s' = snd (on_shard k (shard_delete P k) s); deleted = fst (on_shard k (shard_delete P k) s)
       in (deleted, s', if deleted then notifyWrite ''DEL'' k None 0 s' env else env))"
    and "Store_Expire P k d now (s, env) =
      (let s' = snd (on_shard k (shard_expire P k d now) s);
           updated = fst (on_shard k (shard_expire P k d now) s)
       in (updated, s', if updated then notifyWrite ''EXPIRE'' k None d s' env else env))"
  using assms by (simp_all add: store_op_defs Let_def split: prod.split)

text \<open>On a closed store every operation is an error or a miss and changes nothing.\<close>

lemma store_ops_closed:
  assumes "closed s"
  shows "Store_Set P k v d now (s, env) = (Some ErrStoreClosed, s, env)"
    and "Store_Get P k now (s, env) = (None, s, env)"
    and "Store_Delete P k (s, env) = (False, s, env)"
    and "Store_Exists P k now (s, env) = (False, s, env)"
    and "Store_TTL P k now (s, env) = ((- 2, False), s, env)"
    and "Store_Expire P k d now (s, env) = (False, s, env)"
    and "Store_Len now s = 0" and "Snapshot now orders s = []"
  using assms by (simp_all add: store_op_defs Store_Len_def Snapshot_def)

lemma fst_Let_pair [simp]: "fst (let x = a in (f x, g x)) = (let x = a in f x)"
  by (simp add: Let_def)

context eviction_policy
begin

abbreviation st_inv :: "('p, 'e) Store \<times> 'e \<Rightarrow> bool" where
  "st_inv \<equiv> open_store invar tracked"

lemma store_step_inv:
  assumes "store_inv invar tracked s"
  shows "store_inv invar tracked (snd (on_shard k (\<lambda>shd. ((), shard_set P k v d now shd)) s))"
    and "store_inv invar tracked (snd (on_shard k (shard_get P k now) s))"
    and "store_inv invar tracked (snd (on_shard k (shard_delete P k) s))"
    and "store_inv invar tracked (snd (on_shard k (shard_exists P k now) s))"
    and "store_inv invar tracked (snd (on_shard k (shard_ttl P k now) s))"
    and "store_inv invar tracked (snd (on_shard k (shard_expire P k d now) s))"
  by (rule on_shard_inv [OF assms]; simp add: shard_ops_dom subset_insertI2)+

lemma store_results:
  assumes "store_inv invar tracked s"
  shows "fst (on_shard k (shard_get P k now) s) = map_option fst (store_view s now k)"
    and "fst (on_shard k (shard_exists P k now) s) \<longleftrightarrow> store_view s now k \<noteq> None"
    and "fst (on_shard k (shard_ttl P k now) s) =
      (case store_view s now k of None \<Rightarrow> (- 2, False) | Some (v, d) \<Rightarrow> (remaining d now, True))"
    and "fst (on_shard k (shard_expire P k d now) s) \<longleftrightarrow> store_view s now k \<noteq> None"
    and "store_view s t k \<noteq> None \<Longrightarrow> fst (on_shard k (shard_delete P k) s)"
  unfolding on_shard_result store_view_def
  by (rule shard_results(1), rule shard_results(2), rule shard_results(3), rule shard_results(4),
      erule delete_result_view)

lemma store_views:
  assumes "store_inv invar tracked s"
  shows "store_view (snd (on_shard k (\<lambda>shd. ((), shard_set P k v d now shd)) s)) t k =
      live (elems v) (deadline d now) t"
    and "k' \<noteq> k \<Longrightarrow> store_view (snd (on_shard k (\<lambda>shd. ((), shard_set P k v d now shd)) s)) t k' =
        store_view s t k' \<or>
      store_view (snd (on_shard k (\<lambda>shd. ((), shard_set P k v d now shd)) s)) t k' = None"
    and "now \<le>s t \<Longrightarrow> store_view (snd (on_shard k (shard_get P k now) s)) t = store_view s t"
    and "now \<le>s t \<Longrightarrow> store_view (snd (on_shard k (shard_exists P k now) s)) t = store_view s t"
    and "now \<le>s t \<Longrightarrow> store_view (snd (on_shard k (shard_ttl P k now) s)) t = store_view s t"
    and "store_view (snd (on_shard k (shard_delete P k) s)) t = (store_view s t)(k := None)"
    and "now \<le>s t \<Longrightarrow> store_view (snd (on_shard k (shard_expire P k d now) s)) t =
      (case store_view s now k of None \<Rightarrow> store_view s t
       | Some (v, _) \<Rightarrow> (store_view s t)(k := live v (deadline d now) t))"
  using shard_view_set [OF store_invD(2) [OF assms getShard_less [OF assms]]]
  unfolding on_shard_view [OF assms] fun_eq_iff
  by (auto simp: shard_views shard_view_delete shard_view_expire store_view_def split: option.split)

end

lemma closed_frame [simp]:
  "closed (fst (snd (Store_Set P k v d now st))) = closed (fst st)"
  "closed (fst (snd (Store_Get P k now st))) = closed (fst st)"
  "closed (fst (snd (Store_Delete P k st))) = closed (fst st)"
  "closed (fst (snd (Store_Exists P k now st))) = closed (fst st)"
  "closed (fst (snd (Store_TTL P k now st))) = closed (fst st)"
  "closed (fst (snd (Store_Expire P k d now st))) = closed (fst st)"
  by (cases st; cases "closed (fst st)"; simp add: store_ops_closed store_ops_open Let_def)+

sublocale eviction_policy \<subseteq> store: expiring_map "open_store invar tracked" "\<lambda>st. store_view (fst st)"
  "\<lambda>k v d now st. snd (Store_Set P k v d now st)" "Store_Get P" "Store_Delete P" "Store_Exists P"
  "Store_TTL P" "Store_Expire P"
proof (unfold_locales, goal_cases)
  case (8 st k' k v d now t)
  then show ?case
    using store_views(2) [of "fst st" k' k] by (cases st) (auto simp: open_store_def store_ops_open Let_def)
next
  case (11 st t k)
  then show ?case
    using store_results(5) [of "fst st"] by (cases st) (auto simp: open_store_def store_ops_open Let_def)
next
  case (18 st now t k d)
  then show ?case
    using store_views(7) [of "fst st"] by (cases st) (auto simp: open_store_def store_ops_open Let_def)
qed (auto simp: open_store_def store_ops_open store_step_inv store_results store_views Let_def)

lemma no_eviction_frame:
  assumes "open_store pinv tracked st" and "no_eviction (fst st)"
  shows "no_eviction (fst (snd (Store_Set P k v d now st)))"
    and "no_eviction (fst (snd (Store_Get P k now st)))"
    and "no_eviction (fst (snd (Store_Delete P k st)))"
    and "no_eviction (fst (snd (Store_Exists P k now st)))"
    and "no_eviction (fst (snd (Store_TTL P k now st)))"
    and "no_eviction (fst (snd (Store_Expire P k d now st)))"
  using assms getShard_less [of pinv tracked "fst st"]
  by (cases st; simp add: open_store_def store_ops_open Let_def on_shard_no_eviction)+

text \<open>Without a policy in its shards, a store loses nothing.\<close>

definition open_lossless :: "('p \<Rightarrow> bool) \<Rightarrow> ('p \<Rightarrow> string set) \<Rightarrow> ('p, 'e) Store \<times> 'e \<Rightarrow> bool" where
  "open_lossless pinv tracked st \<longleftrightarrow> open_store pinv tracked st \<and> no_eviction (fst st)"

lemma store_view_set_keep:
  assumes "open_lossless pinv tracked st" and "k' \<noteq> k"
  shows "store_view (fst (snd (Store_Set P k v d now st))) t k' = store_view (fst st) t k'"
proof (cases st)
  case (Pair s env)
  have inv: "store_inv pinv tracked s" and op: "\<not> closed s" and ne: "no_eviction s"
    using assms(1) by (simp_all add: open_lossless_def open_store_def Pair)
  have "eviction (shards s ! getShard s k) = None"
    using ne getShard_less [OF inv] by (simp add: no_eviction_def list_all_length)
  from shard_view_set_keep [OF this assms(2)] show ?thesis
    by (simp add: Pair store_ops_open(1) [OF op] Let_def on_shard_view [OF inv])
      (simp add: store_view_def)
qed

sublocale eviction_policy \<subseteq> plain: lossless_map "open_lossless invar tracked" "\<lambda>st. store_view (fst st)"
  "\<lambda>k v d now st. snd (Store_Set P k v d now st)" "Store_Get P" "Store_Delete P" "Store_Exists P"
  "Store_TTL P" "Store_Expire P"
proof (unfold_locales, goal_cases)
  case (8 st k' k v d now t)
  then show ?case using store.view_set_other [of st k' k v d now t] by (simp add: open_lossless_def)
next
  case (11 st t k)
  then show ?case using store.delete_result [of st t k] by (simp add: open_lossless_def)
qed (simp_all add: open_lossless_def no_eviction_frame [of invar tracked]
    store.view_set store.get_result store.view_get
    store.view_delete store.exists_result store.view_exists store.ttl_result store.view_ttl
    store.expire_result store.view_expire
    store_view_set_keep [of invar tracked, unfolded open_lossless_def])

text \<open>The contents of a store, expired entries included, and how its operations change them.\<close>

definition store_contents :: "('p, 'e) Store \<Rightarrow> string \<Rightarrow> (bytes \<times> int64) option" where
  "store_contents s k = shard_contents (shards s ! getShard s k) k"

lemma store_view_contents: "store_view s t = live_at t (store_contents s)"
  by (simp add: store_view_def shard_view_contents live_at_def store_contents_def fun_eq_iff)

lemma on_shard_contents:
  assumes "store_inv pinv tracked s"
    and "shard_contents (snd (f (shards s ! getShard s k))) = (shard_contents (shards s ! getShard s k))(k := x)"
  shows "store_contents (snd (on_shard k f s)) = (store_contents s)(k := x)"
proof
  fix k'
  show "store_contents (snd (on_shard k f s)) k' = ((store_contents s)(k := x)) k'"
    using getShard_less [OF assms(1)] assms(2)
    by (cases "getShard s k' = getShard s k") (auto simp: store_contents_def on_shard_shards)
qed

lemma forget_upd: "forget now k m = m(k := if live_at now m k = None then None else m k)"
  by (auto simp: forget_def)

text \<open>One call, with the result that its caller sees.\<close>

fun store_call :: "'p EvictionPolicy \<Rightarrow> int64 \<Rightarrow> map_op \<Rightarrow> ('p, 'e) Store \<times> 'e \<Rightarrow>
    StoreErr op_result \<times> ('p, 'e) Store \<times> 'e" where
  "store_call P now (OpSet k v d) st = (case Store_Set P k v d now st of (e, st') \<Rightarrow> (Stored e, st'))"
| "store_call P now (OpGet k) st = (case Store_Get P k now st of (v, st') \<Rightarrow> (Value_of v, st'))"
| "store_call P now (OpDelete k) st = (case Store_Delete P k st of (b, st') \<Rightarrow> (Flag b, st'))"
| "store_call P now (OpExists k) st = (case Store_Exists P k now st of (b, st') \<Rightarrow> (Flag b, st'))"
| "store_call P now (OpTTL k) st = (case Store_TTL P k now st of ((d, b), st') \<Rightarrow> (Time_left d b, st'))"
| "store_call P now (OpExpire k d) st = (case Store_Expire P k d now st of (b, st') \<Rightarrow> (Flag b, st'))"

lemma store_call_refines:
  assumes "open_lossless pinv tracked st" and "store_call P now x st = (r, st')"
  shows "r = fst (ref_op now x (store_contents (fst st))) \<and>
    store_contents (fst st') = snd (ref_op now x (store_contents (fst st)) :: StoreErr op_result \<times> _)"
proof (cases st)
  case (Pair s env)
  have inv: "store_inv pinv tracked s" and op: "\<not> closed s" and ne: "no_eviction s"
    using assms(1) by (simp_all add: open_lossless_def open_store_def Pair)
  let ?shd = "\<lambda>k. shards s ! getShard s k"
  have e: "eviction (?shd k) = None" for k
    using ne getShard_less [OF inv] by (simp add: no_eviction_def list_all_length)
  have l: "live_at now (shard_contents (?shd k)) k = live_at now (store_contents s) k"
      "shard_contents (?shd k) k = store_contents s k" for k
    by (simp_all add: live_at_def store_contents_def)
  have v: "shard_view (?shd k) now k = live_at now (store_contents s) k" for k
    by (simp add: shard_view_contents l)
  have d: "fst (shard_delete P k (?shd k)) \<longleftrightarrow> store_contents s k \<noteq> None" for k
    by (simp add: shard_results l(2) [symmetric] shard_contents_def)
  have c: "store_contents (snd (on_shard k (\<lambda>shd. ((), shard_set P k w d now shd)) s)) =
        (store_contents s)(k \<mapsto> (elems w, deadline d now))"
      "store_contents (snd (on_shard k (shard_get P k now) s)) = forget now k (store_contents s)"
      "store_contents (snd (on_shard k (shard_exists P k now) s)) = forget now k (store_contents s)"
      "store_contents (snd (on_shard k (shard_ttl P k now) s)) = forget now k (store_contents s)"
      "store_contents (snd (on_shard k (shard_delete P k) s)) = (store_contents s)(k := None)"
      "store_contents (snd (on_shard k (shard_expire P k d now) s)) = (store_contents s)
        (k := case live_at now (store_contents s) k of None \<Rightarrow> None | Some (v, _) \<Rightarrow> Some (v, deadline d now))" for k w d
    unfolding forget_upd
    by (rule on_shard_contents [OF inv]; simp add: shard_set_contents [OF e] shard_read_contents
        shard_write_contents forget_upd l split: option.split)+
  show ?thesis
  proof (cases x)
    case (OpTTL k)
    with assms(2) op show ?thesis
      by (auto simp: Pair store_ops_open on_shard_result shard_results v c split: option.splits prod.splits)
  qed (use assms(2) op in \<open>auto simp: Pair store_ops_open Let_def on_shard_result shard_results(1-4) d v c split: option.split\<close>)
qed

subsection \<open>Construction, counting, snapshots and sweeps\<close>

text \<open>The guard of \<open>NewStore\<close> accepts exactly the positive powers of two.\<close>

lemma and_pred_power2: "0 < (n :: nat) \<Longrightarrow> n AND (n - 1) = 0 \<longleftrightarrow> (\<exists>m. n = 2 ^ m)"
proof (induction n rule: less_induct)
  case (less n)
  show ?case
  proof (cases "even n")
    case True
    then obtain h where h: "n = 2 * h" "0 < h" "h < n" using less.prems by (auto elim!: evenE)
    have "n - 1 = Suc (2 * (h - 1))" using h by simp
    moreover have "2 * h AND Suc (2 * (h - 1)) = 2 * (h AND (h - 1))"
      by (subst and_nat_rec) simp
    ultimately have "n AND (n - 1) = 2 * (h AND (h - 1))" using h(1) by simp
    then have "n AND (n - 1) = 0 \<longleftrightarrow> (\<exists>m. h = 2 ^ m)" using less.IH [OF h(3,2)] by simp
    also have "\<dots> \<longleftrightarrow> (\<exists>m. n = 2 ^ m)"
    proof
      assume "\<exists>m. n = 2 ^ m"
      then obtain m where m: "n = 2 ^ m" by blast
      with True obtain m' where "m = Suc m'" by (cases m) auto
      with m h(1) show "\<exists>m. h = 2 ^ m" by auto
    qed (auto simp: h(1) intro: exI [of _ "Suc _"])
    finally show ?thesis .
  next
    case False
    then obtain h where h: "n = Suc (2 * h)" by (auto elim!: oddE)
    have "n AND (n - 1) = 2 * h" unfolding h by (subst and_nat_rec) simp
    moreover have "(\<exists>m. n = 2 ^ m) \<longleftrightarrow> h = 0"
    proof
      assume "\<exists>m. n = 2 ^ m"
      then obtain m where "n = 2 ^ m" by blast
      with False have "m = 0" by (cases m) auto
      with \<open>n = 2 ^ m\<close> show "h = 0" by (simp add: h)
    qed (auto simp: h intro: exI [of _ 0])
    ultimately show ?thesis by simp
  qed
qed

lemma unat_positive:
  assumes "0 <s (w :: goint)"
  shows "unat w = nat (sint w)" "unat (w - 1) = nat (sint w) - 1" "0 < unat w"
proof -
  have pos: "0 < sint w" using assms by (simp add: signed_simps)
  have u: "sint w = uint w"
    using pos sint64_bounds(2) [of w] uint_sint [of w] by (simp add: take_bit_int_eq_self)
  then show "unat w = nat (sint w)" by (simp add: nat_uint_eq)
  with pos show "0 < unat w" by simp
  then have "w \<noteq> 0" by auto
  then show "unat (w - 1) = nat (sint w) - 1"
    using \<open>unat w = nat (sint w)\<close> by (simp add: unat_minus_one)
qed

lemma shard_count_guard:
  "(c :: goint) \<le>s 0 \<or> c AND (c - 1) \<noteq> 0 \<longleftrightarrow> \<not> (\<exists>m. sint c = 2 ^ m)"
proof (cases "c \<le>s 0")
  case True
  then have "sint c \<le> 0" by (simp add: signed_simps)
  then have "sint c \<noteq> 2 ^ m" for m by (metis not_le zero_less_numeral zero_less_power)
  with True show ?thesis by blast
next
  case False
  then have pos: "0 <s c" by (simp add: signed_simps)
  note u = unat_positive [OF pos]
  have "c AND (c - 1) = 0 \<longleftrightarrow> unat (c AND (c - 1)) = 0" by (simp add: unat_eq_0)
  also have "unat (c AND (c - 1)) = unat c AND (unat c - 1)"
    using u by (simp add: unsigned_and_eq)
  also have "\<dots> = 0 \<longleftrightarrow> (\<exists>m. unat c = 2 ^ m)" using and_pred_power2 [OF u(3)] .
  also have "\<dots> \<longleftrightarrow> (\<exists>m. sint c = 2 ^ m)"
    using u(1,3) by (metis nat_eq_iff2 nat_power_eq nat_numeral numeral_eq_iff of_nat_numeral
        of_nat_power order_less_irrefl zero_le_numeral)
  finally show ?thesis using False by blast
qed

lemma NewStore_cases:
  assumes "NewStore c hash = Inr s"
  shows "length (shards s) = nat (sint (ShardCount c))" "shardMask s = ShardCount c - 1"
    "shards s = replicate (length (shards s)) (newShard (MaxKeysPerShard c) (EvictionFactory c))"
    "\<not> closed s" "onWriteHooks s = []" "seed s = hash" "0 <s ShardCount c"
    "\<exists>m. sint (ShardCount c) = 2 ^ m"
  using assms shard_count_guard [of "ShardCount c"]
  by (auto simp: NewStore_def Let_def signed_simps split: if_splits)

definition factory_ok :: "('p \<Rightarrow> bool) \<Rightarrow> ('p \<Rightarrow> string set) \<Rightarrow> 'p Config \<Rightarrow> bool" where
  "factory_ok pinv tracked c \<longleftrightarrow>
     (case EvictionFactory c of None \<Rightarrow> True | Some p \<Rightarrow> pinv p \<and> tracked p = {})"

lemma newShard_inv:
  "factory_ok pinv tracked c \<Longrightarrow>
     shard_inv pinv tracked (newShard (MaxKeysPerShard c) (EvictionFactory c))"
  by (auto simp: factory_ok_def inv_defs newShard_def signed_simps split: option.split)

lemma NewStore_inv:
  assumes "NewStore c hash = Inr s" and "factory_ok pinv tracked c"
  shows "open_store pinv tracked (s, env)"
proof -
  note new = NewStore_cases [OF assms(1)]
  have nth: "shards s ! i = newShard (MaxKeysPerShard c) (EvictionFactory c)"
    if "i < length (shards s)" for i
    using that new(3) by (metis nth_replicate)
  have "length (shards s) = Suc (unat (shardMask s))"
    using unat_positive [OF new(7)] new(1,2) by simp
  then have "store_inv pinv tracked s"
    by (rule store_invI) (simp_all add: nth newShard_inv [OF assms(2)], simp add: newShard_def)
  then show ?thesis using new(4) by (simp add: open_store_def)
qed

lemma NewStore_contents:
  assumes "NewStore c hash = Inr s"
  shows "store_contents s = Map.empty"
proof
  fix k
  note new = NewStore_cases [OF assms]
  have "unat (seed s k AND shardMask s) \<le> unat (shardMask s)"
    by (rule word_and_le1 [THEN word_le_nat_alt [THEN iffD1]])
  then have "getShard s k < length (shards s)"
    using unat_positive [OF new(7)] new(1,2) by (simp add: getShard_def)
  then have "shards s ! getShard s k = newShard (MaxKeysPerShard c) (EvictionFactory c)"
    using new(3) by (metis nth_replicate)
  then show "store_contents s k = None"
    by (simp add: store_contents_def shard_contents_def newShard_def)
qed

lemma NewStore_view: "NewStore c hash = Inr s \<Longrightarrow> store_view s t = Map.empty"
  by (simp add: store_view_contents NewStore_contents live_at_def fun_eq_iff)

lemma NewStore_no_eviction:
  assumes "NewStore c hash = Inr s" and "EvictionFactory c = None"
  shows "no_eviction s"
  unfolding no_eviction_def
  by (subst NewStore_cases(3) [OF assms(1)]) (simp add: list_all_iff newShard_def assms(2))

text \<open>Keys of different shards are different, so the shards partition the live keys.\<close>

lemma store_view_shard:
  assumes "store_inv pinv tracked s" and "i < length (shards s)"
    and "shard_view (shards s ! i) t k \<noteq> None"
  shows "getShard s k = i" and "store_view s t k = shard_view (shards s ! i) t k"
proof -
  have "k \<in> dom (map_of (items (shards s ! i)))"
    using assms(3) by (auto simp: shard_view_def split: option.splits)
  then show "getShard s k = i" using store_invD(3) [OF assms(1,2)] by simp
  then show "store_view s t k = shard_view (shards s ! i) t k" by (simp add: store_view_def)
qed

lemma dom_store_view:
  assumes "store_inv pinv tracked s"
  shows "dom (store_view s t) = (\<Union>i \<in> {..<length (shards s)}. dom (shard_view (shards s ! i) t))"
proof (intro set_eqI iffI)
  fix k assume "k \<in> dom (store_view s t)"
  then show "k \<in> (\<Union>i \<in> {..<length (shards s)}. dom (shard_view (shards s ! i) t))"
    using getShard_less [OF assms, of k]
    by (intro UN_I [of "getShard s k"]) (auto simp: store_view_def)
next
  fix k assume "k \<in> (\<Union>i \<in> {..<length (shards s)}. dom (shard_view (shards s ! i) t))"
  then obtain i where i: "i < length (shards s)" "shard_view (shards s ! i) t k \<noteq> None" by auto
  then show "k \<in> dom (store_view s t)" using store_view_shard(2) [OF assms i] by auto
qed

lemma finite_shard_view: "finite (dom (shard_view s t))"
  by (rule finite_subset [OF _ finite_dom_map_of [of "items s"]])
    (auto simp: shard_view_def split: option.splits)

lemma card_store_view:
  assumes "store_inv pinv tracked s"
  shows "card (dom (store_view s t)) = (\<Sum>shd \<leftarrow> shards s. card (dom (shard_view shd t)))"
proof -
  have "card (dom (store_view s t)) = (\<Sum>i<length (shards s). card (dom (shard_view (shards s ! i) t)))"
    unfolding dom_store_view [OF assms]
  proof (rule card_UN_disjoint)
    show "\<forall>i\<in>{..<length (shards s)}. \<forall>j\<in>{..<length (shards s)}. i \<noteq> j \<longrightarrow>
        dom (shard_view (shards s ! i) t) \<inter> dom (shard_view (shards s ! j) t) = {}"
    proof (intro ballI impI)
      fix i j assume "i \<in> {..<length (shards s)}" "j \<in> {..<length (shards s)}" "i \<noteq> j"
      then show "dom (shard_view (shards s ! i) t) \<inter> dom (shard_view (shards s ! j) t) = {}"
        using store_view_shard(1) [OF assms, of i t] store_view_shard(1) [OF assms, of j t]
        by (fastforce simp: domIff)
    qed
  qed (simp_all add: finite_shard_view)
  then show ?thesis by (simp add: sum_list_sum_nth atLeast0LessThan)
qed

lemma fold_shard_len:
  assumes "list_all (\<lambda>shd. wf_map (items shd)) shds"
  shows "fold (\<lambda>shd total. total + shard_len now shd) shds c =
    c + word_of_nat (\<Sum>shd \<leftarrow> shds. card (dom (shard_view shd now)))"
  using assms by (induction shds arbitrary: c) (auto simp: shard_len_eq)

lemma Store_Len_eq:
  assumes "store_inv pinv tracked s" and "\<not> closed s"
  shows "Store_Len now s = word_of_nat (card (dom (store_view s now)))"
proof -
  have "list_all (\<lambda>shd. wf_map (items shd)) (shards s)"
    using assms(1) by (auto simp: store_inv_def list_all_iff shard_inv_def)
  then show ?thesis using assms(2) by (simp add: Store_Len_def fold_shard_len card_store_view [OF assms(1)])
qed

text \<open>A snapshot lists every live key once, with its value and its remaining time.\<close>

lemma snapshot_items_keys:
  "map snap_Key (snapshot_items now m ks) =
     filter (\<lambda>k. case map_of m k of None \<Rightarrow> False | Some e \<Rightarrow> \<not> IsExpired e now) ks"
  by (induction now m ks rule: snapshot_items.induct) (auto split: option.split)

lemma set_snapshot_items:
  "x \<in> set (snapshot_items now m ks) \<longleftrightarrow>
     (\<exists>e. snap_Key x \<in> set ks \<and> map_of m (snap_Key x) = Some e \<and> \<not> IsExpired e now \<and>
       x = \<lparr>snap_Key = snap_Key x, snap_Value = Value e, snap_TTL = RemainingTTL e now\<rparr>)"
  by (induction now m ks rule: snapshot_items.induct) (auto split: option.split)

definition orders_ok :: "(nat \<Rightarrow> string list) \<Rightarrow> ('p, 'e) Store \<Rightarrow> bool" where
  "orders_ok orders s \<longleftrightarrow>
     list_all (\<lambda>i. is_range (items (shards s ! i)) (orders i)) [0..<length (shards s)]"

lemma orders_okD: "orders_ok orders s \<Longrightarrow> i < length (shards s) \<Longrightarrow> is_range (items (shards s ! i)) (orders i)"
  by (simp add: orders_ok_def list_all_iff)

lemma snapshot_mem:
  assumes "store_inv pinv tracked s" and "\<not> closed s" and "orders_ok orders s"
  shows "\<lparr>snap_Key = k, snap_Value = v, snap_TTL = r\<rparr> \<in> set (Snapshot now orders s) \<longleftrightarrow>
    (\<exists>d. store_view s now k = Some (v, d) \<and> r = remaining d now)"
proof -
  have ord: "k \<in> set (orders i) \<longleftrightarrow> map_of (items (shards s ! i)) k \<noteq> None"
    if "i < length (shards s)" for i
    using orders_okD [OF assms(3) that] by (auto simp: is_range_def set_keys_of)
  have item: "\<lparr>snap_Key = k, snap_Value = v, snap_TTL = r\<rparr>
        \<in> set (snapshot_items now (items (shards s ! i)) (orders i)) \<longleftrightarrow>
      (\<exists>d. shard_view (shards s ! i) now k = Some (v, d) \<and> r = remaining d now)"
    if "i < length (shards s)" for i
    using ord [OF that]
    by (auto simp: set_snapshot_items shard_view_def live_def IsExpired_passed RemainingTTL_remaining
        split: option.split)
  have "\<lparr>snap_Key = k, snap_Value = v, snap_TTL = r\<rparr> \<in> set (Snapshot now orders s) \<longleftrightarrow>
    (\<exists>i<length (shards s). \<exists>d. shard_view (shards s ! i) now k = Some (v, d) \<and> r = remaining d now)"
    using assms(2) item by (auto simp: Snapshot_def)
  also have "\<dots> \<longleftrightarrow> (\<exists>d. store_view s now k = Some (v, d) \<and> r = remaining d now)"
    using store_view_shard(2) [OF assms(1), of _ now k] getShard_less [OF assms(1), of k]
    by (metis option.distinct(1) store_view_def)
  finally show ?thesis .
qed

lemma snapshot_keys_distinct:
  assumes "store_inv pinv tracked s" and "orders_ok orders s"
  shows "distinct (map snap_Key (Snapshot now orders s))"
proof -
  define f where "f = (\<lambda>i. map snap_Key (snapshot_items now (items (shards s ! i)) (orders i)))"
  have keys: "getShard s k = i" if "i < length (shards s)" "k \<in> set (f i)" for i k
    using that store_invD(3) [OF assms(1) that(1), of k]
    by (auto simp: f_def snapshot_items_keys split: option.splits)
  have "distinct (concat (map f [0..<n]))" if "n \<le> length (shards s)" for n
    using that
  proof (induction n)
    case (Suc n)
    have "distinct (f n)"
      using orders_okD [OF assms(2), of n] Suc.prems by (simp add: f_def snapshot_items_keys is_range_def)
    moreover have "set (f i) \<inter> set (f n) = {}" if "i < n" for i
      using keys [of i] keys [of n] that Suc.prems by fastforce
    ultimately show ?case using Suc by (fastforce simp: Suc_le_eq)
  qed simp
  from this [of "length (shards s)"] show ?thesis
    by (simp add: Snapshot_def map_concat comp_def f_def)
qed

text \<open>
  Sweeps keep the invariant and remove nothing that a later view could see. A relation
  that every \<open>activeSweep\<close> establishes between the shard before and after, and that is
  reflexive and transitive, holds for the whole cycle.
\<close>

lemma sweep_rounds_rel:
  assumes "\<And>n ks shd. R shd (snd (activeSweep P sz (fst (clock E n)) ks shd))"
    and "\<And>a b c. R a b \<Longrightarrow> R b c \<Longrightarrow> R a c"
  shows "R shd (snd (sweep_rounds P sz l E n shd))"
  using assms
proof (induction P sz l E n shd rule: sweep_rounds.induct)
  case (1 P sz l E n shd)
  obtain e m shd' where sw:
    "activeSweep P sz (fst (clock E n)) (range_order E n (keys_of (items shd))) shd = ((e, m), shd')"
    by (metis prod.exhaust)
  have R1: "R shd shd'" using "1.prems"(1) [of shd n "range_order E n (keys_of (items shd))"] sw by simp
  show ?case
  proof (cases "m = 0 \<or> e * 100 div m < 25 \<or> l < snd (clock E (Suc n))")
    case True
    with R1 sw show ?thesis by (subst sweep_rounds.simps) auto
  next
    case False
    then have "R shd' (snd (sweep_rounds P sz l E (n + 2) shd'))"
      using "1.IH" [OF sw [symmetric] refl] "1.prems" by simp
    with R1 False sw "1.prems"(2) show ?thesis by (subst sweep_rounds.simps) auto
  qed
qed

lemma sweep_shards_rel:
  assumes "\<And>n ks shd. R shd (snd (activeSweep P sz (fst (clock E n)) ks shd))"
    and "\<And>a b c. R a b \<Longrightarrow> R b c \<Longrightarrow> R a c" and "\<And>a. R a a"
  shows "list_all2 R shds (snd (sweep_shards P sz l E n shds))"
proof (induction shds arbitrary: n)
  case (Cons shd shds)
  have "R shd (snd (sweep_rounds P sz l E (Suc n) shd))"
    by (rule sweep_rounds_rel) (use assms in blast)+
  then show ?case
    using Cons assms(3) by (auto simp: Let_def list_all2_refl split: prod.split) (metis snd_conv)+
qed simp

definition clock_before :: "sweep_env \<Rightarrow> int64 \<Rightarrow> bool" where
  "clock_before E t \<longleftrightarrow> (\<forall>n. fst (clock E n) \<le>s t)"

lemma runActiveSweepCycle_frame [simp]:
  "closed (snd (runActiveSweepCycle P E n s)) = closed s"
  "cfg (snd (runActiveSweepCycle P E n s)) = cfg s"
  "shardMask (snd (runActiveSweepCycle P E n s)) = shardMask s"
  "getShard (snd (runActiveSweepCycle P E n s)) = getShard s"
  by (simp_all add: runActiveSweepCycle_def Let_def split: prod.split)

lemma runActiveSweepCycle_shards:
  assumes "\<And>sz n ks shd. R shd (snd (activeSweep P sz (fst (clock E n)) ks shd))"
    and "\<And>a b c. R a b \<Longrightarrow> R b c \<Longrightarrow> R a c" and "\<And>a. R a a"
  shows "list_all2 R (shards s) (shards (snd (runActiveSweepCycle P E n s)))"
proof -
  let ?sz = "ActiveSweepSampleSize (cfg s)"
    and ?l = "snd (clock E n) + sint (ActiveSweepMaxCPU (cfg s))"
  have "shards (snd (runActiveSweepCycle P E n s)) = snd (sweep_shards P ?sz ?l E (Suc n) (shards s))"
    by (simp add: runActiveSweepCycle_def Let_def split: prod.split)
  moreover have "list_all2 R (shards s) (snd (sweep_shards P ?sz ?l E (Suc n) (shards s)))"
    by (rule sweep_shards_rel) (use assms in blast)+
  ultimately show ?thesis by simp
qed

lemma runActiveSweepCycle_length [simp]:
  "length (shards (snd (runActiveSweepCycle P E n s))) = length (shards s)"
  using runActiveSweepCycle_shards [of "\<lambda>_ _. True" P E s n] by (simp add: list_all2_lengthD)

lemma runActiveSweepCycle_view:
  assumes "store_inv pinv tracked s" and "clock_before E t"
  shows "store_view (snd (runActiveSweepCycle P E n s)) t = store_view s t"
proof
  fix k
  have "list_all2 (\<lambda>a b. shard_view b t = shard_view a t) (shards s)
      (shards (snd (runActiveSweepCycle P E n s)))"
    by (rule runActiveSweepCycle_shards)
      (use assms(2) in \<open>simp_all add: clock_before_def activeSweep_view\<close>)
  then show "store_view (snd (runActiveSweepCycle P E n s)) t k = store_view s t k"
    using getShard_less [OF assms(1), of k] by (simp add: store_view_def list_all2_conv_all_nth)
qed

context eviction_policy
begin

lemma runActiveSweepCycle_inv:
  assumes "store_inv invar tracked s"
  shows "store_inv invar tracked (snd (runActiveSweepCycle P E n s))"
proof -
  let ?s' = "snd (runActiveSweepCycle P E n s)"
  have "list_all2 (\<lambda>a b. (s_inv a \<longrightarrow> s_inv b) \<and> dom (map_of (items b)) \<subseteq> dom (map_of (items a)))
      (shards s) (shards ?s')"
    by (rule runActiveSweepCycle_shards) (use activeSweep_inv activeSweep_dom in blast)+
  then have nth: "(s_inv (shards s ! i) \<longrightarrow> s_inv (shards ?s' ! i)) \<and>
      dom (map_of (items (shards ?s' ! i))) \<subseteq> dom (map_of (items (shards s ! i)))"
    if "i < length (shards s)" for i
    using that by (simp add: list_all2_conv_all_nth)
  show ?thesis
  proof (rule store_invI)
    show "length (shards ?s') = Suc (unat (shardMask ?s'))" using store_invD(1) [OF assms] by simp
    show "s_inv (shards ?s' ! i)" if "i < length (shards ?s')" for i
      using that nth [of i] store_invD(2) [OF assms, of i] by simp
    show "getShard ?s' k = i"
      if "i < length (shards ?s')" "k \<in> dom (map_of (items (shards ?s' ! i)))" for i k
      using that nth [of i] store_invD(3) [OF assms, of i k] by auto
  qed
qed

lemma activeExpireLoop_inv:
  "store_inv invar tracked s \<Longrightarrow> store_inv invar tracked (snd (activeExpireLoop P E evs n s))"
proof (induction evs arbitrary: n s)
  case (Cons ev evs)
  then show ?case
    using runActiveSweepCycle_inv [of s E n] by (cases ev) (auto simp: Let_def split: prod.split)
qed simp

lemma activeExpireLoop_sound:
  assumes "store_inv invar tracked s" and "clock_before E t"
  shows "store_view (snd (activeExpireLoop P E evs n s)) t = store_view s t"
  using assms(1)
proof (induction evs arbitrary: n s)
  case (Cons ev evs)
  then show ?case
    using runActiveSweepCycle_inv [of s E n] runActiveSweepCycle_view [OF Cons.prems assms(2), of P n]
    by (cases ev) (auto simp: Let_def split: prod.split)
qed simp

end

text \<open>Registering a listener changes nothing but the list of listeners.\<close>

lemma OnWrite_frame [simp]:
  "store_inv pinv tracked (OnWrite hook s) = store_inv pinv tracked s"
  "store_view (OnWrite hook s) = store_view s" "no_eviction (OnWrite hook s) = no_eviction s"
  "closed (OnWrite hook s) = closed s" "onWriteHooks (OnWrite hook s) = onWriteHooks s @ [hook]"
  by (simp_all add: store_inv_def getShard_def OnWrite_def store_view_def no_eviction_def fun_eq_iff)

end
