(* ===== verification/Resp_Value.thy ===== *)
theory Resp_Value
  imports Vortex_Prelude
begin

text \<open>
  \<open>internal/resp/value.go\<close>: RESP frames. \<open>Value\<close> has the fields of the Go struct in their
  order; the zero value of a field that a constructor function does not set is written out.
\<close>

definition TypeSimpleString :: byte where "TypeSimpleString = CHR ''+''"
definition TypeError :: byte where "TypeError = CHR ''-''"
definition TypeInteger :: byte where "TypeInteger = CHR '':''"
definition TypeBulkString :: byte where "TypeBulkString = CHR ''$''"
definition TypeArray :: byte where "TypeArray = CHR ''*''"

lemmas Type_defs = TypeSimpleString_def TypeError_def TypeInteger_def TypeBulkString_def TypeArray_def

datatype Value =
  MkValue (Type: byte) (Str: string) (Num: int64) (Bulk: "byte slice") (Array: "Value slice") (IsNil: bool)

definition NewSimpleString :: "string \<Rightarrow> Value" where
  "NewSimpleString s = MkValue TypeSimpleString s 0 None None False"

definition NewError :: "string \<Rightarrow> Value" where
  "NewError e = MkValue TypeError e 0 None None False"

definition NewInteger :: "int64 \<Rightarrow> Value" where
  "NewInteger n = MkValue TypeInteger [] n None None False"

definition NewBulkString :: "byte slice \<Rightarrow> Value" where
  "NewBulkString b =
     (case b of
        None \<Rightarrow> MkValue TypeBulkString [] 0 None None True
      | Some bs \<Rightarrow> MkValue TypeBulkString [] 0 (Some bs) None False)"

definition NewBulkStringBytes :: "byte slice \<Rightarrow> Value" where
  "NewBulkStringBytes b =
     (case b of
        None \<Rightarrow> MkValue TypeBulkString [] 0 None None True
      | Some bs \<Rightarrow> MkValue TypeBulkString [] 0 (Some bs) None False)"

definition NewBulkStringFromString :: "string \<Rightarrow> Value" where
  "NewBulkStringFromString s = MkValue TypeBulkString [] 0 (Some s) None False"

definition NewNullBulkString :: Value where
  "NewNullBulkString = MkValue TypeBulkString [] 0 None None True"

definition NewArray :: "Value slice \<Rightarrow> Value" where
  "NewArray values =
     (case values of
        None \<Rightarrow> MkValue TypeArray [] 0 None None True
      | Some vs \<Rightarrow> MkValue TypeArray [] 0 None (Some vs) False)"

lemmas New_defs = NewSimpleString_def NewError_def NewInteger_def NewBulkString_def
  NewBulkStringBytes_def NewBulkStringFromString_def NewNullBulkString_def NewArray_def

lemma New_Type [simp]:
  "Type (NewSimpleString s) = TypeSimpleString" "Type (NewError s) = TypeError"
  "Type (NewInteger n) = TypeInteger" "Type (NewBulkStringFromString s) = TypeBulkString"
  "Type NewNullBulkString = TypeBulkString" "Type (NewArray vs) = TypeArray"
  "Type (NewBulkString b) = TypeBulkString"
  by (simp_all add: New_defs split: option.split)

lemma New_fields [simp]:
  "Bulk (NewBulkStringFromString s) = Some s" "Bulk (NewBulkString b) = b"
  "Array (NewArray vs) = vs" "Num (NewInteger n) = n" "Str (NewSimpleString s) = s"
  "Str (NewError s) = s" "Bulk (NewSimpleString s) = None" "Bulk (NewError s) = None"
  "Str (NewBulkString b) = []"
  by (simp_all add: New_defs split: option.split)

lemma Types_distinct [simp]:
  "TypeSimpleString \<noteq> TypeError" "TypeSimpleString \<noteq> TypeInteger"
  "TypeSimpleString \<noteq> TypeBulkString" "TypeSimpleString \<noteq> TypeArray"
  "TypeError \<noteq> TypeSimpleString" "TypeError \<noteq> TypeInteger"
  "TypeError \<noteq> TypeBulkString" "TypeError \<noteq> TypeArray"
  "TypeInteger \<noteq> TypeSimpleString" "TypeInteger \<noteq> TypeError"
  "TypeInteger \<noteq> TypeBulkString" "TypeInteger \<noteq> TypeArray"
  "TypeBulkString \<noteq> TypeSimpleString" "TypeBulkString \<noteq> TypeError"
  "TypeBulkString \<noteq> TypeInteger" "TypeBulkString \<noteq> TypeArray"
  "TypeArray \<noteq> TypeSimpleString" "TypeArray \<noteq> TypeError"
  "TypeArray \<noteq> TypeInteger" "TypeArray \<noteq> TypeBulkString"
  by (simp_all add: Type_defs)

end
