(* ===== verification/Go_Time.thy ===== *)
theory Go_Time
  imports Vortex_Prelude "HOL-Library.Signed_Division"
begin

text \<open>
  The parts of Go's \<open>time.Duration\<close> that the program uses: the unit constants,
  \<open>Milliseconds\<close>, and the conversion \<open>int64(d.Seconds())\<close>, which goes through float64.
  The float64 operations are modelled exactly on their magnitudes, as a natural
  mantissa over a power of two rounded to nearest, ties to even. The result is the
  truncated number of seconds for durations below \<open>2^23\<close> seconds (97 days), and at most
  one second above it beyond.
\<close>

definition Second :: Duration where "Second = 1000000000"
definition Millisecond :: Duration where "Millisecond = 1000000"

text \<open>\<open>d.Milliseconds()\<close>: \<open>int64(d) / 1e6\<close>, truncating.\<close>

definition Milliseconds :: "Duration \<Rightarrow> int64" where
  "Milliseconds d = word_of_int (sint d sdiv 1000000)"

subsection \<open>float64 rounding of a quotient of naturals\<close>

fun ilog2 :: "nat \<Rightarrow> nat" where
  "ilog2 n = (if n \<le> 1 then 0 else Suc (ilog2 (n div 2)))"

function scale_up :: "nat \<Rightarrow> nat \<Rightarrow> nat" where
  "scale_up a b = (if a = 0 \<or> b \<le> a then 0 else Suc (scale_up (2 * a) b))"
  by pat_completeness auto
termination by (relation "measure (\<lambda>(a, b). b - a)") auto

declare ilog2.simps [simp del] scale_up.simps [simp del]

text \<open>
  The number of binary places a float64 near \<open>a / b\<close> has (52 below its leading bit), for
  \<open>a / b < 2^53\<close>; the rounding of \<open>a / b\<close> to that many places.
\<close>

definition float_places :: "nat \<Rightarrow> nat \<Rightarrow> nat" where
  "float_places a b = (if b \<le> a then 52 - ilog2 (a div b) else 52 + scale_up a b)"

definition round_half_even :: "nat \<Rightarrow> nat \<Rightarrow> nat" where
  "round_half_even a b =
     (let q = a div b; r = a mod b
      in if 2 * r < b then q else if b < 2 * r then Suc q else if even q then q else Suc q)"

definition float_round :: "nat \<Rightarrow> nat \<Rightarrow> nat \<times> nat" where
  "float_round a b = (let k = float_places a b in (round_half_even (a * 2 ^ k) b, k))"

text \<open>The quotient also above \<open>2^53\<close>, where the last place is worth more than one.\<close>

definition float_quotient :: "nat \<Rightarrow> nat \<Rightarrow> nat \<times> nat" where
  "float_quotient a b =
     (if a div b < 2 ^ 53 then float_round a b
      else let e = ilog2 (a div b) - 52 in (round_half_even a (b * 2 ^ e) * 2 ^ e, 0))"

text \<open>
  \<open>int64(d.Seconds())\<close> where \<open>Seconds\<close> is \<open>float64(d / Second) + float64(d % Second) / 1e9\<close>.
  Both parts have the sign of \<open>d\<close> and rounding is symmetric, so the magnitudes are
  rounded and the sign is put back. The two conversions to float64 are exact.
\<close>

definition seconds_mag :: "nat \<Rightarrow> nat" where
  "seconds_mag n =
     (let (m1, k1) = float_round (n mod 1000000000) 1000000000;
          (m2, k2) = float_round (n div 1000000000 * 2 ^ k1 + m1) (2 ^ k1)
      in m2 div 2 ^ k2)"

definition Seconds_int64 :: "Duration \<Rightarrow> int64" where
  "Seconds_int64 d = word_of_int (sgn (sint d) * int (seconds_mag (nat \<bar>sint d\<bar>)))"

subsection \<open>Milliseconds as a float64\<close>

text \<open>A finite float64, as a numerator over a power of two.\<close>

type_synonym float64 = "int \<times> nat"

text \<open>\<open>time.Since\<close> and \<open>Sub\<close>: the difference of two instants, saturating at the ends of \<open>Duration\<close>.\<close>

definition Since :: "int64 \<Rightarrow> int64 \<Rightarrow> Duration" where
  "Since now t = word_of_int (max (- (2 ^ 63)) (min (2 ^ 63 - 1) (sint now - sint t)))"

definition Microseconds :: "Duration \<Rightarrow> int64" where
  "Microseconds d = word_of_int (sint d sdiv 1000)"

text \<open>
  \<open>float64(us) / 1000.0\<close> for a number of microseconds of a duration, which is below \<open>2^54\<close>:
  the conversion is exact below \<open>2^53\<close> and rounds to an even number above.
\<close>

definition millis_float :: "int64 \<Rightarrow> float64" where
  "millis_float us =
     (let n = nat \<bar>sint us\<bar>;
          f = (if n < 2 ^ 53 then n else 2 * round_half_even n 2);
          (m, k) = float_round f 1000
      in (sgn (sint us) * int m, k))"

subsection \<open>Accuracy\<close>

lemma ilog2_less: "n < 2 ^ m \<Longrightarrow> 0 < m \<Longrightarrow> ilog2 n < m"
proof (induction n arbitrary: m rule: ilog2.induct)
  case (1 n)
  show ?case
  proof (cases "n \<le> 1")
    case True
    with "1.prems" show ?thesis by (subst ilog2.simps) simp
  next
    case False
    then obtain m' where m: "m = Suc m'" "0 < m'" using "1.prems"
      by (cases m; cases "m - 1") auto
    with "1.prems" have "n div 2 < 2 ^ m'" by simp
    with 1 False m have "ilog2 (n div 2) < m'" by simp
    with False m show ?thesis by (subst ilog2.simps) simp
  qed
qed

lemma float_places_ge:
  assumes "a < 2 ^ m * b" and "0 < m" and "m \<le> 53"
  shows "53 - m \<le> float_places a b"
proof (cases "b \<le> a")
  case True
  have "a div b < 2 ^ m" using assms(1) by (simp add: less_mult_imp_div_less mult.commute)
  then have "ilog2 (a div b) < m" using assms(2) by (rule ilog2_less)
  with True assms(3) show ?thesis by (simp add: float_places_def)
next
  case False
  with assms(2) show ?thesis by (simp add: float_places_def)
qed

lemma round_half_even_le: "0 < b \<Longrightarrow> a \<le> y * b \<Longrightarrow> round_half_even a b \<le> y"
proof -
  assume b: "0 < b" and le: "a \<le> y * b"
  show ?thesis
  proof (cases "a mod b = 0")
    case True
    with b le have "a div b \<le> y" by (auto elim!: dvdE simp: mod_eq_0_iff_dvd)
    with True b show ?thesis by (simp add: round_half_even_def)
  next
    case False
    have "a \<noteq> y * b" using False by auto
    with le have "a < y * b" by simp
    then have "a div b < y" by (simp add: less_mult_imp_div_less)
    then show ?thesis by (simp add: round_half_even_def Let_def)
  qed
qed

lemma round_half_even_ge: "0 < b \<Longrightarrow> y * b \<le> a \<Longrightarrow> y \<le> round_half_even a b"
proof -
  assume "0 < b" "y * b \<le> a"
  then have "y \<le> a div b" by (simp add: less_eq_div_iff_mult_less_eq)
  then show ?thesis by (simp add: round_half_even_def Let_def)
qed

text \<open>Rounding keeps any bound that has no more binary places than the result.\<close>

lemma float_round_le:
  assumes "float_round a b = (m, k)" and "0 < b" and "j \<le> k" and "a * 2 ^ j \<le> y * b"
  shows "m \<le> y * 2 ^ (k - j)"
proof -
  have "a * 2 ^ k = a * 2 ^ j * 2 ^ (k - j)"
    using assms(3) by (simp add: mult.assoc flip: power_add)
  also have "\<dots> \<le> y * 2 ^ (k - j) * b" using assms(4) by (simp add: mult.commute mult.left_commute)
  finally show ?thesis
    using assms(1,2) by (auto simp: float_round_def Let_def intro: round_half_even_le)
qed

lemma float_round_ge:
  assumes "float_round a b = (m, k)" and "0 < b" and "y * b \<le> a"
  shows "y * 2 ^ k \<le> m"
proof -
  have "y * 2 ^ k * b \<le> a * 2 ^ k" using assms(3) by simp
  then show ?thesis
    using assms(1,2) by (auto simp: float_round_def Let_def intro: round_half_even_ge)
qed

lemma float_round_places: "float_round a b = (m, k) \<Longrightarrow> k = float_places a b"
  by (auto simp: float_round_def Let_def)

theorem seconds_mag_bounds:
  "n div 1000000000 \<le> seconds_mag n \<and> seconds_mag n \<le> n div 1000000000 + 1"
proof -
  let ?s = "n div 1000000000" and ?r = "n mod (1000000000 :: nat)"
  obtain m1 k1 where 1: "float_round ?r 1000000000 = (m1, k1)" by fastforce
  obtain m2 k2 where 2: "float_round (?s * 2 ^ k1 + m1) (2 ^ k1) = (m2, k2)" by fastforce
  have "m1 \<le> 2 ^ k1" using float_round_le [OF 1, of 0 1] by simp
  then have "?s * 2 ^ k1 + m1 \<le> (?s + 1) * 2 ^ k1" by simp
  then have "m2 \<le> (?s + 1) * 2 ^ k2" using float_round_le [OF 2, of 0 "?s + 1"] by simp
  moreover have "?s * 2 ^ k2 \<le> m2" using float_round_ge [OF 2, of ?s] by simp
  moreover have "seconds_mag n = m2 div 2 ^ k2" by (simp add: seconds_mag_def 1 2)
  ultimately show ?thesis
    by (metis div_le_mono nonzero_mult_div_cancel_right power_not_zero zero_neq_numeral)
qed

theorem seconds_mag_exact:
  assumes "n < 2 ^ 23 * 1000000000"
  shows "seconds_mag n = n div 1000000000"
proof -
  let ?s = "n div 1000000000" and ?r = "n mod (1000000000 :: nat)"
  obtain m1 k1 where 1: "float_round ?r 1000000000 = (m1, k1)" by fastforce
  obtain m2 k2 where 2: "float_round (?s * 2 ^ k1 + m1) (2 ^ k1) = (m2, k2)" by fastforce
  have "?r < 1000000000" by simp
  then have r: "?r * 2 ^ 30 \<le> (2 ^ 30 - 1) * 1000000000" and r2: "?r < 2 ^ 1 * 1000000000"
    by simp_all
  have k1: "30 \<le> k1" using float_places_ge [OF r2] float_round_places [OF 1] by simp
  have m1: "m1 \<le> (2 ^ 30 - 1) * 2 ^ (k1 - 30)" using float_round_le [OF 1 _ k1 r] by simp
  have split: "(2 :: nat) ^ k1 = 2 ^ 30 * 2 ^ (k1 - 30)" using k1 power_add [of "2 :: nat" 30 "k1 - 30"] by simp
  have lt: "m1 < 2 ^ k1"
    using m1 by (rule le_less_trans) (simp add: split)
  have s: "?s < 2 ^ 23" using assms by (simp add: less_mult_imp_div_less)
  have "?s * 2 ^ k1 + m1 < (?s + 1) * 2 ^ k1" using lt by simp
  also have "\<dots> \<le> 2 ^ 23 * 2 ^ k1" using s by (intro mult_le_mono1) simp
  finally have k2: "30 \<le> k2"
    using float_places_ge [of _ 23 "2 ^ k1"] float_round_places [OF 2] by fastforce
  have "(?s * 2 ^ k1 + m1) * 2 ^ 30 \<le> ((?s + 1) * 2 ^ 30 - 1) * 2 ^ k1"
  proof -
    have "m1 * 2 ^ 30 \<le> (2 ^ 30 - 1) * 2 ^ k1"
      using mult_le_mono1 [OF m1, of "2 ^ 30"] by (simp add: split mult.commute mult.left_commute)
    then show ?thesis by (simp add: algebra_simps)
  qed
  then have "m2 \<le> ((?s + 1) * 2 ^ 30 - 1) * 2 ^ (k2 - 30)"
    using float_round_le [OF 2 _ k2] by simp
  also have "\<dots> < (?s + 1) * 2 ^ 30 * 2 ^ (k2 - 30)" by simp
  also have "\<dots> = (?s + 1) * 2 ^ k2" using k2 by (simp only: mult.assoc flip: power_add) simp
  finally have "m2 div 2 ^ k2 < ?s + 1" by (rule less_mult_imp_div_less)
  moreover have "seconds_mag n = m2 div 2 ^ k2" by (simp add: seconds_mag_def 1 2)
  ultimately show ?thesis using seconds_mag_bounds [of n] by simp
qed

lemma Seconds_int64_exact:
  assumes "\<bar>sint d\<bar> < 2 ^ 23 * 1000000000"
  shows "sint (Seconds_int64 d) = sint d sdiv 1000000000"
proof -
  have mag: "seconds_mag (nat \<bar>sint d\<bar>) = nat \<bar>sint d\<bar> div 1000000000"
    using assms by (intro seconds_mag_exact) (simp add: nat_less_iff)
  have eq: "sgn (sint d) * int (seconds_mag (nat \<bar>sint d\<bar>)) = sint d sdiv 1000000000"
    by (simp add: mag signed_divide_int_def zdiv_int)
  have "\<bar>sint d\<bar> div 1000000000 \<le> \<bar>sint d\<bar>" by linarith
  then have "\<bar>sint d sdiv 1000000000\<bar> < 2 ^ 63"
    using assms by (simp add: signed_divide_int_def abs_mult)
  then show ?thesis by (simp add: Seconds_int64_def eq sint64_of_int)
qed

end
