(* ===== verification/Replication_Stream.thy ===== *)
theory Replication_Stream
  imports Cache_Store Resp_Value Go_Time
begin

text \<open>
  The commands of the replication stream. The master turns a write notification into a
  command (\<open>handleStoreWrite\<close> in \<open>internal/replication/master.go\<close>, and the same code for
  the entries of a snapshot in \<open>RegisterReplica\<close>); the replica applies a command to its
  own store (\<open>applyMasterCommand\<close> in \<open>internal/replication/replica.go\<close>). The lemmas say
  which store operation a forwarded notification amounts to on the replica: times to live
  are cut to milliseconds for \<open>SET\<close> and to seconds for \<open>EXPIRE\<close>.

  \<open>up\<close> is the part of \<open>strings.ToUpper\<close> that concerns strings outside ASCII.
\<close>

subsection \<open>Master side\<close>

definition px_args :: "Duration \<Rightarrow> Value list" where
  "px_args ttl =
     (if 0 <s ttl then
        let ms = Milliseconds ttl
        in if 0 <s ms
           then [NewBulkStringFromString ''PX'', NewBulkStringFromString (FormatInt ms)]
           else []
      else [])"

definition snapshot_args :: "SnapshotEntry \<Rightarrow> Value list" where
  "snapshot_args entry =
     [NewBulkStringFromString ''SET'', NewBulkStringFromString (snap_Key entry),
      NewBulkString (Some (snap_Value entry))] @ px_args (snap_TTL entry)"

text \<open>The switch of \<open>handleStoreWrite\<close>; \<open>None\<close> is its default case.\<close>

definition mutation_args :: "string \<Rightarrow> string \<Rightarrow> byte slice \<Rightarrow> Duration \<Rightarrow> Value list option" where
  "mutation_args cmdName key val ttl =
     (if cmdName = ''SET'' then
        Some ([NewBulkStringFromString ''SET'', NewBulkStringFromString key, NewBulkString val] @ px_args ttl)
      else if cmdName = ''DEL'' then
        Some [NewBulkStringFromString ''DEL'', NewBulkStringFromString key]
      else if cmdName = ''EXPIRE'' then
        Some [NewBulkStringFromString ''EXPIRE'', NewBulkStringFromString key,
              NewBulkStringFromString (FormatInt (Seconds_int64 ttl))]
      else None)"

subsection \<open>Replica side\<close>

definition extractString :: "Value \<Rightarrow> string" where
  "extractString v = (if Type v = TypeBulkString then elems (Bulk v) else Str v)"

text \<open>
  The option loop: every argument is looked at as a flag, also the one that was just used
  as a number, and a flag without a usable number is skipped.
\<close>

fun apply_ttl :: "(string \<Rightarrow> string) \<Rightarrow> Value list \<Rightarrow> Duration \<Rightarrow> Duration" where
  "apply_ttl up [] ttl = ttl"
| "apply_ttl up (arg # rest) ttl =
     (let flag = ToUpper up (extractString arg);
          ttl = (if (flag = ''EX'' \<or> flag = ''PX'') \<and> rest \<noteq> [] then
                   (case ParseInt (extractString (hd rest)) of
                      (num, None) \<Rightarrow>
                        if 0 <s num then (if flag = ''EX'' then num * Second else num * Millisecond)
                        else ttl
                    | (num, Some _) \<Rightarrow> ttl)
                 else ttl)
      in apply_ttl up rest ttl)"

definition applyMasterCommand :: "(string \<Rightarrow> string) \<Rightarrow> 'p EvictionPolicy \<Rightarrow> int64 \<Rightarrow> Value \<Rightarrow>
    ('p, 'e) Store \<times> 'e \<Rightarrow> ('p, 'e) Store \<times> 'e" where
  "applyMasterCommand up P now cmdVal st =
     (if Type cmdVal \<noteq> TypeArray \<or> elems (Array cmdVal) = [] then st
      else
        let cmdName = ToUpper up (extractString (hd (elems (Array cmdVal))));
            args = tl (elems (Array cmdVal))
        in if cmdName = ''SET'' then
             (case args of
                arg0 # arg1 # opts \<Rightarrow>
                  let key = extractString arg0;
                      val = (case Bulk arg1 of None \<Rightarrow> Some (Str arg1) | Some b \<Rightarrow> Some b);
                      ttl = apply_ttl up opts 0
                  in snd (Store_Set P key val ttl now st)
              | _ \<Rightarrow> st)
           else if cmdName = ''DEL'' then
             fold (\<lambda>arg st. snd (Store_Delete P (extractString arg) st)) args st
           else if cmdName = ''EXPIRE'' then
             (case args of
                [arg0, arg1] \<Rightarrow>
                  (case ParseInt (extractString arg1) of
                     (sec, None) \<Rightarrow> snd (Store_Expire P (extractString arg0) (sec * Second) now st)
                   | (sec, Some _) \<Rightarrow> st)
              | _ \<Rightarrow> st)
           else st)"

subsection \<open>What a forwarded command does\<close>

lemma extractString_New [simp]:
  "extractString (NewBulkStringFromString s) = s"
  "extractString (NewBulkString b) = elems b"
  by (simp_all add: extractString_def)

lemma ToUpper_names [simp]:
  "ToUpper up ''SET'' = ''SET''" "ToUpper up ''DEL'' = ''DEL''" "ToUpper up ''EXPIRE'' = ''EXPIRE''"
  "ToUpper up ''PX'' = ''PX''" "ToUpper up ''EX'' = ''EX''"
  by (simp_all add: ToUpper_def is_ascii_def upper_ascii_def)

lemma number_char:
  assumes "is_digit c \<or> c = CHR ''-''"
  shows "is_ascii c" "upper_ascii c = c"
  using assms by (auto simp: is_digit_def is_ascii_def upper_ascii_def)

lemma ToUpper_FormatInt [simp]: "ToUpper up (FormatInt n) = FormatInt n"
  using number_char [OF FormatInt_chars [of _ n]]
  by (simp add: ToUpper_def list_all_iff map_idI)

lemma FormatInt_no_flag [simp]: "FormatInt n \<noteq> ''EX''" "FormatInt n \<noteq> ''PX''"
  using FormatInt_chars [of "CHR ''X''" n] by (auto simp: is_digit_def)

definition trunc_ms :: "Duration \<Rightarrow> Duration" where
  "trunc_ms ttl = (if 0 <s ttl then Milliseconds ttl * Millisecond else 0)"

lemma sint_Milliseconds: "0 < sint ttl \<Longrightarrow> sint (Milliseconds ttl) = sint ttl div 1000000"
proof -
  assume "0 < sint ttl"
  moreover from this have "0 \<le> sint ttl div 1000000" "sint ttl div 1000000 \<le> sint ttl"
    by linarith+
  ultimately show ?thesis
    using sint64_bounds(2) [of ttl]
    by (simp add: Milliseconds_def signed_divide_int_def sint64_of_int)
qed

lemma sint_trunc_ms:
  assumes "0 < sint ttl"
  shows "sint (trunc_ms ttl) = sint ttl div 1000000 * 1000000"
proof -
  have "sint ttl div 1000000 * 1000000 \<le> sint ttl" "0 \<le> sint ttl div 1000000" using assms by linarith+
  then show ?thesis
    using assms sint64_bounds(2) [of ttl] sint64_mult [of "Milliseconds ttl" Millisecond]
    by (simp add: trunc_ms_def signed_simps sint_Milliseconds Millisecond_def)
qed

lemma apply_ttl_px_args: "apply_ttl up (px_args ttl) 0 = trunc_ms ttl"
proof (cases "0 < sint ttl \<and> sint (Milliseconds ttl) = 0")
  case True
  then have "Milliseconds ttl = 0" by (simp add: sint64_0_iff)
  with True show ?thesis by (simp add: px_args_def trunc_ms_def signed_simps)
next
  case False
  then show ?thesis
    using sint_Milliseconds [of ttl]
    by (auto simp: px_args_def trunc_ms_def Let_def signed_simps pos_imp_zdiv_nonneg_iff)
qed

theorem apply_forwarded_set:
  "mutation_args ''SET'' k v ttl = Some args \<Longrightarrow>
     applyMasterCommand up P now (NewArray (Some args)) st = snd (Store_Set P k (Some (elems v)) (trunc_ms ttl) now st)"
  by (cases v) (auto simp: mutation_args_def applyMasterCommand_def apply_ttl_px_args)

theorem apply_forwarded_delete:
  "mutation_args ''DEL'' k v ttl = Some args \<Longrightarrow>
     applyMasterCommand up P now (NewArray (Some args)) st = snd (Store_Delete P k st)"
  by (auto simp: mutation_args_def applyMasterCommand_def)

theorem apply_forwarded_expire:
  "mutation_args ''EXPIRE'' k v ttl = Some args \<Longrightarrow>
     applyMasterCommand up P now (NewArray (Some args)) st = snd (Store_Expire P k (Seconds_int64 ttl * Second) now st)"
  by (auto simp: mutation_args_def applyMasterCommand_def)

lemma apply_snapshot_entry:
  "applyMasterCommand up P now (NewArray (Some (snapshot_args e))) st =
     snd (Store_Set P (snap_Key e) (Some (snap_Value e)) (trunc_ms (snap_TTL e)) now st)"
proof -
  have "mutation_args ''SET'' (snap_Key e) (Some (snap_Value e)) (snap_TTL e) = Some (snapshot_args e)"
    by (simp add: mutation_args_def snapshot_args_def)
  from apply_forwarded_set [OF this, of up P now st] show ?thesis by simp
qed

end
