(* ===== verification/Go_Bufio.thy ===== *)
theory Go_Bufio
  imports Vortex_Prelude "HOL-Library.Sublist"
begin

text \<open>
  Connections and the parts of Go's \<open>bufio\<close> and \<open>io\<close> packages that the wire protocol is
  built on.

  Reading: a stream is the list of bytes that are still to arrive, followed by the error
  that every read after the last of them returns (\<open>io.EOF\<close> when the peer has closed).
  \<open>bufio.Reader\<close> hides how the bytes are cut into packets.

  Writing: a \<open>bufio.Writer\<close> collects bytes in a buffer of 4096 and passes them on to its
  connection when the buffer is full or flushed; its first error is sticky. A connection
  accepts a number of bytes (without bound, if it never fails), and refuses the rest.
\<close>

subsection \<open>Reading\<close>

datatype IOErr = EOF | UnexpectedEOF | ConnErr string

fun IOErr_Error :: "IOErr \<Rightarrow> string" where
  "IOErr_Error EOF = ''EOF''"
| "IOErr_Error UnexpectedEOF = ''unexpected EOF''"
| "IOErr_Error (ConnErr e) = e"

text \<open>\<open>ReadBytes(delim)\<close>: everything up to and including the first \<open>delim\<close>.\<close>

definition ReadBytes :: "IOErr \<Rightarrow> byte \<Rightarrow> bytes \<Rightarrow> IOErr + bytes \<times> bytes" where
  "ReadBytes fin delim s =
     (if delim \<in> set s
      then Inr (takeWhile (\<lambda>c. c \<noteq> delim) s @ [delim], tl (dropWhile (\<lambda>c. c \<noteq> delim) s))
      else Inl fin)"

text \<open>
  \<open>io.ReadFull\<close> with a buffer of length \<open>n\<close>: the stream's error if not one byte came,
  \<open>io.ErrUnexpectedEOF\<close> in place of \<open>io.EOF\<close> if only some came.
\<close>

definition ReadFull :: "IOErr \<Rightarrow> nat \<Rightarrow> bytes \<Rightarrow> IOErr + bytes \<times> bytes" where
  "ReadFull fin n s =
     (if n \<le> length s then Inr (take n s, drop n s)
      else if s \<noteq> [] \<and> fin = EOF then Inl UnexpectedEOF
      else Inl fin)"

lemma ReadBytes_append:
  "delim \<notin> set l \<Longrightarrow> ReadBytes fin delim (l @ delim # rest) = Inr (l @ [delim], rest)"
  by (simp add: ReadBytes_def takeWhile_append dropWhile_append)

lemma ReadBytes_split:
  "ReadBytes fin delim s = Inr (l, rest) \<Longrightarrow>
     s = l @ rest \<and> (\<exists>l'. l = l' @ [delim] \<and> delim \<notin> set l')"
proof -
  assume a: "ReadBytes fin delim s = Inr (l, rest)"
  then have "delim \<in> set s" by (auto simp: ReadBytes_def split: if_splits)
  then obtain xs ys where "s = xs @ delim # ys" "delim \<notin> set xs" by (meson split_list_first)
  with a show ?thesis using ReadBytes_append [of delim xs fin ys] by auto
qed

lemma ReadFull_append: "length l = n \<Longrightarrow> ReadFull fin n (l @ rest) = Inr (l, rest)"
  by (simp add: ReadFull_def)

lemma ReadFull_split: "ReadFull fin n s = Inr (l, rest) \<Longrightarrow> s = l @ rest \<and> length l = n"
  by (auto simp: ReadFull_def split: if_splits)

subsection \<open>Writing\<close>

text \<open>
  \<open>limit\<close> is the number of bytes the connection still accepts (\<open>None\<close>: all), \<open>write_err\<close>
  the error of a write that goes beyond it, \<open>wire\<close> everything accepted so far.
\<close>

record Conn =
  wire :: bytes
  limit :: "nat option"
  write_err :: string

definition conn_Write :: "bytes \<Rightarrow> Conn \<Rightarrow> string option \<times> Conn" where
  "conn_Write p c =
     (case limit c of
        None \<Rightarrow> (None, c\<lparr>wire := wire c @ p\<rparr>)
      | Some r \<Rightarrow>
          if length p \<le> r then (None, c\<lparr>wire := wire c @ p, limit := Some (r - length p)\<rparr>)
          else (Some (write_err c), c\<lparr>wire := wire c @ take r p, limit := Some 0\<rparr>))"

text \<open>
  What \<open>net.Dial\<close> gives: an error, or a connection with the bytes the peer sends and the
  error its stream ends with.
\<close>

datatype dial = DialErr string | Dialed Conn bytes IOErr

text \<open>After \<open>Close\<close> every write is refused.\<close>

definition conn_Close :: "Conn \<Rightarrow> Conn" where
  "conn_Close c = c\<lparr>limit := Some 0, write_err := ''use of closed network connection''\<rparr>"

record bufWriter =
  wr :: Conn
  buf :: bytes
  err :: "string option"

definition bufSize :: nat where "bufSize = 4096"

definition bufio_NewWriter :: "Conn \<Rightarrow> bufWriter" where
  "bufio_NewWriter c = \<lparr>wr = c, buf = [], err = None\<rparr>"

definition Available :: "bufWriter \<Rightarrow> nat" where
  "Available w = bufSize - length (buf w)"

text \<open>\<open>Flush\<close>; after a short write the bytes that were not accepted stay in the buffer.\<close>

definition bufio_Flush :: "bufWriter \<Rightarrow> string option \<times> bufWriter" where
  "bufio_Flush w =
     (if err w \<noteq> None then (err w, w)
      else if buf w = [] then (None, w)
      else case conn_Write (buf w) (wr w) of
             (None, c) \<Rightarrow> (None, w\<lparr>wr := c, buf := []\<rparr>)
           | (Some e, c) \<Rightarrow>
               (Some e, w\<lparr>wr := c, err := Some e,
                  buf := drop (length (wire c) - length (wire (wr w))) (buf w)\<rparr>))"

definition bufio_WriteByte :: "byte \<Rightarrow> bufWriter \<Rightarrow> string option \<times> bufWriter" where
  "bufio_WriteByte c w =
     (if err w \<noteq> None then (err w, w)
      else if Available w = 0 then
        (case bufio_Flush w of
           (Some e, w') \<Rightarrow> (Some e, w')
         | (None, w') \<Rightarrow> (None, w'\<lparr>buf := buf w' @ [c]\<rparr>))
      else (None, w\<lparr>buf := buf w @ [c]\<rparr>))"

text \<open>
  \<open>WriteString\<close> on a connection without a \<open>WriteString\<close> method of its own: fill the
  buffer and flush it until the rest fits.
\<close>

function bufio_WriteString :: "string \<Rightarrow> bufWriter \<Rightarrow> string option \<times> bufWriter" where
  "bufio_WriteString s w =
     (if err w \<noteq> None then (err w, w)
      else if length s \<le> Available w then (None, w\<lparr>buf := buf w @ s\<rparr>)
      else case bufio_Flush (w\<lparr>buf := buf w @ take (Available w) s\<rparr>) of
             (Some e, w') \<Rightarrow> (Some e, w')
           | (None, w') \<Rightarrow> bufio_WriteString (drop (Available w) s) w')"
  by pat_completeness auto

lemma Flush_None_buf: "bufio_Flush w = (None, w') \<Longrightarrow> buf w' = [] \<and> err w' = None"
  by (auto simp: bufio_Flush_def split: if_splits prod.splits option.splits)

termination bufio_WriteString
  by (relation "measures [\<lambda>(s, w). length s, \<lambda>(s, w). length (buf w)]")
    (auto dest!: sym [THEN Flush_None_buf] simp: Available_def bufSize_def)

declare bufio_WriteString.simps [simp del]

text \<open>
  \<open>Write\<close>: what does not fit into an empty buffer goes to the connection directly. The
  loop of the code runs at most twice, once for each of the two branches.
\<close>

definition write_direct :: "bytes \<Rightarrow> bufWriter \<Rightarrow> string option \<times> bufWriter" where
  "write_direct p w = (case conn_Write p (wr w) of (e, c) \<Rightarrow> (e, w\<lparr>wr := c, err := e\<rparr>))"

definition bufio_Write :: "bytes \<Rightarrow> bufWriter \<Rightarrow> string option \<times> bufWriter" where
  "bufio_Write p w =
     (if err w \<noteq> None then (err w, w)
      else if length p \<le> Available w then (None, w\<lparr>buf := buf w @ p\<rparr>)
      else if buf w = [] then write_direct p w
      else case bufio_Flush (w\<lparr>buf := buf w @ take (Available w) p\<rparr>) of
             (Some e, w') \<Rightarrow> (Some e, w')
           | (None, w') \<Rightarrow>
               let p' = drop (Available w) p
               in if length p' \<le> Available w' then (None, w'\<lparr>buf := buf w' @ p'\<rparr>)
                  else write_direct p' w')"

subsection \<open>What a writing operation promises\<close>

text \<open>
  \<open>out w\<close> is everything handed to the writer, accepted by the connection or still in the
  buffer; \<open>fits w bs\<close> says that the connection will accept all of it and \<open>bs\<close> too.
  \<open>writes f bs\<close> is the contract of an operation that writes \<open>bs\<close>: it either appends
  exactly \<open>bs\<close> to the output or fails with a sticky error, and it fails only if the
  connection refuses some byte. What is on the wire never leaves the intended output.
\<close>

definition out :: "bufWriter \<Rightarrow> bytes" where
  "out w = wire (wr w) @ buf w"

definition fits :: "bufWriter \<Rightarrow> bytes \<Rightarrow> bool" where
  "fits w bs = (case limit (wr w) of None \<Rightarrow> True | Some r \<Rightarrow> length (buf w) + length bs \<le> r)"

type_synonym write_op = "bufWriter \<Rightarrow> string option \<times> bufWriter"

definition appended :: "bytes \<Rightarrow> bufWriter \<Rightarrow> bufWriter \<Rightarrow> bool" where
  "appended bs w w' \<longleftrightarrow> err w' = None \<and> out w' = out w @ bs \<and>
     prefix (wire (wr w)) (wire (wr w')) \<and> (\<forall>cs. fits w' cs = fits w (bs @ cs))"

definition refused :: "bytes \<Rightarrow> bufWriter \<Rightarrow> bufWriter \<Rightarrow> bool" where
  "refused bs w w' \<longleftrightarrow> err w' \<noteq> None \<and> prefix (wire (wr w)) (wire (wr w')) \<and>
     prefix (wire (wr w')) (out w @ bs) \<and> \<not> fits w bs"

definition writes :: "write_op \<Rightarrow> bytes \<Rightarrow> bool" where
  "writes f bs \<longleftrightarrow>
     (\<forall>w. (err w \<noteq> None \<longrightarrow> snd (f w) = w) \<and>
          (err w = None \<longrightarrow> (case f w of (None, w') \<Rightarrow> appended bs w w' | (Some e, w') \<Rightarrow> refused bs w w')))"

lemma writesI:
  assumes "\<And>w. err w \<noteq> None \<Longrightarrow> snd (f w) = w"
    and "\<And>w w'. err w = None \<Longrightarrow> f w = (None, w') \<Longrightarrow> appended bs w w'"
    and "\<And>w e w'. err w = None \<Longrightarrow> f w = (Some e, w') \<Longrightarrow> refused bs w w'"
  shows "writes f bs"
  unfolding writes_def using assms by (auto split: prod.splits option.splits)

lemma writes_sticky: "writes f bs \<Longrightarrow> err w \<noteq> None \<Longrightarrow> snd (f w) = w"
  by (simp add: writes_def)

lemma writes_appended: "writes f bs \<Longrightarrow> err w = None \<Longrightarrow> f w = (None, w') \<Longrightarrow> appended bs w w'"
  unfolding writes_def by (drule spec [where x = w]) simp

lemma writes_refused: "writes f bs \<Longrightarrow> err w = None \<Longrightarrow> f w = (Some e, w') \<Longrightarrow> refused bs w w'"
  unfolding writes_def by (drule spec [where x = w]) simp

text \<open>Two operations in sequence, the second only if the first returned no error.\<close>

definition and_then :: "write_op \<Rightarrow> write_op \<Rightarrow> write_op" where
  "and_then f g w = (case f w of (Some e, w') \<Rightarrow> (Some e, w') | (None, w') \<Rightarrow> g w')"

lemma appended_trans: "appended a w w' \<Longrightarrow> appended b w' w'' \<Longrightarrow> appended (a @ b) w w''"
  by (auto simp: appended_def intro: prefix_order.trans)

lemma appended_refused: "appended a w w' \<Longrightarrow> refused b w' w'' \<Longrightarrow> refused (a @ b) w w''"
  by (auto simp: appended_def refused_def intro: prefix_order.trans)

lemma refused_append: "refused a w w' \<Longrightarrow> refused (a @ b) w w'"
  using prefix_prefix [of "wire (wr w')" "out w @ a" b]
  by (auto simp: refused_def fits_def split: option.splits)

lemma writes_and_then:
  assumes f: "writes f a" and g: "writes g b"
  shows "writes (and_then f g) (a @ b)"
proof (rule writesI)
  fix w :: bufWriter assume "err w \<noteq> None"
  then show "snd (and_then f g w) = w"
    using writes_sticky [OF f, of w] writes_sticky [OF g, of w]
    by (cases "f w"; cases "fst (f w)") (simp_all add: and_then_def)
next
  fix w w' :: bufWriter assume w: "err w = None" and "and_then f g w = (None, w')"
  then obtain w1 where 1: "f w = (None, w1)" "g w1 = (None, w')"
    by (auto simp: and_then_def split: prod.splits option.splits)
  have "appended a w w1" by (rule writes_appended [OF f w 1(1)])
  moreover from this have "appended b w1 w'"
    by (intro writes_appended [OF g _ 1(2)]) (simp add: appended_def)
  ultimately show "appended (a @ b) w w'" by (rule appended_trans)
next
  fix w w' :: bufWriter and e assume w: "err w = None" and "and_then f g w = (Some e, w')"
  then consider "f w = (Some e, w')" | w1 where "f w = (None, w1)" "g w1 = (Some e, w')"
    by (auto simp: and_then_def split: prod.splits option.splits)
  then show "refused (a @ b) w w'"
  proof cases
    case 1
    then show ?thesis by (intro refused_append writes_refused [OF f w])
  next
    case 2
    have "appended a w w1" by (rule writes_appended [OF f w 2(1)])
    moreover from this have "refused b w1 w'"
      by (intro writes_refused [OF g _ 2(2)]) (simp add: appended_def)
    ultimately show ?thesis by (rule appended_refused)
  qed
qed

lemma writes_nothing: "writes (\<lambda>w. (None, w)) []"
  by (rule writesI) (auto simp: appended_def)

subsection \<open>The operations of the writer keep the contract\<close>

lemma conn_Write_cases:
  obtains (all) c' where "conn_Write p c = (None, c')" "wire c' = wire c @ p"
      "limit c' = map_option (\<lambda>r. r - length p) (limit c)" "\<forall>r. limit c = Some r \<longrightarrow> length p \<le> r"
    | (part) r c' where "conn_Write p c = (Some (write_err c), c')" "wire c' = wire c @ take r p"
      "limit c = Some r" "r < length p"
  by (cases "limit c"; cases "length p \<le> the (limit c)") (auto simp: conn_Write_def)

lemma writes_Flush: "writes bufio_Flush []"
proof (rule writesI)
  fix w :: bufWriter assume "err w \<noteq> None"
  then show "snd (bufio_Flush w) = w" by (simp add: bufio_Flush_def)
next
  fix w w' :: bufWriter assume "err w = None" "bufio_Flush w = (None, w')"
  then show "appended [] w w'"
    by (cases rule: conn_Write_cases [of "buf w" "wr w"])
      (auto simp: bufio_Flush_def appended_def out_def fits_def split: if_splits option.splits)
next
  fix w w' :: bufWriter and e assume "err w = None" "bufio_Flush w = (Some e, w')"
  then show "refused [] w w'"
    by (cases rule: conn_Write_cases [of "buf w" "wr w"])
      (auto simp: bufio_Flush_def refused_def out_def fits_def take_is_prefix split: if_splits)
qed

lemma appended_buf: "err w = None \<Longrightarrow> appended p w (w\<lparr>buf := buf w @ p\<rparr>)"
  by (auto simp: appended_def out_def fits_def split: option.splits)

text \<open>Filling the buffer with \<open>p\<close> and flushing it, when that succeeds and when it fails.\<close>

lemma fill_flush_appended:
  assumes "err w = None" and "bufio_Flush (w\<lparr>buf := buf w @ p\<rparr>) = (None, w')"
  shows "appended p w w'" "err w' = None" "buf w' = []"
proof -
  have "appended [] (w\<lparr>buf := buf w @ p\<rparr>) w'"
    using writes_appended [OF writes_Flush _ assms(2)] assms(1) by simp
  then show "appended p w w'" using appended_trans [OF appended_buf [OF assms(1)]] by fastforce
  show "err w' = None" "buf w' = []" using Flush_None_buf [OF assms(2)] by simp_all
qed

lemma fill_flush_refused:
  assumes "err w = None" and "bufio_Flush (w\<lparr>buf := buf w @ p\<rparr>) = (Some e, w')"
  shows "refused (p @ q) w w'"
proof -
  have "refused [] (w\<lparr>buf := buf w @ p\<rparr>) w'"
    using writes_refused [OF writes_Flush _ assms(2)] assms(1) by simp
  then have "refused (p @ []) w w'" by (rule appended_refused [OF appended_buf [OF assms(1)]])
  then show ?thesis using refused_append [of p w w' q] by simp
qed

lemma writes_WriteByte: "writes (bufio_WriteByte c) [c]"
proof (rule writesI)
  fix w :: bufWriter assume "err w \<noteq> None"
  then show "snd (bufio_WriteByte c w) = w" by (simp add: bufio_WriteByte_def)
next
  fix w w' :: bufWriter assume w: "err w = None" and r: "bufio_WriteByte c w = (None, w')"
  show "appended [c] w w'"
  proof (cases "Available w = 0")
    case True
    with w r obtain w1 where fl: "bufio_Flush w = (None, w1)" and w': "w' = w1\<lparr>buf := buf w1 @ [c]\<rparr>"
      by (auto simp: bufio_WriteByte_def split: prod.splits option.splits)
    have "appended [] w w1" by (rule writes_appended [OF writes_Flush w fl])
    moreover have "appended [c] w1 w'"
      unfolding w' using Flush_None_buf [OF fl] by (intro appended_buf) simp
    ultimately show ?thesis using appended_trans by fastforce
  qed (use w r in \<open>auto simp: bufio_WriteByte_def appended_buf\<close>)
next
  fix w w' :: bufWriter and e assume w: "err w = None" and r: "bufio_WriteByte c w = (Some e, w')"
  then have "bufio_Flush w = (Some e, w')"
    by (auto simp: bufio_WriteByte_def split: if_splits prod.splits option.splits)
  then have "refused [] w w'" by (rule writes_refused [OF writes_Flush w])
  then show "refused [c] w w'" using refused_append by fastforce
qed

lemma write_direct_appended:
  "err w = None \<Longrightarrow> buf w = [] \<Longrightarrow> write_direct p w = (None, w') \<Longrightarrow> appended p w w'"
  by (cases rule: conn_Write_cases [of p "wr w"])
    (auto simp: write_direct_def appended_def out_def fits_def split: option.splits)

lemma write_direct_refused:
  "err w = None \<Longrightarrow> buf w = [] \<Longrightarrow> write_direct p w = (Some e, w') \<Longrightarrow> refused p w w'"
  by (cases rule: conn_Write_cases [of p "wr w"])
    (auto simp: write_direct_def refused_def out_def fits_def take_is_prefix)

lemma writes_Write: "writes (bufio_Write p) p"
proof (rule writesI)
  fix w :: bufWriter assume "err w \<noteq> None"
  then show "snd (bufio_Write p w) = w" by (simp add: bufio_Write_def)
next
  fix w w' :: bufWriter assume w: "err w = None" and r: "bufio_Write p w = (None, w')"
  let ?a = "Available w"
  consider "length p \<le> ?a" | "\<not> length p \<le> ?a" "buf w = []"
    | w1 where "\<not> length p \<le> ?a" "buf w \<noteq> []" "bufio_Flush (w\<lparr>buf := buf w @ take ?a p\<rparr>) = (None, w1)"
    using w r by (fastforce simp: bufio_Write_def split: if_splits prod.splits option.splits)
  then show "appended p w w'"
  proof cases
    case 3
    note ff = fill_flush_appended [OF w 3(3)]
    have "appended (drop ?a p) w1 w'"
      using w r 3 ff(2,3) appended_buf [of w1] write_direct_appended [of w1]
      by (auto simp: bufio_Write_def Let_def split: if_splits)
    from appended_trans [OF ff(1) this] show ?thesis by simp
  qed (use w r in \<open>auto simp: bufio_Write_def appended_buf write_direct_appended\<close>)
next
  fix w w' :: bufWriter and e assume w: "err w = None" and r: "bufio_Write p w = (Some e, w')"
  let ?a = "Available w"
  consider "\<not> length p \<le> ?a" "buf w = []"
    | "bufio_Flush (w\<lparr>buf := buf w @ take ?a p\<rparr>) = (Some e, w')"
    | w1 where "\<not> length p \<le> ?a" "buf w \<noteq> []" "bufio_Flush (w\<lparr>buf := buf w @ take ?a p\<rparr>) = (None, w1)"
    using w r by (fastforce simp: bufio_Write_def split: if_splits prod.splits option.splits)
  then show "refused p w w'"
  proof cases
    case 1
    with w r show ?thesis by (simp add: bufio_Write_def write_direct_refused)
  next
    case 2
    from fill_flush_refused [OF w 2, of "drop ?a p"] show ?thesis by simp
  next
    case 3
    note ff = fill_flush_appended [OF w 3(3)]
    have "refused (drop ?a p) w1 w'"
      using w r 3 ff(2,3) write_direct_refused [of w1]
      by (auto simp: bufio_Write_def Let_def split: if_splits)
    from appended_refused [OF ff(1) this] show ?thesis by simp
  qed
qed

lemma WriteString_contract:
  assumes "err w = None"
  shows "case bufio_WriteString s w of (None, w') \<Rightarrow> appended s w w' | (Some e, w') \<Rightarrow> refused s w w'"
  using assms
proof (induction s w rule: bufio_WriteString.induct)
  case (1 s w)
  let ?a = "Available w"
  show ?case
  proof (cases "length s \<le> ?a")
    case True
    with 1(2) show ?thesis by (subst bufio_WriteString.simps) (simp add: appended_buf)
  next
    case False
    obtain r w1 where fl: "bufio_Flush (w\<lparr>buf := buf w @ take ?a s\<rparr>) = (r, w1)" by fastforce
    show ?thesis
    proof (cases r)
      case (Some e)
      have "refused s w w1"
        using fill_flush_refused [OF 1(2), of "take ?a s" e w1 "drop ?a s"] fl Some by simp
      with False 1(2) fl Some show ?thesis by (subst bufio_WriteString.simps) simp
    next
      case None
      note ff = fill_flush_appended [OF 1(2) fl [unfolded None]]
      have "case bufio_WriteString (drop ?a s) w1 of (None, w') \<Rightarrow> appended s w w'
            | (Some e, w') \<Rightarrow> refused s w w'"
        using 1(1) [OF _ False fl [symmetric] None ff(2)] 1(2)
          appended_trans [OF ff(1), of "drop ?a s"] appended_refused [OF ff(1), of "drop ?a s"]
        by (auto split: prod.splits option.splits)
      with False 1(2) fl None show ?thesis by (subst bufio_WriteString.simps) simp
    qed
  qed
qed

lemma writes_WriteString: "writes (bufio_WriteString s) s"
  unfolding writes_def using WriteString_contract by (auto simp: bufio_WriteString.simps)

subsection \<open>Wrapped errors and ignored flushes\<close>

text \<open>\<open>fmt.Errorf(msg + "%w", err)\<close> around the error of a write operation.\<close>

definition wrap_err :: "string \<Rightarrow> write_op \<Rightarrow> write_op" where
  "wrap_err msg f w = (case f w of (Some e, w') \<Rightarrow> (Some (msg @ e), w') | (None, w') \<Rightarrow> (None, w'))"

lemma writes_wrap_err:
  assumes f: "writes f bs"
  shows "writes (wrap_err msg f) bs"
proof (rule writesI)
  fix w :: bufWriter assume "err w \<noteq> None"
  then show "snd (wrap_err msg f w) = w"
    using writes_sticky [OF f, of w] by (cases "f w"; cases "fst (f w)") (simp_all add: wrap_err_def)
next
  fix w w' :: bufWriter assume "err w = None" "wrap_err msg f w = (None, w')"
  then show "appended bs w w'"
    by (auto simp: wrap_err_def intro: writes_appended [OF f] split: prod.splits option.splits)
next
  fix w w' :: bufWriter and e assume "err w = None" "wrap_err msg f w = (Some e, w')"
  then show "refused bs w w'"
    by (auto simp: wrap_err_def intro: writes_refused [OF f] split: prod.splits option.splits)
qed

text \<open>
  A flush whose result is ignored does no harm in front of an operation that reports the
  sticky error.
\<close>

lemma writes_after_ignored_flush:
  assumes g: "writes g bs" and sticky: "\<And>w. err w \<noteq> None \<Longrightarrow> fst (g w) \<noteq> None"
  shows "writes (\<lambda>w. g (snd (bufio_Flush w))) bs"
proof (rule writesI)
  fix w :: bufWriter assume "err w \<noteq> None"
  then show "snd (g (snd (bufio_Flush w))) = w"
    using writes_sticky [OF writes_Flush, of w] writes_sticky [OF g, of w] by simp
next
  fix w w' :: bufWriter assume w: "err w = None" and r: "g (snd (bufio_Flush w)) = (None, w')"
  obtain e w1 where fl: "bufio_Flush w = (e, w1)" by fastforce
  show "appended bs w w'"
  proof (cases e)
    case None
    have "appended [] w w1" using writes_appended [OF writes_Flush w] fl None by simp
    moreover from this have "appended bs w1 w'"
      using writes_appended [OF g, of w1 w'] r fl by (auto simp: appended_def [of "[]"])
    ultimately show ?thesis using appended_trans by fastforce
  next
    case (Some x)
    then have "err w1 \<noteq> None" using writes_refused [OF writes_Flush w] fl by (simp add: refused_def)
    from sticky [OF this] r fl show ?thesis by simp
  qed
next
  fix w w' :: bufWriter and e' assume w: "err w = None" and r: "g (snd (bufio_Flush w)) = (Some e', w')"
  obtain e w1 where fl: "bufio_Flush w = (e, w1)" by fastforce
  show "refused bs w w'"
  proof (cases e)
    case None
    have "appended [] w w1" using writes_appended [OF writes_Flush w] fl None by simp
    moreover from this have "refused bs w1 w'"
      using writes_refused [OF g, of w1 e' w'] r fl by (auto simp: appended_def [of "[]"])
    ultimately show ?thesis using appended_refused by fastforce
  next
    case (Some x)
    then have *: "refused [] w w1" using writes_refused [OF writes_Flush w] fl by simp
    then have "w' = w1" using writes_sticky [OF g, of w1] r fl by (simp add: refused_def)
    with * show ?thesis using refused_append by fastforce
  qed
qed

text \<open>On a connection that never fails every operation succeeds.\<close>

lemma fits_unlimited: "limit (wr w) = None \<Longrightarrow> fits w bs"
  by (simp add: fits_def)

lemma unlimited_fits: "(\<And>cs. fits w cs) \<Longrightarrow> limit (wr w) = None"
proof (rule ccontr)
  assume all: "\<And>cs. fits w cs" and "limit (wr w) \<noteq> None"
  then obtain r where "limit (wr w) = Some r" by auto
  with all [of "replicate (Suc r) (CHR 0x00)"] show False by (simp add: fits_def)
qed

lemma writes_unlimited:
  assumes "writes f bs" and "err w = None" and "limit (wr w) = None"
  obtains w' where "f w = (None, w')" "appended bs w w'" "limit (wr w') = None"
proof (cases "f w")
  case (Pair e w')
  have "e = None"
    using writes_refused [OF assms(1,2)] assms(3) Pair by (cases e) (auto simp: refused_def fits_unlimited)
  with Pair have f: "f w = (None, w')" by simp
  have a: "appended bs w w'" by (rule writes_appended [OF assms(1,2) f])
  then have "limit (wr w') = None"
    using assms(3) by (intro unlimited_fits) (simp add: appended_def fits_unlimited)
  with f a that show ?thesis by blast
qed

end
