(* ===== verification/Resp_Writer.thy ===== *)
theory Resp_Writer
  imports Resp_Value Go_Bufio Go_Text
begin

text \<open>
  \<open>internal/resp/writer.go\<close>: the encoder. Every method is a \<open>bufio\<close> write operation built
  with \<open>and_then\<close>, which is the code's \<open>if err := ...; err != nil { return err }\<close>. The
  bytes a value is written as are \<open>encode\<close>; the main fact is that \<open>WriteValue v\<close> keeps
  the contract of an operation that writes \<open>encode v\<close>.
\<close>

definition crlf :: bytes where "crlf = [CHR 0x0D, CHR 0x0A]"

definition NewWriter :: "Conn \<Rightarrow> bufWriter" where
  "NewWriter c = bufio_NewWriter c"

definition WriteSimpleString :: "string \<Rightarrow> write_op" where
  "WriteSimpleString s =
     and_then (bufio_WriteByte TypeSimpleString) (and_then (bufio_WriteString s) (bufio_Write crlf))"

definition WriteError :: "string \<Rightarrow> write_op" where
  "WriteError errStr =
     and_then (bufio_WriteByte TypeError) (and_then (bufio_WriteString errStr) (bufio_Write crlf))"

definition WriteInteger :: "int64 \<Rightarrow> write_op" where
  "WriteInteger n =
     and_then (bufio_WriteByte TypeInteger)
       (and_then (bufio_WriteString (FormatInt n)) (bufio_Write crlf))"

definition WriteNull :: write_op where
  "WriteNull = bufio_WriteString (''$-1'' @ crlf)"

definition WriteNullArray :: write_op where
  "WriteNullArray = bufio_WriteString (''*-1'' @ crlf)"

definition WriteBulkString :: "byte slice \<Rightarrow> write_op" where
  "WriteBulkString b =
     (case b of
        None \<Rightarrow> WriteNull
      | Some bs \<Rightarrow>
          and_then (bufio_WriteByte TypeBulkString)
            (and_then (bufio_WriteString (Itoa (length bs)))
               (and_then (bufio_Write crlf) (and_then (bufio_Write bs) (bufio_Write crlf)))))"

definition WriteBulkStringString :: "string \<Rightarrow> write_op" where
  "WriteBulkStringString s = WriteBulkString (Some s)"

fun WriteValue :: "Value \<Rightarrow> write_op"
  and WriteArray :: "Value slice \<Rightarrow> write_op"
  and write_elements :: "Value list \<Rightarrow> write_op" where
  "WriteValue (MkValue ty str num bulk arr nil) =
     (if ty = TypeSimpleString then WriteSimpleString str
      else if ty = TypeError then WriteError str
      else if ty = TypeInteger then WriteInteger num
      else if ty = TypeBulkString then (if nil then WriteNull else WriteBulkString bulk)
      else if ty = TypeArray then (if nil then WriteNullArray else WriteArray arr)
      else WriteError ''ERR unknown RESP type'')"
| "WriteArray None = WriteNullArray"
| "WriteArray (Some values) =
     and_then (bufio_WriteByte TypeArray)
       (and_then (bufio_WriteString (Itoa (length values)))
          (and_then (bufio_Write crlf) (write_elements values)))"
| "write_elements [] = (\<lambda>w. (None, w))"
| "write_elements (elem # values) = and_then (WriteValue elem) (write_elements values)"

definition Writer_Flush :: write_op where
  "Writer_Flush = bufio_Flush"

subsection \<open>The bytes of a value\<close>

fun encode :: "Value \<Rightarrow> bytes" and encode_array :: "Value slice \<Rightarrow> bytes" where
  "encode (MkValue ty str num bulk arr nil) =
     (if ty = TypeSimpleString then ''+'' @ str @ crlf
      else if ty = TypeError then ''-'' @ str @ crlf
      else if ty = TypeInteger then '':'' @ FormatInt num @ crlf
      else if ty = TypeBulkString then
        (if nil \<or> bulk = None then ''$-1'' @ crlf
         else ''$'' @ Itoa (length (elems bulk)) @ crlf @ elems bulk @ crlf)
      else if ty = TypeArray then (if nil then ''*-1'' @ crlf else encode_array arr)
      else ''-ERR unknown RESP type'' @ crlf)"
| "encode_array None = ''*-1'' @ crlf"
| "encode_array (Some vs) = ''*'' @ Itoa (length vs) @ crlf @ concat (map encode vs)"

lemmas writes_intros = writes_and_then writes_WriteByte writes_WriteString writes_Write
  writes_Flush writes_nothing

lemma writes_eq: "writes f bs \<Longrightarrow> bs = bs' \<Longrightarrow> writes f bs'"
  by simp

lemma writes_WriteSimpleString: "writes (WriteSimpleString s) (''+'' @ s @ crlf)"
  unfolding WriteSimpleString_def
  by (rule writes_eq, (rule writes_intros)+) (simp add: TypeSimpleString_def)

lemma writes_WriteError: "writes (WriteError s) (''-'' @ s @ crlf)"
  unfolding WriteError_def
  by (rule writes_eq, (rule writes_intros)+) (simp add: TypeError_def)

lemma writes_WriteInteger: "writes (WriteInteger n) ('':'' @ FormatInt n @ crlf)"
  unfolding WriteInteger_def
  by (rule writes_eq, (rule writes_intros)+) (simp add: TypeInteger_def)

lemma writes_WriteNull: "writes WriteNull (''$-1'' @ crlf)"
  and writes_WriteNullArray: "writes WriteNullArray (''*-1'' @ crlf)"
  unfolding WriteNull_def WriteNullArray_def by (rule writes_WriteString)+

lemma WriteBulkString_None [simp]: "WriteBulkString None = WriteNull"
  by (simp add: WriteBulkString_def)

lemma writes_WriteBulkString:
  "writes (WriteBulkString (Some bs)) (''$'' @ Itoa (length bs) @ crlf @ bs @ crlf)"
  unfolding WriteBulkString_def option.case
  by (rule writes_eq, (rule writes_intros)+) (simp add: TypeBulkString_def)

lemma writes_WriteArray:
  assumes "writes (write_elements vs) bs"
  shows "writes (WriteArray (Some vs)) (''*'' @ Itoa (length vs) @ crlf @ bs)"
  unfolding WriteArray.simps
  by (rule writes_eq, (rule writes_intros assms)+) (simp add: TypeArray_def)

theorem writes_WriteValue:
  "writes (WriteValue v) (encode v)"
  "writes (WriteArray a) (encode_array a)"
  "writes (write_elements vs) (concat (map encode vs))"
proof (induction v and a and vs rule: WriteValue_WriteArray_write_elements.induct)
  case (1 ty str num bulk arr nil)
  then show ?case
    by (cases bulk) (auto simp: writes_WriteSimpleString [simplified] writes_WriteError [simplified]
      writes_WriteInteger [simplified] writes_WriteNull [simplified] writes_WriteNullArray [simplified]
      writes_WriteBulkString [simplified] writes_WriteError [of "''ERR unknown RESP type''", simplified])
next
  case (3 vals)
  then show ?case using writes_WriteArray by simp
next
  case (5 elem vals)
  then show ?case using writes_and_then by simp
qed (simp_all add: writes_WriteNullArray [simplified] writes_nothing)

subsection \<open>Writing and flushing\<close>

text \<open>One value written and flushed, as the server does for a response.\<close>

definition send :: "Value \<Rightarrow> write_op" where
  "send v = and_then (WriteValue v) Writer_Flush"

lemma writes_send: "writes (send v) (encode v)"
  unfolding send_def Writer_Flush_def
  by (rule writes_eq, rule writes_and_then [OF writes_WriteValue(1) writes_Flush]) simp

lemma send_ok:
  assumes "err w = None" and "send v w = (None, w')"
  shows "wire (wr w') = out w @ encode v" "buf w' = []" "err w' = None"
proof -
  have "appended (encode v) w w'" by (rule writes_appended [OF writes_send assms])
  moreover have "buf w' = []"
    using assms(2) Flush_None_buf
    by (auto simp: send_def and_then_def Writer_Flush_def split: prod.splits option.splits)
  ultimately show "wire (wr w') = out w @ encode v" "buf w' = []" "err w' = None"
    by (simp_all add: appended_def out_def)
qed

lemma send_succeeds:
  assumes "err w = None" and "fits w (encode v)"
  obtains w' where "send v w = (None, w')"
proof (cases "send v w")
  case (Pair e w')
  then show ?thesis
    using that assms writes_refused [OF writes_send assms(1)] by (cases e) (auto simp: refused_def)
qed

end
