(* ===== verification/Master_Manager.thy ===== *)
theory Master_Manager
  imports Replication_Stream Resp_Writer
begin

text \<open>
  \<open>internal/replication/master.go\<close>: the master's side of replication. The environment of a
  node holds its connections, by name, because a connection can have two writers: the one
  that the manager keeps for a replica and the one of the connection's own handler. Before
  a writer works, it takes the connection from the environment, and it puts it back after.

  \<open>go m.UnregisterReplica(conn)\<close> starts a goroutine; the calls that have not run yet are the
  list \<open>unregistering\<close>, and \<open>run_unregister\<close> is the moment one of them runs.

  A broadcast visits the replicas in the order of the list. Go leaves the order open, but the
  connections and writers of two replicas are different, so it can not be observed. Two
  broadcasts at the same time, which the read lock permits, are the subject of
  \<open>Broadcast_Race\<close>.
\<close>

type_synonym connid = nat

record MasterManager =
  replicas :: "(connid, bufWriter) gomap"
  totalOffset :: int64

record env =
  net :: "connid \<Rightarrow> Conn"
  mgr :: MasterManager
  unregistering :: "connid list"

definition net_op :: "connid \<Rightarrow> write_op \<Rightarrow> bufWriter \<Rightarrow> (connid \<Rightarrow> Conn) \<Rightarrow>
    string option \<times> bufWriter \<times> (connid \<Rightarrow> Conn)" where
  "net_op c f w n = (case f (w\<lparr>wr := n c\<rparr>) of (e, w') \<Rightarrow> (e, w', n(c := wr w')))"

definition broadcast_one :: "Value \<Rightarrow> connid \<Rightarrow> env \<Rightarrow> env" where
  "broadcast_one cmdVal c E =
     (case map_of (replicas (mgr E)) c of
        None \<Rightarrow> E
      | Some w \<Rightarrow>
          case net_op c (send cmdVal) w (net E) of
            (e, w', n) \<Rightarrow>
              E\<lparr>net := n, mgr := (mgr E)\<lparr>replicas := AList.update c w' (replicas (mgr E))\<rparr>,
                unregistering := (if e \<noteq> None then unregistering E @ [c] else unregistering E)\<rparr>)"

definition handleStoreWrite :: "env WriteListener" where
  "handleStoreWrite cmdName key val ttl E =
     (if replicas (mgr E) = [] then E
      else case mutation_args cmdName key val ttl of
             None \<Rightarrow> E
           | Some args \<Rightarrow>
               fold (broadcast_one (NewArray (Some args))) (keys_of (replicas (mgr E))) E)"

text \<open>The manager itself; its listener is registered with the store.\<close>

definition NewMasterManager :: "('p, env) Store \<Rightarrow> MasterManager \<times> ('p, env) Store" where
  "NewMasterManager cache = (\<lparr>replicas = [], totalOffset = 0\<rparr>, OnWrite handleStoreWrite cache)"

definition UnregisterReplica :: "connid \<Rightarrow> MasterManager \<Rightarrow> MasterManager" where
  "UnregisterReplica c m = m\<lparr>replicas := AList.delete c (replicas m)\<rparr>"

definition run_unregister :: "connid \<Rightarrow> env \<Rightarrow> env" where
  "run_unregister c E =
     (if c \<in> set (unregistering E)
      then E\<lparr>mgr := UnregisterReplica c (mgr E), unregistering := remove1 c (unregistering E)\<rparr>
      else E)"

definition ConnectedReplicas :: "MasterManager \<Rightarrow> nat" where
  "ConnectedReplicas m = length (replicas m)"

subsection \<open>Full resynchronisation\<close>

definition fullresync :: string where
  "fullresync = ''FULLRESYNC 0000000000000000000000000000000000000000 0''"

fun write_snapshot :: "SnapshotEntry list \<Rightarrow> write_op" where
  "write_snapshot [] = (\<lambda>w. (None, w))"
| "write_snapshot (entry # entries) =
     and_then (wrap_err ''failed to stream snapshot entry: '' (WriteArray (Some (snapshot_args entry))))
       (write_snapshot entries)"

text \<open>Everything that \<open>RegisterReplica\<close> writes; the result of the first flush is ignored.\<close>

definition transmit :: "SnapshotEntry list \<Rightarrow> write_op" where
  "transmit snapshot =
     and_then (WriteSimpleString fullresync)
       (\<lambda>w. and_then (write_snapshot snapshot) (wrap_err ''failed to flush snapshot: '' Writer_Flush)
          (snd (Writer_Flush w)))"

text \<open>
  The part after the snapshot was taken: other goroutines may run between the two.
\<close>

definition register_with :: "connid \<Rightarrow> SnapshotEntry list \<Rightarrow> env \<Rightarrow> string option \<times> env" where
  "register_with c snapshot E =
     (case net_op c (transmit snapshot) (NewWriter (net E c)) (net E) of
        (Some e, w, n) \<Rightarrow> (Some e, E\<lparr>net := n\<rparr>)
      | (None, w, n) \<Rightarrow>
          (None, E\<lparr>net := n, mgr := (mgr E)\<lparr>replicas := AList.update c w (replicas (mgr E))\<rparr>\<rparr>))"

definition RegisterReplica :: "connid \<Rightarrow> int64 \<Rightarrow> (nat \<Rightarrow> string list) \<Rightarrow>
    ('p, env) Store \<times> env \<Rightarrow> string option \<times> ('p, env) Store \<times> env" where
  "RegisterReplica c now orders st =
     (let (cache, E) = st; snapshot = Snapshot now orders cache; (e, E') = register_with c snapshot E
      in (e, cache, E'))"

subsection \<open>What reaches a replica\<close>

definition snapshot_commands :: "SnapshotEntry list \<Rightarrow> Value list" where
  "snapshot_commands snapshot = map (\<lambda>e. NewArray (Some (snapshot_args e))) snapshot"

lemma writes_write_snapshot:
  "writes (write_snapshot snapshot) (concat (map encode (snapshot_commands snapshot)))"
proof (induction snapshot)
  case (Cons e es)
  have "writes (WriteArray (Some (snapshot_args e))) (encode (NewArray (Some (snapshot_args e))))"
    using writes_WriteValue(2) [of "Some (snapshot_args e)"] by (simp add: New_defs)
  from writes_and_then [OF writes_wrap_err [OF this] Cons] show ?case by (simp add: snapshot_commands_def)
qed (simp add: snapshot_commands_def writes_nothing)

lemma sticky_flush:
  assumes "writes f bs" and "err w \<noteq> None"
  shows "fst (and_then f (wrap_err msg Writer_Flush) w) \<noteq> None"
  using writes_sticky [OF assms] assms(2)
  by (cases "f w"; cases "fst (f w)") (auto simp: and_then_def wrap_err_def Writer_Flush_def bufio_Flush_def)

lemma writes_transmit:
  "writes (transmit snapshot) (encode (NewSimpleString fullresync) @ concat (map encode (snapshot_commands snapshot)))"
proof -
  let ?g = "and_then (write_snapshot snapshot) (wrap_err ''failed to flush snapshot: '' Writer_Flush)"
  have "writes ?g (concat (map encode (snapshot_commands snapshot)) @ [])"
    unfolding Writer_Flush_def
    by (intro writes_and_then writes_write_snapshot writes_wrap_err writes_Flush)
  then have "writes (\<lambda>w. ?g (snd (Writer_Flush w))) (concat (map encode (snapshot_commands snapshot)))"
    unfolding Writer_Flush_def using sticky_flush [OF writes_write_snapshot]
    by (intro writes_after_ignored_flush) (simp_all add: Writer_Flush_def)
  from writes_and_then [OF writes_WriteSimpleString this, of fullresync] show ?thesis
    by (simp add: transmit_def New_defs)
qed

text \<open>
  A replica is \<open>healthy\<close> when its connection does not fail and its writer has no error and
  nothing left in its buffer; the manager leaves a healthy replica healthy.
\<close>

definition healthy :: "connid \<Rightarrow> env \<Rightarrow> bool" where
  "healthy c E \<longleftrightarrow> wf_map (replicas (mgr E)) \<and> limit (net E c) = None \<and>
     (\<exists>w. map_of (replicas (mgr E)) c = Some w \<and> err w = None \<and> buf w = [])"

lemma net_op_send:
  assumes "limit (n c) = None" and "err w = None" and "buf w = []"
  obtains w' where "net_op c (send v) w n = (None, w', n(c := wr w'))" "err w' = None" "buf w' = []"
    "wire (wr w') = wire (n c) @ encode v" "limit (wr w') = None"
proof -
  obtain w' where r: "send v (w\<lparr>wr := n c\<rparr>) = (None, w')" and "limit (wr w') = None"
    using writes_unlimited [OF writes_send, of "w\<lparr>wr := n c\<rparr>" v] assms by auto
  with that send_ok [OF _ r] assms show ?thesis by (simp add: net_op_def out_def)
qed

lemma broadcast_one_wf: "wf_map (replicas (mgr E)) \<Longrightarrow> wf_map (replicas (mgr (broadcast_one v c E)))"
  by (auto simp: broadcast_one_def split: option.split prod.split)

lemma fold_broadcast_wf:
  "wf_map (replicas (mgr E)) \<Longrightarrow> wf_map (replicas (mgr (fold (broadcast_one v) cs E)))"
  by (induction cs arbitrary: E) (simp_all add: broadcast_one_wf)

lemma handleStoreWrite_wf:
  "wf_map (replicas (mgr E)) \<Longrightarrow> wf_map (replicas (mgr (handleStoreWrite c k v d E)))"
  by (simp add: handleStoreWrite_def fold_broadcast_wf split: option.split)

lemma broadcast_one_other:
  assumes "c' \<noteq> c"
  shows "net (broadcast_one v c' E) c = net E c"
    "map_of (replicas (mgr (broadcast_one v c' E))) c = map_of (replicas (mgr E)) c"
  using assms by (auto simp: broadcast_one_def net_op_def split: option.split prod.split)

lemma fold_broadcast_other:
  "c \<notin> set cs \<Longrightarrow> net (fold (broadcast_one v) cs E) c = net E c \<and>
     map_of (replicas (mgr (fold (broadcast_one v) cs E))) c = map_of (replicas (mgr E)) c"
proof (induction cs arbitrary: E)
  case (Cons c' cs)
  then show ?case using broadcast_one_other [of c' c v E] by simp
qed simp

lemma handleStoreWrite_other:
  assumes "map_of (replicas (mgr E)) c = None"
  shows "net (handleStoreWrite cmd k v d E) c = net E c"
    "map_of (replicas (mgr (handleStoreWrite cmd k v d E))) c = None"
proof -
  have "c \<notin> set (keys_of (replicas (mgr E)))" using assms by (auto simp: gomap_simps)
  with assms fold_broadcast_other [OF this] show "net (handleStoreWrite cmd k v d E) c = net E c"
    "map_of (replicas (mgr (handleStoreWrite cmd k v d E))) c = None"
    by (simp_all add: handleStoreWrite_def split: option.split)
qed

lemma broadcast_one_healthy:
  assumes "healthy c E"
  shows "healthy c (broadcast_one v c E)" "wire (net (broadcast_one v c E) c) = wire (net E c) @ encode v"
proof -
  obtain w where w: "map_of (replicas (mgr E)) c = Some w" "err w = None" "buf w = []"
    using assms by (auto simp: healthy_def)
  obtain w' where r: "net_op c (send v) w (net E) = (None, w', (net E)(c := wr w'))" "err w' = None" "buf w' = []"
    "wire (wr w') = wire (net E c) @ encode v" "limit (wr w') = None"
    using net_op_send [OF _ w(2,3), of "net E" c v] assms by (auto simp: healthy_def)
  show "healthy c (broadcast_one v c E)" "wire (net (broadcast_one v c E) c) = wire (net E c) @ encode v"
    using assms w r by (auto simp: healthy_def broadcast_one_def)
qed

lemma healthy_cong:
  "healthy c E \<Longrightarrow> wf_map (replicas (mgr E')) \<Longrightarrow> net E' c = net E c \<Longrightarrow>
     map_of (replicas (mgr E')) c = map_of (replicas (mgr E)) c \<Longrightarrow> healthy c E'"
  by (simp add: healthy_def)

lemma broadcast_others_healthy:
  assumes "healthy c E" and "c \<notin> set cs"
  shows "healthy c (fold (broadcast_one v) cs E) \<and> net (fold (broadcast_one v) cs E) c = net E c"
  using assms
proof (induction cs arbitrary: E)
  case (Cons c' cs)
  have "healthy c (broadcast_one v c' E)"
    using Cons.prems broadcast_one_other [of c' c v E]
    by (intro healthy_cong [OF Cons.prems(1)] broadcast_one_wf) (auto simp: healthy_def)
  with Cons broadcast_one_other [of c' c v E] show ?case by simp
qed simp

lemma broadcast_healthy:
  assumes "healthy c E" and "distinct cs" and "c \<in> set cs"
  shows "healthy c (fold (broadcast_one v) cs E) \<and>
    wire (net (fold (broadcast_one v) cs E) c) = wire (net E c) @ encode v"
proof -
  obtain xs ys where cs: "cs = xs @ c # ys" using assms(3) by (meson split_list)
  with assms(2) have "c \<notin> set xs" "c \<notin> set ys" by auto
  with broadcast_others_healthy [OF assms(1), of xs v]
  have 1: "healthy c (fold (broadcast_one v) xs E)" "net (fold (broadcast_one v) xs E) c = net E c" by auto
  from broadcast_others_healthy [OF broadcast_one_healthy(1) [OF 1(1)] \<open>c \<notin> set ys\<close>]
    broadcast_one_healthy(2) [OF 1(1), of v] 1(2)
  show ?thesis by (simp add: cs)
qed

lemma handleStoreWrite_healthy:
  assumes "healthy c E" and "mutation_args cmdName k v ttl = Some args"
  shows "healthy c (handleStoreWrite cmdName k v ttl E) \<and>
    wire (net (handleStoreWrite cmdName k v ttl E) c) = wire (net E c) @ encode (NewArray (Some args))"
proof -
  obtain w where "map_of (replicas (mgr E)) c = Some w" using assms(1) by (auto simp: healthy_def)
  then have "c \<in> set (keys_of (replicas (mgr E)))" "replicas (mgr E) \<noteq> []"
    by (auto simp: gomap_simps)
  with assms broadcast_healthy [OF assms(1), of "keys_of (replicas (mgr E))"] show ?thesis
    by (simp add: handleStoreWrite_def healthy_def)
qed

text \<open>A registration that succeeds has delivered the header and the whole snapshot.\<close>

lemma register_with_ok:
  assumes "wf_map (replicas (mgr E))" and "limit (net E c) = None"
  shows "fst (register_with c snapshot E) = None \<and> healthy c (snd (register_with c snapshot E)) \<and>
    wire (net (snd (register_with c snapshot E)) c) =
      wire (net E c) @ encode (NewSimpleString fullresync) @ concat (map encode (snapshot_commands snapshot))"
proof -
  let ?w = "(NewWriter (net E c))\<lparr>wr := net E c\<rparr>"
  obtain w' where r: "transmit snapshot ?w = (None, w')" and l: "limit (wr w') = None"
    and a: "appended (encode (NewSimpleString fullresync) @ concat (map encode (snapshot_commands snapshot))) ?w w'"
    using writes_unlimited [OF writes_transmit, of ?w snapshot] assms(2)
    by (auto simp: NewWriter_def bufio_NewWriter_def)
  have "buf w' = []"
    using r Flush_None_buf
    by (auto simp: transmit_def and_then_def wrap_err_def Writer_Flush_def split: prod.splits option.splits)
  with assms r l a show ?thesis
    by (simp add: register_with_def net_op_def healthy_def appended_def out_def NewWriter_def bufio_NewWriter_def)
qed

subsection \<open>A replica's connection that fails\<close>

text \<open>
  Either everything sent so far is on the wire and the writer is idle, or a write has
  failed: then the replica is marked for removal, and what is on the wire is an initial
  part of what was sent, which stays so because the writer's error is sticky.
\<close>

definition in_step :: "connid \<Rightarrow> bytes \<Rightarrow> env \<Rightarrow> bool" where
  "in_step c sent E \<longleftrightarrow> wf_map (replicas (mgr E)) \<and>
     (\<exists>w. map_of (replicas (mgr E)) c = Some w \<and>
        (if err w = None then buf w = [] \<and> wire (net E c) = sent
         else c \<in> set (unregistering E) \<and> prefix (wire (net E c)) sent))"

lemma broadcast_one_marks: "set (unregistering E) \<subseteq> set (unregistering (broadcast_one v c E))"
  by (auto simp: broadcast_one_def split: option.split prod.split)

lemma in_step_other:
  assumes "in_step c sent E" and "c \<notin> set cs"
  shows "in_step c sent (fold (broadcast_one v) cs E)"
  using assms
proof (induction cs arbitrary: E)
  case (Cons c' cs)
  then have "in_step c sent (broadcast_one v c' E)"
    using broadcast_one_other [of c' c v E] broadcast_one_wf [of E v c'] broadcast_one_marks [of E v c']
    by (auto simp: in_step_def split: if_splits)
  with Cons show ?case by simp
qed simp

lemma in_step_one:
  assumes "in_step c sent E"
  shows "in_step c (sent @ encode v) (broadcast_one v c E)"
proof -
  obtain w where w: "map_of (replicas (mgr E)) c = Some w"
    "if err w = None then buf w = [] \<and> wire (net E c) = sent
     else c \<in> set (unregistering E) \<and> prefix (wire (net E c)) sent"
    and wf: "wf_map (replicas (mgr E))" using assms by (auto simp: in_step_def)
  let ?w = "w\<lparr>wr := net E c\<rparr>"
  obtain e w' where s: "send v ?w = (e, w')" by fastforce
  have post: "if err w' = None then buf w' = [] \<and> wire (wr w') = sent @ encode v
     else (e \<noteq> None \<or> c \<in> set (unregistering E)) \<and> prefix (wire (wr w')) (sent @ encode v)"
  proof (cases "err w = None")
    case True
    then have e: "err ?w = None" "out ?w = sent" using w(2) by (simp_all add: out_def)
    show ?thesis
      using send_ok [OF e(1)] writes_refused [OF writes_send e(1), of v] s e(2)
      by (cases e) (auto simp: refused_def)
  next
    case False
    then have "w' = ?w" using writes_sticky [OF writes_send, of ?w v] s by simp
    with False w(2) show ?thesis by (auto intro: prefix_prefix)
  qed
  with w(1) wf s show ?thesis by (auto simp: in_step_def broadcast_one_def net_op_def split: if_splits)
qed

lemma handleStoreWrite_in_step:
  assumes "in_step c sent E" and "mutation_args cmd k v ttl = Some args"
  shows "in_step c (sent @ encode (NewArray (Some args))) (handleStoreWrite cmd k v ttl E)"
proof -
  have "c \<in> set (keys_of (replicas (mgr E)))" "replicas (mgr E) \<noteq> []" "distinct (keys_of (replicas (mgr E)))"
    using assms(1) by (auto simp: in_step_def gomap_simps)
  then obtain xs ys where cs: "keys_of (replicas (mgr E)) = xs @ c # ys" "c \<notin> set xs" "c \<notin> set ys"
    by (metis distinct.simps(2) distinct_append not_distinct_conv_prefix split_list_first)
  have "in_step c (sent @ encode (NewArray (Some args)))
      (fold (broadcast_one (NewArray (Some args))) (keys_of (replicas (mgr E))) E)"
    unfolding cs(1) fold_append fold.simps comp_apply
    by (intro in_step_other in_step_one assms(1) cs)
  with \<open>replicas (mgr E) \<noteq> []\<close> assms(2) show ?thesis by (simp add: handleStoreWrite_def)
qed

end
