(* ===== verification/Resp_Reader.thy ===== *)
theory Resp_Reader
  imports Resp_Value Go_Bufio Go_Text
begin

text \<open>
  \<open>internal/resp/reader.go\<close>: the streaming parser. A reader consumes the bytes that are
  still to arrive on its connection; \<open>fin\<close> is the error the connection returns after the
  last of them. The outcome is a value with the rest of the stream, an error, or the
  run-time panic of \<open>make\<close> on a length beyond the address space. Two allocations take
  their size from the peer: the bytes of a bulk string, and 88 bytes (the size of the
  struct) for each element of an array.

  The parser calls itself on the elements of an array; it ends because every frame
  consumes at least its prefix byte.
\<close>

datatype RespErr = IOError IOErr | ErrUnterminated | ErrInvalidSyntax string

fun RespErr_Error :: "RespErr \<Rightarrow> string" where
  "RespErr_Error (IOError e) = IOErr_Error e"
| "RespErr_Error ErrUnterminated = ''ERR unterminated RESP line''"
| "RespErr_Error (ErrInvalidSyntax detail) = ''ERR invalid RESP syntax: '' @ detail"

datatype 'a read = Got 'a bytes | Fail RespErr | Panic string

definition sizeof_Value :: nat where "sizeof_Value = 88"

definition CR :: byte where "CR = CHR 0x0D"
definition LF :: byte where "LF = CHR 0x0A"

text \<open>The verb \<open>%c\<close> prints a byte as the UTF-8 encoding of the code point it denotes.\<close>

definition format_c :: "byte \<Rightarrow> string" where
  "format_c b =
     (let n = of_char b :: nat
      in if n < 128 then [b] else [char_of (192 + n div 64), char_of (128 + n mod 64)])"

definition readLine :: "IOErr \<Rightarrow> bytes \<Rightarrow> bytes read" where
  "readLine fin s =
     (case ReadBytes fin LF s of
        Inl e \<Rightarrow> Fail (IOError e)
      | Inr (line, rest) \<Rightarrow>
          if length line < 2 \<or> line ! (length line - 2) \<noteq> CR then Fail ErrUnterminated
          else Got (take (length line - 2) line) rest)"

definition readBulk :: "IOErr \<Rightarrow> bytes \<Rightarrow> Value read" where
  "readBulk fin s =
     (case readLine fin s of
        Fail e \<Rightarrow> Fail e
      | Panic p \<Rightarrow> Panic p
      | Got line rest \<Rightarrow>
          case Atoi line of
            (_, Some _) \<Rightarrow> Fail (ErrInvalidSyntax ''invalid bulk length'')
          | (len, None) \<Rightarrow>
              if len <s 0 then Got NewNullBulkString rest
              else if maxAlloc < nat (sint len) then Panic makeslice_panic
              else case ReadFull fin (nat (sint len)) rest of
                     Inl e \<Rightarrow> Fail (IOError e)
                   | Inr (b, rest2) \<Rightarrow>
                       case ReadFull fin 2 rest2 of
                         Inl e \<Rightarrow> Fail (IOError e)
                       | Inr (crlf, rest3) \<Rightarrow>
                           if crlf ! 0 \<noteq> CR \<or> crlf ! 1 \<noteq> LF
                           then Fail (ErrInvalidSyntax ''expected CRLF after bulk data'')
                           else Got (NewBulkStringBytes (Some b)) rest3)"

function ReadValue :: "IOErr \<Rightarrow> bytes \<Rightarrow> Value read"
  and readArray :: "IOErr \<Rightarrow> bytes \<Rightarrow> Value read"
  and read_elements :: "IOErr \<Rightarrow> nat \<Rightarrow> bytes \<Rightarrow> Value list read" where
  "ReadValue fin s =
     (case s of
        [] \<Rightarrow> Fail (IOError fin)
      | tag # rest \<Rightarrow>
          if tag = TypeSimpleString then
            (case readLine fin rest of Fail e \<Rightarrow> Fail e | Panic p \<Rightarrow> Panic p
             | Got line rest2 \<Rightarrow> Got (NewSimpleString line) rest2)
          else if tag = TypeError then
            (case readLine fin rest of Fail e \<Rightarrow> Fail e | Panic p \<Rightarrow> Panic p
             | Got line rest2 \<Rightarrow> Got (NewError line) rest2)
          else if tag = TypeInteger then
            (case readLine fin rest of Fail e \<Rightarrow> Fail e | Panic p \<Rightarrow> Panic p
             | Got line rest2 \<Rightarrow>
                 case ParseInt line of
                   (_, Some _) \<Rightarrow> Fail (ErrInvalidSyntax ''invalid integer format'')
                 | (n, None) \<Rightarrow> Got (NewInteger n) rest2)
          else if tag = TypeBulkString then readBulk fin rest
          else if tag = TypeArray then readArray fin rest
          else Fail (ErrInvalidSyntax (''unknown prefix '' @ [CHR 0x27] @ format_c tag @ [CHR 0x27])))"
| "readArray fin s =
     (case readLine fin s of
        Fail e \<Rightarrow> Fail e
      | Panic p \<Rightarrow> Panic p
      | Got line rest \<Rightarrow>
          case Atoi line of
            (_, Some _) \<Rightarrow> Fail (ErrInvalidSyntax ''invalid array count'')
          | (count, None) \<Rightarrow>
              if count <s 0 then Got (NewArray None) rest
              else if maxAlloc < sizeof_Value * nat (sint count) then Panic makeslice_panic
              else case read_elements fin (nat (sint count)) rest of
                     Fail e \<Rightarrow> Fail e
                   | Panic p \<Rightarrow> Panic p
                   | Got elements rest2 \<Rightarrow> Got (NewArray (Some elements)) rest2)"
| "read_elements fin n s =
     (if n = 0 then Got [] s
      else case ReadValue fin s of
             Fail e \<Rightarrow> Fail e
           | Panic p \<Rightarrow> Panic p
           | Got val rest \<Rightarrow>
               case read_elements fin (n - 1) rest of
                 Fail e \<Rightarrow> Fail e
               | Panic p \<Rightarrow> Panic p
               | Got vals rest2 \<Rightarrow> Got (val # vals) rest2)"
  by pat_completeness auto

subsection \<open>Termination: every frame consumes input\<close>

text \<open>\<open>eats r s\<close>: if \<open>r\<close> is a success, its rest is a proper suffix of \<open>s\<close>.\<close>

definition eats :: "'a read \<Rightarrow> bytes \<Rightarrow> bool" where
  "eats r s = (case r of Got x rest \<Rightarrow> strict_suffix rest s | _ \<Rightarrow> True)"

lemma eats_simps [simp]: "eats (Fail e) s" "eats (Panic p) s"
  "eats (Got x rest) s \<longleftrightarrow> strict_suffix rest s"
  by (simp_all add: eats_def)

lemma strict_suffix_Cons: "strict_suffix r s \<Longrightarrow> strict_suffix r (c # s)"
  by (metis length_Cons less_SucI less_irrefl strict_suffix_def suffix_ConsI suffix_length_less)

lemma eats_trans: "strict_suffix rest s \<Longrightarrow> eats r rest \<Longrightarrow> eats r s"
  by (cases r) (auto intro: suffix_order.less_trans)

lemma eats_Cons: "eats r s \<Longrightarrow> eats r (c # s)"
  by (cases r) (simp_all add: strict_suffix_Cons)

lemma strict_suffix_append: "used \<noteq> [] \<Longrightarrow> strict_suffix rest (used @ rest)"
  by (simp add: strict_suffix_def suffix_def)

lemma readLine_eats: "eats (readLine fin s) s"
proof (cases "ReadBytes fin LF s")
  case (Inr lr)
  obtain l rest where lr: "lr = (l, rest)" by fastforce
  with Inr have "s = l @ rest" "l \<noteq> []" using ReadBytes_split [of fin LF s l rest] by auto
  with Inr lr show ?thesis by (simp add: readLine_def strict_suffix_append)
qed (simp add: readLine_def)

lemma strict_suffix_appendD: "strict_suffix (used @ rest) s \<Longrightarrow> strict_suffix rest s"
  by (meson suffixI suffix_order.le_less_trans)

lemma readBulk_eats: "eats (readBulk fin s) s"
proof (cases "readLine fin s")
  case (Got line rest)
  with readLine_eats [of fin s] have "strict_suffix rest s" by simp
  with Got show ?thesis
    by (auto simp: readBulk_def split: prod.splits option.splits sum.splits
        dest!: ReadFull_split dest: strict_suffix_appendD)
qed (simp_all add: readBulk_def)

lemma ReadValue_eats_dom:
  "ReadValue_readArray_read_elements_dom (Inl (fin, s)) \<Longrightarrow> eats (ReadValue fin s) s"
  "ReadValue_readArray_read_elements_dom (Inr (Inl (fin, s))) \<Longrightarrow> eats (readArray fin s) s"
  "ReadValue_readArray_read_elements_dom (Inr (Inr (fin, n, s))) \<Longrightarrow>
     (case read_elements fin n s of Got x rest \<Rightarrow> suffix rest s | _ \<Rightarrow> True)"
proof (induction fin s and fin s and fin n s rule: ReadValue_readArray_read_elements.pinduct)
  case (1 fin s)
  show ?case
  proof (cases s)
    case (Cons c cs)
    have "eats (readArray fin cs) cs" if "c = TypeArray"
      using 1(2) [OF Cons] that by simp
    then show ?thesis
      using readLine_eats [of fin cs] readBulk_eats [of fin cs] 1(1)
      by (auto simp: ReadValue.psimps Cons strict_suffix_Cons eats_Cons split: read.splits prod.splits option.splits)
  qed (use 1 in \<open>simp add: ReadValue.psimps\<close>)
next
  case (2 fin s)
  show ?case
  proof (cases "readLine fin s")
    case (Got line rest)
    obtain count e where at: "Atoi line = (count, e)" by fastforce
    have suf: "strict_suffix rest s" using readLine_eats [of fin s] Got by simp
    have "case read_elements fin (nat (sint count)) rest of Got x r \<Rightarrow> suffix r rest | _ \<Rightarrow> True"
      if "e = None" "\<not> count <s 0" "\<not> maxAlloc < sizeof_Value * nat (sint count)"
      using 2(2) [OF Got at [symmetric]] that by simp
    with 2(1) Got at suf show ?thesis
      by (auto simp: readArray.psimps split: read.splits option.splits
          intro: suffix_order.le_less_trans [OF _ suf])
  qed (use 2(1) in \<open>simp_all add: readArray.psimps\<close>)
next
  case (3 fin n s)
  then show ?case
    by (auto simp: read_elements.psimps split: read.splits
        dest!: suffix_order.less_imp_le intro: suffix_order.trans)
qed

lemma reader_total: "All ReadValue_readArray_read_elements_dom"
proof (relation "measures
    [case_sum (\<lambda>(fin, s). length s) (case_sum (\<lambda>(fin, s). length s) (\<lambda>(fin, n, s). length s)),
     case_sum (\<lambda>_. 0) (case_sum (\<lambda>_. 0) (\<lambda>_. 1))]", goal_cases)
  case (3 fin s line rest)
  then show ?case using readLine_eats [of fin s] by (auto dest: suffix_length_less)
next
  case (5 fin n s val rest)
  then show ?case using ReadValue_eats_dom(1) [of fin s] by (auto dest: suffix_length_less)
qed auto

termination ReadValue
  by (rule reader_total)

lemma ReadValue_eats: "eats (ReadValue fin s) s"
  by (rule ReadValue_eats_dom(1)) (rule reader_total [THEN spec])

declare ReadValue.simps [simp del] readArray.simps [simp del] read_elements.simps [simp del]

end
