(* ===== verification/Resp_Protocol.thy ===== *)
theory Resp_Protocol
  imports Resp_Reader Resp_Writer
begin

text \<open>
  Encoder and parser together: the values that survive the wire, the round trip, the
  independence of the parser from what follows a frame, and what goes wrong with a line
  feed in a simple string or with a length that is too large.
\<close>

subsection \<open>Lines\<close>

lemma crlf_CR_LF: "crlf = [CR, LF]"
  by (simp add: crlf_def CR_def LF_def)

lemma readLine_crlf:
  assumes "LF \<notin> set l"
  shows "readLine fin (l @ crlf @ rest) = Got l rest"
proof -
  have "ReadBytes fin LF ((l @ [CR]) @ LF # rest) = Inr ((l @ [CR]) @ [LF], rest)"
    by (rule ReadBytes_append) (use assms in \<open>simp add: CR_def LF_def\<close>)
  then show ?thesis by (simp add: readLine_def crlf_CR_LF nth_append)
qed

lemma readLine_inverse:
  assumes "readLine fin s = Got l rest"
  shows "s = l @ crlf @ rest" and "LF \<notin> set l"
proof -
  obtain line where rb: "ReadBytes fin LF s = Inr (line, rest)"
    and ok: "\<not> length line < 2" "line ! (length line - 2) = CR" and l: "l = take (length line - 2) line"
    using assms by (auto simp: readLine_def split: sum.splits if_splits)
  obtain l' where line: "line = l' @ [LF]" "LF \<notin> set l'" and s: "s = line @ rest"
    using ReadBytes_split [OF rb] by auto
  obtain l'' c where l': "l' = l'' @ [c]" using ok(1) line by (cases l' rule: rev_cases) auto
  with ok line have "c = CR" by (simp add: nth_append)
  with l l' line s show "s = l @ crlf @ rest" "LF \<notin> set l" by (auto simp: crlf_CR_LF)
qed

lemma readLine_Panic [simp]: "readLine fin s \<noteq> Panic p"
  by (simp add: readLine_def split: sum.split)

subsection \<open>Values that survive the wire\<close>

fun wire_ok :: "Value \<Rightarrow> bool" and wire_ok_array :: "Value slice \<Rightarrow> bool" where
  "wire_ok (MkValue ty str num bulk arr nil) \<longleftrightarrow>
     (let v = MkValue ty str num bulk arr nil
      in v = NewSimpleString str \<and> LF \<notin> set str \<or>
         v = NewError str \<and> LF \<notin> set str \<or>
         v = NewInteger num \<or>
         v = NewBulkString bulk \<and> length (elems bulk) \<le> maxAlloc \<or>
         v = NewArray arr \<and> wire_ok_array arr)"
| "wire_ok_array None \<longleftrightarrow> True"
| "wire_ok_array (Some vs) \<longleftrightarrow> sizeof_Value * length vs \<le> maxAlloc \<and> list_all wire_ok vs"

lemma wire_ok_cases:
  assumes "wire_ok v"
  obtains (simple) s where "v = NewSimpleString s" "LF \<notin> set s"
    | (error) s where "v = NewError s" "LF \<notin> set s"
    | (integer) n where "v = NewInteger n"
    | (null) "v = NewNullBulkString"
    | (bulk) b where "v = NewBulkString (Some b)" "length b \<le> maxAlloc"
    | (null_array) "v = NewArray None"
    | (array) vs where "v = NewArray (Some vs)" "sizeof_Value * length vs \<le> maxAlloc" "list_all wire_ok vs"
  using assms
  by (cases v; cases "Bulk v"; cases "Array v") (auto simp: New_defs Let_def split: option.splits)

lemma wire_ok_New:
  "wire_ok (NewSimpleString s) \<longleftrightarrow> LF \<notin> set s"
  "wire_ok (NewError s) \<longleftrightarrow> LF \<notin> set s"
  "wire_ok (NewInteger n)"
  "wire_ok NewNullBulkString"
  "wire_ok (NewBulkString b) \<longleftrightarrow> length (elems b) \<le> maxAlloc"
  "wire_ok (NewArray a) \<longleftrightarrow> wire_ok_array a"
  by (auto simp: New_defs Let_def split: option.splits)

lemma wire_ok_FromString: "wire_ok (NewBulkStringFromString s) \<longleftrightarrow> length s \<le> maxAlloc"
  by (auto simp: New_defs Let_def split: option.splits)

subsection \<open>Round trip\<close>

lemma LF_number [simp]: "LF \<notin> set (FormatInt n)" "LF \<notin> set (Itoa m)"
  by (simp_all add: LF_def)

lemma maxAlloc_int64: "n \<le> maxAlloc \<Longrightarrow> n < 2 ^ 63"
  by (simp add: maxAlloc_def)

lemma Atoi_length:
  assumes "n \<le> maxAlloc"
  shows "Atoi (Itoa n) = (word_of_nat n, None)" "\<not> word_of_nat n <s (0 :: 64 word)"
    "nat (sint (word_of_nat n :: 64 word)) = n"
  using Atoi_Itoa [OF maxAlloc_int64 [OF assms]] sint_word_of_nat [OF maxAlloc_int64 [OF assms]]
  by (simp_all add: signed_simps)

lemma Atoi_minus_1: "Atoi ''-1'' = (- 1, None)" "(- 1 :: 64 word) <s 0"
  by (simp_all add: Atoi_def ParseInt_def ParseUint_def is_digit_def digit_val_def signed_simps)

lemma readBulk_encode:
  assumes "length b \<le> maxAlloc"
  shows "readBulk fin (Itoa (length b) @ crlf @ b @ crlf @ rest) = Got (NewBulkString (Some b)) rest"
  using assms
  by (simp add: readBulk_def readLine_crlf Atoi_length ReadFull_append)
    (simp add: ReadFull_def crlf_CR_LF New_defs)

lemma read_elements_encode:
  assumes "\<forall>v\<in>set vs. \<forall>rest. ReadValue fin (encode v @ rest) = Got v rest"
  shows "read_elements fin (length vs) (concat (map encode vs) @ rest) = Got vs rest"
  using assms
  by (induction vs arbitrary: rest) (simp_all add: read_elements.simps)

lemma readArray_encode:
  assumes "sizeof_Value * length vs \<le> maxAlloc"
    and "\<forall>v\<in>set vs. \<forall>rest. ReadValue fin (encode v @ rest) = Got v rest"
  shows "readArray fin (Itoa (length vs) @ crlf @ concat (map encode vs) @ rest) = Got (NewArray (Some vs)) rest"
proof -
  have "length vs \<le> maxAlloc" using assms(1) by (simp add: sizeof_Value_def)
  then show ?thesis using assms
    by (subst readArray.simps) (simp add: readLine_crlf Atoi_length read_elements_encode)
qed

lemma ReadValue_Cons:
  "ReadValue fin (CHR ''+'' # s) =
     (case readLine fin s of Got line rest \<Rightarrow> Got (NewSimpleString line) rest | Fail e \<Rightarrow> Fail e | Panic p \<Rightarrow> Panic p)"
  "ReadValue fin (CHR ''-'' # s) =
     (case readLine fin s of Got line rest \<Rightarrow> Got (NewError line) rest | Fail e \<Rightarrow> Fail e | Panic p \<Rightarrow> Panic p)"
  "ReadValue fin (CHR '':'' # s) =
     (case readLine fin s of Fail e \<Rightarrow> Fail e | Panic p \<Rightarrow> Panic p
      | Got line rest \<Rightarrow> case ParseInt line of
          (_, Some _) \<Rightarrow> Fail (ErrInvalidSyntax ''invalid integer format'')
        | (n, None) \<Rightarrow> Got (NewInteger n) rest)"
  "ReadValue fin (CHR ''$'' # s) = readBulk fin s"
  "ReadValue fin (CHR ''*'' # s) = readArray fin s"
  by (simp_all add: ReadValue.simps [of fin "_ # s"] Type_defs)

lemma tag_cases:
  obtains "c = CHR ''+''" | "c = CHR ''-''" | "c = CHR '':''" | "c = CHR ''$''" | "c = CHR ''*''"
    | "c \<notin> set ''+-:$*''"
  by auto

lemma ReadValue_other:
  "c \<notin> set ''+-:$*'' \<Longrightarrow>
     ReadValue fin (c # s) = Fail (ErrInvalidSyntax (''unknown prefix '' @ [CHR 0x27] @ format_c c @ [CHR 0x27]))"
  by (simp add: ReadValue.simps [of fin "_ # s"] Type_defs)

lemma encode_New:
  "encode (NewSimpleString s) = CHR ''+'' # s @ crlf"
  "encode (NewError s) = CHR ''-'' # s @ crlf"
  "encode (NewInteger n) = CHR '':'' # FormatInt n @ crlf"
  "encode NewNullBulkString = CHR ''$'' # ''-1'' @ crlf"
  "encode (NewBulkString (Some b)) = CHR ''$'' # Itoa (length b) @ crlf @ b @ crlf"
  "encode (NewArray None) = CHR ''*'' # ''-1'' @ crlf"
  "encode (NewArray (Some vs)) = CHR ''*'' # Itoa (length vs) @ crlf @ concat (map encode vs)"
  by (simp_all add: New_defs)

lemma readLine_minus_1: "readLine fin (CHR ''-'' # CHR ''1'' # crlf @ rest) = Got ''-1'' rest"
  using readLine_crlf [of "''-1''" fin rest] by (simp add: LF_def)

lemma ReadValue_null:
  "ReadValue fin (encode NewNullBulkString @ rest) = Got NewNullBulkString rest"
  "ReadValue fin (encode (NewArray None) @ rest) = Got (NewArray None) rest"
  by (simp_all add: encode_New ReadValue_Cons readBulk_def readArray.simps readLine_minus_1 Atoi_minus_1)

theorem ReadValue_encode: "wire_ok v \<Longrightarrow> ReadValue fin (encode v @ rest) = Got v rest"
proof (induction v arbitrary: rest)
  case (MkValue ty str num bulk arr nil)
  from MkValue.prems show ?case
  proof (cases rule: wire_ok_cases)
    case (array vs)
    then have "arr = Some vs" by (simp add: New_defs)
    with MkValue.IH array(3) have "\<forall>v\<in>set vs. \<forall>rest. ReadValue fin (encode v @ rest) = Got v rest"
      by (auto simp: list_all_iff)
    from readArray_encode [OF array(2) this] show ?thesis
      unfolding array(1) by (simp add: encode_New ReadValue_Cons)
  qed (simp_all only: ReadValue_null,
       simp_all add: encode_New ReadValue_Cons readLine_crlf readBulk_encode)
qed

subsection \<open>Frames are self-delimiting\<close>

lemma readLine_extend: "readLine fin s = Got l rest \<Longrightarrow> readLine fin' (s @ t) = Got l (rest @ t)"
  using readLine_inverse [of fin s l rest] readLine_crlf [of l fin' "rest @ t"] by simp

lemma ReadFull_extend: "ReadFull fin n s = Inr (b, rest) \<Longrightarrow> ReadFull fin' n (s @ t) = Inr (b, rest @ t)"
  by (auto simp: ReadFull_def split: if_splits)

lemma readBulk_inverse:
  assumes "readBulk fin s = Got v rest"
  obtains (null) line len where "readLine fin s = Got line rest" "Atoi line = (len, None)" "len <s 0"
      "v = NewNullBulkString"
    | (bulk) line len b where "readLine fin s = Got line (b @ crlf @ rest)" "Atoi line = (len, None)"
      "\<not> len <s 0" "\<not> maxAlloc < nat (sint len)" "length b = nat (sint len)" "v = NewBulkString (Some b)"
proof -
  obtain line r where l: "readLine fin s = Got line r"
    using assms by (auto simp: readBulk_def split: read.splits)
  obtain len where at: "Atoi line = (len, None)"
    using assms l by (auto simp: readBulk_def split: prod.splits option.splits)
  show thesis
  proof (cases "len <s 0")
    case True
    with assms l at show ?thesis by (intro null) (auto simp: readBulk_def)
  next
    case False
    then have ok: "\<not> maxAlloc < nat (sint len)" using assms l at by (auto simp: readBulk_def)
    obtain b r2 where b: "ReadFull fin (nat (sint len)) r = Inr (b, r2)"
      using assms l at False ok by (auto simp: readBulk_def split: sum.splits)
    obtain cl where c: "ReadFull fin 2 r2 = Inr (cl, rest)" "cl ! 0 = CR" "cl ! 1 = LF" "v = NewBulkString (Some b)"
      using assms l at False ok b by (auto simp: readBulk_def New_defs split: sum.splits if_splits)
    have "cl = crlf" using c(2,3) ReadFull_split [OF c(1)]
      by (auto simp: crlf_CR_LF length_Suc_conv numeral_2_eq_2)
    then have "r = b @ crlf @ rest" "length b = nat (sint len)"
      using ReadFull_split [OF b] ReadFull_split [OF c(1)] by simp_all
    with l at False ok c(4) show ?thesis by (intro bulk) simp_all
  qed
qed

lemma readBulk_intro:
  assumes "readLine fin s = Got line (b @ crlf @ rest)" "Atoi line = (len, None)"
    "\<not> len <s 0" "\<not> maxAlloc < nat (sint len)" "length b = nat (sint len)"
  shows "readBulk fin s = Got (NewBulkString (Some b)) rest"
proof -
  have "ReadFull fin (nat (sint len)) (b @ crlf @ rest) = Inr (b, crlf @ rest)"
    by (rule ReadFull_append) (use assms(5) in simp)
  with assms show ?thesis
    by (simp add: readBulk_def) (simp add: ReadFull_def crlf_CR_LF New_defs)
qed

lemma readBulk_extend:
  assumes "readBulk fin s = Got v rest"
  shows "readBulk fin' (s @ t) = Got v (rest @ t)"
  using assms
proof (cases rule: readBulk_inverse)
  case (null line len)
  then show ?thesis using readLine_extend [OF null(1), of fin' t] by (simp add: readBulk_def)
next
  case (bulk line len b)
  then show ?thesis using readLine_extend [OF bulk(1), of fin' t] by (auto intro: readBulk_intro)
qed

lemma ReadValue_extend:
  "ReadValue fin s = Got v rest \<Longrightarrow> ReadValue fin' (s @ t) = Got v (rest @ t)"
  "readArray fin s = Got v rest \<Longrightarrow> readArray fin' (s @ t) = Got v (rest @ t)"
  "read_elements fin n s = Got vs rest \<Longrightarrow> read_elements fin' n (s @ t) = Got vs (rest @ t)"
proof (induction fin s and fin s and fin n s arbitrary: v rest and v rest and vs rest
    rule: ReadValue_readArray_read_elements.induct)
  case (1 fin s)
  show ?case
  proof (cases s)
    case (Cons c cs)
    have arr: "readArray fin' (cs @ t) = Got v (rest @ t)" if "readArray fin cs = Got v rest" "c = CHR ''*''"
      using 1(1) [OF Cons] that by (simp add: Type_defs)
    from 1(2) Cons show ?thesis
      by (cases rule: tag_cases [of c])
        (auto simp: ReadValue_Cons ReadValue_other arr readBulk_extend
          dest!: readLine_extend [where fin = fin and fin' = fin' and t = t]
          split: read.splits prod.splits option.splits)
  qed (use 1(2) in \<open>simp add: ReadValue.simps\<close>)
next
  case (2 fin s)
  then obtain line r where l: "readLine fin s = Got line r"
    by (auto simp: readArray.simps [of fin s] split: read.splits)
  obtain count e where at: "Atoi line = (count, e)" by fastforce
  have "read_elements fin' (nat (sint count)) (r @ t) = Got vs (r' @ t)"
    if "e = None" "\<not> count <s 0" "\<not> maxAlloc < sizeof_Value * nat (sint count)"
      "read_elements fin (nat (sint count)) r = Got vs r'" for vs r'
    using 2(1) [OF l at [symmetric]] that by simp
  with 2(2) l at readLine_extend [OF l, of fin' t] show ?case
    by (auto simp: readArray.simps [of fin s] readArray.simps [of fin' "s @ t"]
        split: read.splits option.splits if_splits)
next
  case (3 fin n s)
  show ?case
  proof (cases "n = 0")
    case False
    then obtain val r where v: "ReadValue fin s = Got val r"
      using 3(3) by (auto simp: read_elements.simps [of fin n s] split: read.splits)
    with 3(1,2) False have "ReadValue fin' (s @ t) = Got val (r @ t)"
      "\<And>vs rest. read_elements fin (n - 1) r = Got vs rest \<Longrightarrow> read_elements fin' (n - 1) (r @ t) = Got vs (rest @ t)"
      by simp_all
    with 3(3) False v show ?thesis
      by (auto simp: read_elements.simps [of fin n s] read_elements.simps [of fin' n "s @ t"] split: read.splits)
  qed (use 3(3) in \<open>simp add: read_elements.simps\<close>)
qed

subsection \<open>What the parser can return\<close>

lemma readBulk_wire_ok: "readBulk fin s = Got v rest \<Longrightarrow> wire_ok v"
  by (erule readBulk_inverse) (simp_all add: wire_ok_New)

lemma length_read_elements: "read_elements fin n s = Got vs rest \<Longrightarrow> length vs = n"
proof (induction n arbitrary: s vs)
  case (Suc n)
  then show ?case by (auto simp: read_elements.simps [of fin "Suc n"] split: read.splits)
qed (simp add: read_elements.simps)

lemma read_wire_ok:
  "ReadValue fin s = Got v rest \<Longrightarrow> wire_ok v"
  "readArray fin s = Got v rest \<Longrightarrow> wire_ok v"
  "read_elements fin n s = Got vs rest \<Longrightarrow> list_all wire_ok vs"
proof (induction fin s and fin s and fin n s arbitrary: v rest and v rest and vs rest
    rule: ReadValue_readArray_read_elements.induct)
  case (1 fin s)
  show ?case
  proof (cases s)
    case (Cons c cs)
    have arr: "wire_ok v" if "readArray fin cs = Got v rest" "c = CHR ''*''"
      using 1(1) [OF Cons] that by (simp add: Type_defs)
    from 1(2) Cons show ?thesis
      by (cases rule: tag_cases [of c])
        (auto simp: ReadValue_Cons ReadValue_other arr readBulk_wire_ok wire_ok_New dest: readLine_inverse(2)
          split: read.splits prod.splits option.splits)
  qed (use 1(2) in \<open>simp add: ReadValue.simps\<close>)
next
  case (2 fin s)
  then obtain line r where l: "readLine fin s = Got line r"
    by (auto simp: readArray.simps [of fin s] split: read.splits)
  obtain count e where at: "Atoi line = (count, e)" by fastforce
  have "list_all wire_ok vs \<and> length vs = nat (sint count)"
    if "e = None" "\<not> count <s 0" "\<not> maxAlloc < sizeof_Value * nat (sint count)"
      "read_elements fin (nat (sint count)) r = Got vs r'" for vs r'
    using 2(1) [OF l at [symmetric]] that length_read_elements by simp
  with 2(2) l at show ?case
    by (fastforce simp: readArray.simps [of fin s] wire_ok_New split: read.splits option.splits if_splits)
next
  case (3 fin n s)
  then show ?case
    by (cases "n = 0") (auto simp: read_elements.simps [of fin n s] read_elements.simps [of fin 0] split: read.splits)
qed

subsection \<open>Sequences of frames\<close>

text \<open>Several values sent one after the other on one writer.\<close>

fun send_all :: "Value list \<Rightarrow> write_op" where
  "send_all [] = (\<lambda>w. (None, w))"
| "send_all (v # vs) = and_then (send v) (send_all vs)"

lemma writes_send_all: "writes (send_all vs) (concat (map encode vs))"
  by (induction vs) (auto intro: writes_nothing writes_and_then writes_send)

lemma send_all_flushed: "buf w = [] \<Longrightarrow> err w = None \<Longrightarrow> send_all vs w = (None, w') \<Longrightarrow> buf w' = []"
proof (induction vs arbitrary: w)
  case (Cons v vs)
  then obtain w1 where "send v w = (None, w1)" "send_all vs w1 = (None, w')"
    by (auto simp: and_then_def split: prod.splits option.splits)
  with Cons send_ok [of w v w1] show ?case by blast
qed simp

lemma NewWriter_simps [simp]:
  "err (NewWriter c) = None" "buf (NewWriter c) = []" "wr (NewWriter c) = c" "out (NewWriter c) = wire c"
  by (simp_all add: NewWriter_def bufio_NewWriter_def out_def)

lemma send_all_ok:
  assumes "limit c = None"
  obtains w' where "send_all vs (NewWriter c) = (None, w')" "wire (wr w') = wire c @ concat (map encode vs)"
proof (cases "send_all vs (NewWriter c)")
  case (Pair e w')
  have "e = None"
    using Pair assms writes_refused [OF writes_send_all, of "NewWriter c" vs]
    by (cases e) (auto simp: refused_def fits_def)
  with Pair have r: "send_all vs (NewWriter c) = (None, w')" by simp
  with that writes_appended [OF writes_send_all _ r] send_all_flushed [OF _ _ r] show ?thesis
    by (simp add: appended_def out_def)
qed

section \<open>Properties\<close>

text \<open>
  C3. Frames survive the connection: any sequence of values whose simple strings hold no
  line feed and whose lengths are within the parser's limits, sent on a connection that
  does not fail, is read back on the other side as the same sequence, and nothing is left.
\<close>

theorem resp_roundtrip:
  assumes "list_all wire_ok vs" and "limit c = None" and "wire c = []"
  shows "\<exists>w'. send_all vs (NewWriter c) = (None, w') \<and>
    read_elements fin (length vs) (wire (wr w')) = Got vs []"
proof -
  obtain w' where "send_all vs (NewWriter c) = (None, w')" "wire (wr w') = concat (map encode vs)"
    using send_all_ok [OF assms(2)] assms(3) by auto
  moreover have "read_elements fin (length vs) (concat (map encode vs) @ []) = Got vs []"
    using assms(1) by (intro read_elements_encode) (auto simp: list_all_iff ReadValue_encode)
  ultimately show ?thesis by auto
qed

theorem resp_roundtrip_witness:
  "\<exists>w'. send_all [NewArray (Some [NewBulkStringFromString ''GET'', NewBulkString (Some [LF])]), NewInteger (- 7),
        NewNullBulkString, NewArray None] (NewWriter \<lparr>wire = [], limit = None, write_err = []\<rparr>) = (None, w') \<and>
    read_elements EOF (Suc (Suc (Suc (Suc 0)))) (wire (wr w')) =
      Got [NewArray (Some [NewBulkStringFromString ''GET'', NewBulkString (Some [LF])]), NewInteger (- 7),
        NewNullBulkString, NewArray None] []"
  using resp_roundtrip [of "[NewArray (Some [NewBulkStringFromString ''GET'', NewBulkString (Some [LF])]),
        NewInteger (- 7), NewNullBulkString, NewArray None]"
      "\<lparr>wire = [], limit = None, write_err = []\<rparr>" EOF]
  by (simp add: wire_ok_New wire_ok_FromString sizeof_Value_def maxAlloc_def)

text \<open>
  C20. A frame is self-delimiting: once a value has been parsed, bytes that arrive later, and
  the way the connection ends, change neither the value nor where the next frame starts.
  The result does not depend on how TCP cuts the stream.
\<close>

theorem frames_self_delimiting:
  assumes "ReadValue fin s = Got v rest"
  shows "ReadValue fin' (s @ t) = Got v (rest @ t) \<and> length rest < length s"
  using ReadValue_extend(1) [OF assms] ReadValue_eats [of fin s] assms by (auto dest: suffix_length_less)

theorem frames_self_delimiting_witness:
  "ReadValue UnexpectedEOF (encode (NewSimpleString ''OK'') @ ''+PO'') = Got (NewSimpleString ''OK'') ''+PO''"
  using frames_self_delimiting [OF ReadValue_encode [of "NewSimpleString ''OK''" EOF "[]"], of UnexpectedEOF "''+PO''"]
  by (simp add: wire_ok_New LF_def)

text \<open>
  A frame that is cut short is never taken for a value: no proper prefix of an encoded
  value parses.
\<close>

theorem incomplete_frame_rejected:
  assumes "wire_ok v" and "strict_prefix p (encode v)"
  shows "ReadValue fin p \<noteq> Got x rest"
proof
  assume p: "ReadValue fin p = Got x rest"
  obtain q where q: "encode v = p @ q" "q \<noteq> []" using assms(2) by (auto elim: strict_prefixE')
  from ReadValue_encode [OF assms(1), of fin "[]"] ReadValue_extend(1) [OF p, of fin q] q show False by simp
qed

theorem incomplete_frame_rejected_witness:
  "\<nexists>x rest. ReadValue EOF ''$5'' = Got x rest"
proof -
  have "digit_char 5 = CHR ''5''" by code_simp
  then have "encode (NewBulkString (Some ''12345'')) = ''$5'' @ crlf @ ''12345'' @ crlf"
    by (simp add: encode_New) (simp add: Itoa_def FormatInt_def format_nat.simps)
  then show ?thesis
    using incomplete_frame_rejected [of "NewBulkString (Some ''12345'')" "''$5''" EOF]
    by (simp add: wire_ok_New maxAlloc_def strict_prefix_def prefix_def)
qed

text \<open>
  C19. Whatever the parser accepts is well typed: a parsed value, and every value inside it, has
  one of the five types, sets only the fields that its type uses and holds no line break in a
  line, so the encoder can reproduce it and forwarding it delivers the same value.
\<close>

theorem parsed_values_well_typed:
  assumes "ReadValue fin s = Got v rest"
  shows "wire_ok v \<and> ReadValue fin' (encode v @ t) = Got v t"
  using read_wire_ok(1) [OF assms] ReadValue_encode by blast

theorem parsed_values_well_typed_witness:
  "ReadValue EOF ('':+07'' @ crlf) = Got (NewInteger 7) [] \<and> wire_ok (NewInteger 7) \<and>
   ReadValue EOF (encode (NewInteger 7) @ ''x'') = Got (NewInteger 7) ''x''"
proof -
  have "ReadValue EOF ('':+07'' @ crlf) = Got (NewInteger 7) []"
    using readLine_crlf [of "''+07''" EOF "[]"]
    by (simp add: ReadValue_Cons LF_def ParseInt_def ParseUint_def is_digit_def digit_val_def)
  with parsed_values_well_typed [OF this, of EOF "''x''"] show ?thesis by simp
qed

text \<open>
  C21. A failing connection never carries anything but an initial part of the intended
  output: whatever is sent and wherever the connection breaks, the bytes it accepted are a
  prefix of the encodings in order, and all of them exactly when no error is returned.
\<close>

theorem wire_holds_prefix:
  "case send_all vs (NewWriter c) of
     (None, w') \<Rightarrow> wire (wr w') = wire c @ concat (map encode vs)
   | (Some e, w') \<Rightarrow> prefix (wire (wr w')) (wire c @ concat (map encode vs)) \<and> err w' \<noteq> None"
proof (cases "send_all vs (NewWriter c)")
  case (Pair e w')
  show ?thesis
  proof (cases e)
    case None
    with Pair have r: "send_all vs (NewWriter c) = (None, w')" by simp
    with None Pair writes_appended [OF writes_send_all _ r] send_all_flushed [OF _ _ r] show ?thesis
      by (simp add: appended_def out_def)
  next
    case (Some a)
    with Pair writes_refused [OF writes_send_all, of "NewWriter c" vs a w'] show ?thesis
      by (simp add: refused_def)
  qed
qed

text \<open>
  C39. The parser trusts the announced length: a bulk string header with a length beyond the
  address space makes the reader panic, whatever follows it.
\<close>

theorem huge_bulk_length_panics:
  assumes "maxAlloc < n" and "n < 2 ^ 63"
  shows "ReadValue fin (''$'' @ Itoa n @ crlf @ rest) = Panic makeslice_panic"
  using assms
  by (simp add: ReadValue_Cons readBulk_def readLine_crlf Atoi_Itoa sint_word_of_nat signed_simps)

theorem huge_bulk_length_panics_witness:
  "ReadValue EOF (''$'' @ Itoa (2 ^ 50) @ crlf @ []) = Panic makeslice_panic"
  by (rule huge_bulk_length_panics) (simp_all add: maxAlloc_def)

text \<open>
  A line break inside an error or simple string splits the frame: the reader sees the
  part before it as the whole message and the part after it as the start of the next frame.
\<close>

theorem line_break_splits_frame:
  assumes "LF \<notin> set a"
  shows "ReadValue fin (encode (NewError (a @ crlf @ b)) @ rest) = Got (NewError a) (b @ crlf @ rest)"
  using readLine_crlf [OF assms, of fin "b @ crlf @ rest"] by (simp add: encode_New ReadValue_Cons)

theorem line_break_splits_frame_witness:
  "ReadValue EOF (encode (NewError (''ERR unknown command X'' @ crlf @ ''+OK''))) =
     Got (NewError ''ERR unknown command X'') (''+OK'' @ crlf)"
  using line_break_splits_frame [of "''ERR unknown command X''" EOF "''+OK''" "[]"] by (simp add: LF_def)

end
