(* ===== verification/Replica_Manager.thy ===== *)
theory Replica_Manager
  imports Master_Manager Resp_Protocol
begin

text \<open>
  \<open>internal/replication/replica.go\<close> and \<open>failover.go\<close>: a node's replication role, the
  goroutines that follow a master, and the heartbeat monitors that promote a replica.

  A monitor and a synchronisation outlive the call of \<open>SlaveOf\<close> that starts them, and a
  later call does not wait for them. The state of a node therefore holds all monitors ever
  created and the program counters of their loops, and likewise the program counters of
  all \<open>connectAndSync\<close> goroutines; the manager's pointer to its current monitor is an index.
\<close>

type_synonym Role = string

definition RoleMaster :: Role where "RoleMaster = ''master''"
definition RoleReplica :: Role where "RoleReplica = ''slave''"

lemma roles_distinct [simp]: "RoleMaster \<noteq> RoleReplica" "RoleReplica \<noteq> RoleMaster"
  by (simp_all add: RoleMaster_def RoleReplica_def)

subsection \<open>Failover monitors\<close>

record FailoverConfig =
  HeartbeatInterval :: Duration
  MaxMissedBeats :: goint
  MasterAddr :: string

definition DefaultFailoverConfig :: "string \<Rightarrow> FailoverConfig" where
  "DefaultFailoverConfig addr =
     \<lparr>HeartbeatInterval = 100 * Millisecond, MaxMissedBeats = 3, MasterAddr = addr\<rparr>"

text \<open>
  A \<open>time.Time\<close> that may be the zero time is an option.
\<close>

record FailoverMonitor =
  fm_cfg :: FailoverConfig
  missedBeats :: goint
  isMonitoring :: bool
  fm_cancelled :: bool
  failoverStart :: "int64 option"
  failoverEnd :: "int64 option"
  lastFailoverMs :: float64

definition NewFailoverMonitor :: "FailoverConfig \<Rightarrow> FailoverMonitor" where
  "NewFailoverMonitor c =
     \<lparr>fm_cfg = c, missedBeats = 0, isMonitoring = False, fm_cancelled = False,
      failoverStart = None, failoverEnd = None, lastFailoverMs = (0, 0)\<rparr>"

text \<open>\<open>Start\<close>; the second component says whether it started the loop.\<close>

definition fm_Start :: "FailoverMonitor \<Rightarrow> FailoverMonitor \<times> bool" where
  "fm_Start fm =
     (if isMonitoring fm then (fm, False)
      else (fm\<lparr>isMonitoring := True, missedBeats := 0\<rparr>, True))"

definition fm_Stop :: "FailoverMonitor \<Rightarrow> FailoverMonitor" where
  "fm_Stop fm = fm\<lparr>fm_cancelled := True, isMonitoring := False\<rparr>"

text \<open>
  \<open>checkHeartbeat\<close> as a function of what the dial gives.
\<close>

datatype heartbeat = HbOk | HbErr string | HbPanic string

definition checkHeartbeat :: "dial \<Rightarrow> heartbeat" where
  "checkHeartbeat d =
     (case d of
        DialErr e \<Rightarrow> HbErr e
      | Dialed c answer fin \<Rightarrow>
          case WriteArray (Some [NewBulkStringFromString ''PING'']) (NewWriter c) of
            (Some e, w) \<Rightarrow> HbErr e
          | (None, w) \<Rightarrow>
              case Writer_Flush w of
                (Some e, w') \<Rightarrow> HbErr e
              | (None, w') \<Rightarrow>
                  case ReadValue fin answer of
                    Panic p \<Rightarrow> HbPanic p
                  | Fail e \<Rightarrow> HbErr (''invalid heartbeat response: '' @ RespErr_Error e)
                  | Got val rest \<Rightarrow>
                      if Str val \<noteq> ''PONG'' \<and> elems (Bulk val) \<noteq> ''PONG''
                      then HbErr ''invalid heartbeat response: <nil>''
                      else HbOk)"

text \<open>The two locked sections of a round of \<open>monitorLoop\<close>: count a miss, or reset.\<close>

definition count_miss :: "int64 \<Rightarrow> FailoverMonitor \<Rightarrow> FailoverMonitor" where
  "count_miss now fm =
     (let fm = (if missedBeats fm = 0 then fm\<lparr>failoverStart := Some now\<rparr> else fm)
      in fm\<lparr>missedBeats := missedBeats fm + 1\<rparr>)"

definition reset_misses :: "FailoverMonitor \<Rightarrow> FailoverMonitor" where
  "reset_misses fm = fm\<lparr>missedBeats := 0\<rparr>"

text \<open>The locked section of \<open>triggerFailover\<close>.\<close>

definition record_failover :: "int64 \<Rightarrow> FailoverMonitor \<Rightarrow> FailoverMonitor" where
  "record_failover now fm =
     (let fm = fm\<lparr>isMonitoring := False, failoverEnd := Some now\<rparr>
      in case failoverStart fm of
           None \<Rightarrow> fm
         | Some start \<Rightarrow> fm\<lparr>lastFailoverMs := millis_float (Microseconds (Since now start))\<rparr>)"

definition LastFailoverDurationMs :: "FailoverMonitor \<Rightarrow> float64" where
  "LastFailoverDurationMs fm = lastFailoverMs fm"

subsection \<open>The replica manager\<close>

record ReplicaManager =
  role :: Role
  masterAddr :: string
  masterLinkUp :: bool
  masterOffset :: int64
  lastMasterAck :: int64
  rm_cancelled :: bool
  syncConn :: "connid option"
  monitor :: "nat option"

definition NewReplicaManager :: ReplicaManager where
  "NewReplicaManager =
     \<lparr>role = RoleMaster, masterAddr = [], masterLinkUp = False, masterOffset = 0, lastMasterAck = 0,
      rm_cancelled = False, syncConn = None, monitor = None\<rparr>"

definition IsReadOnly :: "ReplicaManager \<Rightarrow> bool" where
  "IsReadOnly rm \<longleftrightarrow> role rm = RoleReplica"

definition rm_FailoverMonitor :: "ReplicaManager \<Rightarrow> nat option" where
  "rm_FailoverMonitor r = monitor r"

definition nl :: string where "nl = [CHR 0x0D, CHR 0x0A]"

definition rm_Info :: "int64 \<Rightarrow> ReplicaManager \<Rightarrow> string" where
  "rm_Info now rm =
     (if role rm = RoleMaster then
        ''role:'' @ role rm @ nl @ ''connected_slaves:0'' @ nl @
        ''master_repl_offset:'' @ FormatInt (masterOffset rm)
      else
        let linkStatus = (if masterLinkUp rm then ''up'' else ''down'');
            lagSec = (if 0 <s lastMasterAck rm then Seconds_int64 (Since now (lastMasterAck rm)) else 0)
        in ''role:'' @ role rm @ nl @ ''master_host:'' @ masterAddr rm @ nl @
           ''master_link_status:'' @ linkStatus @ nl @
           ''master_last_io_seconds_ago:'' @ FormatInt lagSec @ nl @
           ''slave_repl_offset:'' @ FormatInt (masterOffset rm))"

text \<open>
  Where the loop of a monitor, and a synchronisation, stands: \<open>Streaming\<close> is the \<open>select\<close> at
  the head of a synchronisation's loop, \<open>Reading\<close> the read of the next command after it.
\<close>

datatype monitor_pc = AtSelect | Checking | Triggering | Promoting | Exited

datatype sync_pc = Dialing string | Handshake connid | Streaming connid | Reading connid | Ended

record ('p, 'e) node =
  rm :: ReplicaManager
  monitors :: "FailoverMonitor list"
  loops :: "monitor_pc list"
  syncs :: "sync_pc list"
  closed_conns :: "connid set"
  cache :: "('p, 'e) Store \<times> 'e"

definition on_monitor :: "nat \<Rightarrow> (FailoverMonitor \<Rightarrow> FailoverMonitor) \<Rightarrow> ('p, 'e) node \<Rightarrow> ('p, 'e) node" where
  "on_monitor m f nd = nd\<lparr>monitors := (monitors nd)[m := f (monitors nd ! m)]\<rparr>"

definition stop_monitor :: "('p, 'e) node \<Rightarrow> ('p, 'e) node" where
  "stop_monitor nd = (case monitor (rm nd) of None \<Rightarrow> nd | Some m \<Rightarrow> on_monitor m fm_Stop nd)"

definition close_syncConn :: "('p, 'e) node \<Rightarrow> ('p, 'e) node" where
  "close_syncConn nd =
     (case syncConn (rm nd) of None \<Rightarrow> nd | Some c \<Rightarrow> nd\<lparr>closed_conns := insert c (closed_conns nd)\<rparr>)"

text \<open>\<open>SlaveOf\<close> holds the manager's lock throughout; it always returns \<open>nil\<close>.\<close>

definition promote :: "('p, 'e) node \<Rightarrow> ('p, 'e) node" where
  "promote nd =
     (let nd = nd\<lparr>rm := (rm nd)\<lparr>role := RoleMaster, masterAddr := [], masterLinkUp := False\<rparr>\<rparr>;
          nd = close_syncConn nd;
          nd = nd\<lparr>rm := (rm nd)\<lparr>syncConn := None\<rparr>\<rparr>;
          nd = stop_monitor nd
      in nd\<lparr>rm := (rm nd)\<lparr>monitor := None\<rparr>\<rparr>)"

definition follow :: "string \<Rightarrow> ('p, 'e) node \<Rightarrow> ('p, 'e) node" where
  "follow addr nd =
     (let nd = nd\<lparr>rm := (rm nd)\<lparr>role := RoleReplica, masterAddr := addr, masterLinkUp := False\<rparr>\<rparr>;
          nd = close_syncConn nd;
          nd = stop_monitor nd;
          (fm, started) = fm_Start (NewFailoverMonitor (DefaultFailoverConfig addr));
          m = length (monitors nd)
      in nd\<lparr>monitors := monitors nd @ [fm],
            loops := loops nd @ [if started then AtSelect else Exited],
            rm := (rm nd)\<lparr>monitor := Some m\<rparr>,
            syncs := syncs nd @ [Dialing addr]\<rparr>)"

definition SlaveOf :: "(string \<Rightarrow> string) \<Rightarrow> string \<Rightarrow> string \<Rightarrow> ('p, 'e) node \<Rightarrow> ('p, 'e) node" where
  "SlaveOf up host port nd =
     (if ToUpper up host = ''NO'' \<and> ToUpper up port = ''ONE'' then promote nd
      else follow (host @ '':'' @ port) nd)"

definition rm_Close :: "('p, 'e) node \<Rightarrow> ('p, 'e) node" where
  "rm_Close nd = stop_monitor (close_syncConn (nd\<lparr>rm := (rm nd)\<lparr>rm_cancelled := True\<rparr>\<rparr>))"

end
