(* ===== verification/Failover.thy ===== *)
theory Failover
  imports Replica_Manager
begin

text \<open>
  The goroutines of a node as a step relation: the heartbeat monitors (\<open>monitorLoop\<close>,
  \<open>triggerFailover\<close>), the synchronisations (\<open>connectAndSync\<close>) and the commands that start
  and stop them may interleave at every point where the code does not hold a lock. A step
  is one locked section or one blocking call. When both the tick and the cancellation of a
  monitor are ready, Go's \<open>select\<close> picks either, so a cancelled monitor may still tick. A synchronisation looks at its
  manager's context only between two commands, so one that is already reading when the
  manager is closed may still apply what it reads. A panic of the reader, in a heartbeat
  (\<open>HbPanic\<close>) or in a synchronisation, ends the process, so no step follows it.
\<close>

datatype node_label =
    SlaveOfCmd string string
  | CloseCmd
  | MonTick nat
  | Cancelled nat
  | Beat nat heartbeat int64
  | Trigger nat int64
  | Promote nat
  | DialFailed nat
  | DialOk nat connid
  | Acked nat int64
  | SyncNext nat
  | Command nat int64 int64 Value
  | SyncDone nat
  | SyncEnd nat

subsection \<open>The sections of the goroutines\<close>

definition set_pc :: "nat \<Rightarrow> monitor_pc \<Rightarrow> ('p, 'e) node \<Rightarrow> ('p, 'e) node" where
  "set_pc m pc nd = nd\<lparr>loops := (loops nd)[m := pc]\<rparr>"

definition monitor_at :: "nat \<Rightarrow> monitor_pc \<Rightarrow> ('p, 'e) node \<Rightarrow> bool" where
  "monitor_at m pc nd \<longleftrightarrow> m < length (loops nd) \<and> loops nd ! m = pc"

text \<open>A heartbeat has been checked: one round of \<open>monitorLoop\<close> after the \<open>select\<close>.\<close>

definition beat_ok :: "nat \<Rightarrow> ('p, 'e) node \<Rightarrow> ('p, 'e) node" where
  "beat_ok m nd = set_pc m AtSelect (on_monitor m reset_misses nd)"

definition beat_missed :: "nat \<Rightarrow> int64 \<Rightarrow> ('p, 'e) node \<Rightarrow> ('p, 'e) node" where
  "beat_missed m now nd =
     (let nd = on_monitor m (count_miss now) nd; fm = monitors nd ! m
      in if MaxMissedBeats (fm_cfg fm) \<le>s missedBeats fm then set_pc m Triggering nd
         else set_pc m AtSelect nd)"

definition set_sync :: "nat \<Rightarrow> sync_pc \<Rightarrow> ('p, 'e) node \<Rightarrow> ('p, 'e) node" where
  "set_sync i pc nd = nd\<lparr>syncs := (syncs nd)[i := pc]\<rparr>"

definition sync_at :: "nat \<Rightarrow> sync_pc \<Rightarrow> ('p, 'e) node \<Rightarrow> bool" where
  "sync_at i pc nd \<longleftrightarrow> i < length (syncs nd) \<and> syncs nd ! i = pc"

definition sync_dialed :: "nat \<Rightarrow> connid \<Rightarrow> ('p, 'e) node \<Rightarrow> ('p, 'e) node" where
  "sync_dialed i c nd =
     set_sync i (Handshake c) (nd\<lparr>rm := (rm nd)\<lparr>syncConn := Some c, masterLinkUp := True\<rparr>\<rparr>)"

definition sync_acked :: "nat \<Rightarrow> connid \<Rightarrow> int64 \<Rightarrow> ('p, 'e) node \<Rightarrow> ('p, 'e) node" where
  "sync_acked i c now nd = set_sync i (Streaming c) (nd\<lparr>rm := (rm nd)\<lparr>lastMasterAck := now\<rparr>\<rparr>)"

text \<open>
  One command from the master: \<open>ack\<close> is the clock reading stored as its acknowledgement, \<open>now\<close>
  the later one that the store takes when it applies the command.
\<close>

definition sync_command :: "(string \<Rightarrow> string) \<Rightarrow> 'p EvictionPolicy \<Rightarrow> int64 \<Rightarrow> int64 \<Rightarrow> Value \<Rightarrow>
    ('p, 'e) node \<Rightarrow> ('p, 'e) node" where
  "sync_command up P ack now v nd =
     nd\<lparr>rm := (rm nd)\<lparr>lastMasterAck := ack, masterOffset := masterOffset (rm nd) + 1\<rparr>,
        cache := applyMasterCommand up P now v (cache nd)\<rparr>"

definition sync_end :: "nat \<Rightarrow> connid \<Rightarrow> ('p, 'e) node \<Rightarrow> ('p, 'e) node" where
  "sync_end i c nd =
     set_sync i Ended (nd\<lparr>closed_conns := insert c (closed_conns nd),
       rm := (rm nd)\<lparr>masterLinkUp := False\<rparr>\<rparr>)"

inductive node_step :: "(string \<Rightarrow> string) \<Rightarrow> 'p EvictionPolicy \<Rightarrow> node_label \<Rightarrow> ('p, 'e) node \<Rightarrow> ('p, 'e) node \<Rightarrow> bool"
  for up P where
  slave_of: "node_step up P (SlaveOfCmd host port) nd (SlaveOf up host port nd)"
| close: "node_step up P CloseCmd nd (rm_Close nd)"
| tick: "monitor_at m AtSelect nd \<Longrightarrow> node_step up P (MonTick m) nd (set_pc m Checking nd)"
| cancelled: "monitor_at m AtSelect nd \<Longrightarrow> fm_cancelled (monitors nd ! m) \<Longrightarrow>
    node_step up P (Cancelled m) nd (set_pc m Exited nd)"
| beat_ok: "monitor_at m Checking nd \<Longrightarrow> node_step up P (Beat m HbOk now) nd (beat_ok m nd)"
| beat_missed: "monitor_at m Checking nd \<Longrightarrow> node_step up P (Beat m (HbErr e) now) nd (beat_missed m now nd)"
| trigger: "monitor_at m Triggering nd \<Longrightarrow>
    node_step up P (Trigger m now) nd (set_pc m Promoting (on_monitor m (record_failover now) nd))"
| promote: "monitor_at m Promoting nd \<Longrightarrow>
    node_step up P (Promote m) nd (set_pc m Exited (SlaveOf up ''NO'' ''ONE'' nd))"
| dial_failed: "sync_at i (Dialing a) nd \<Longrightarrow> node_step up P (DialFailed i) nd (set_sync i Ended nd)"
| dial_ok: "sync_at i (Dialing a) nd \<Longrightarrow> node_step up P (DialOk i c) nd (sync_dialed i c nd)"
| acked: "sync_at i (Handshake c) nd \<Longrightarrow> node_step up P (Acked i now) nd (sync_acked i c now nd)"
| sync_next: "sync_at i (Streaming c) nd \<Longrightarrow> \<not> rm_cancelled (rm nd) \<Longrightarrow>
    node_step up P (SyncNext i) nd (set_sync i (Reading c) nd)"
| sync_done: "sync_at i (Streaming c) nd \<Longrightarrow> rm_cancelled (rm nd) \<Longrightarrow>
    node_step up P (SyncDone i) nd (sync_end i c nd)"
| command: "sync_at i (Reading c) nd \<Longrightarrow>
    node_step up P (Command i ack now v) nd (set_sync i (Streaming c) (sync_command up P ack now v nd))"
| sync_end: "sync_at i (Handshake c) nd \<or> sync_at i (Reading c) nd \<Longrightarrow>
    node_step up P (SyncEnd i) nd (sync_end i c nd)"

inductive_cases node_stepE: "node_step up P l nd nd'"
inductive_cases promoteE: "node_step up P (Promote m) nd nd'"

inductive node_run :: "(string \<Rightarrow> string) \<Rightarrow> 'p EvictionPolicy \<Rightarrow> node_label list \<Rightarrow> ('p, 'e) node \<Rightarrow> ('p, 'e) node \<Rightarrow> bool"
  for up P where
  run_nil: "node_run up P [] nd nd"
| run_snoc: "node_run up P ls nd nd' \<Longrightarrow> node_step up P l nd' nd'' \<Longrightarrow> node_run up P (ls @ [l]) nd nd''"

definition node_init :: "('p, 'e) Store \<times> 'e \<Rightarrow> ('p, 'e) node" where
  "node_init st =
     \<lparr>rm = NewReplicaManager, monitors = [], loops = [], syncs = [], closed_conns = {}, cache = st\<rparr>"

subsection \<open>Roles and monitors\<close>

text \<open>
  A replica always has a monitor, started for its current master; a master has none and
  remembers no master.
\<close>

definition role_inv :: "('p, 'e) node \<Rightarrow> bool" where
  "role_inv nd \<longleftrightarrow> length (loops nd) = length (monitors nd) \<and>
     (case monitor (rm nd) of
        None \<Rightarrow> role (rm nd) = RoleMaster \<and> masterAddr (rm nd) = []
      | Some m \<Rightarrow> role (rm nd) = RoleReplica \<and> m < length (monitors nd) \<and>
          fm_cfg (monitors nd ! m) = DefaultFailoverConfig (masterAddr (rm nd)))"

lemma count_miss_sel [simp]: "fm_cfg (count_miss now fm) = fm_cfg fm"
  "missedBeats (count_miss now fm) = missedBeats fm + 1"
  by (simp_all add: count_miss_def Let_def)

lemma record_failover_sel [simp]: "fm_cfg (record_failover now fm) = fm_cfg fm"
  "missedBeats (record_failover now fm) = missedBeats fm"
  by (simp_all add: record_failover_def Let_def split: option.split)

lemma other_sel [simp]: "fm_cfg (reset_misses fm) = fm_cfg fm" "fm_cfg (fm_Stop fm) = fm_cfg fm"
  "missedBeats (reset_misses fm) = 0" "missedBeats (fm_Stop fm) = missedBeats fm"
  by (simp_all add: reset_misses_def fm_Stop_def)

lemma on_monitor_sel [simp]:
  "rm (on_monitor m f nd) = rm nd" "loops (on_monitor m f nd) = loops nd"
  "syncs (on_monitor m f nd) = syncs nd" "cache (on_monitor m f nd) = cache nd"
  "monitors (on_monitor m f nd) = (monitors nd)[m := f (monitors nd ! m)]"
  by (simp_all add: on_monitor_def)

lemma set_pc_sel [simp]:
  "rm (set_pc m pc nd) = rm nd" "monitors (set_pc m pc nd) = monitors nd" "cache (set_pc m pc nd) = cache nd"
  "loops (set_pc m pc nd) = (loops nd)[m := pc]" "syncs (set_pc m pc nd) = syncs nd"
  by (simp_all add: set_pc_def)

lemma set_sync_sel [simp]:
  "rm (set_sync i pc nd) = rm nd" "monitors (set_sync i pc nd) = monitors nd" "loops (set_sync i pc nd) = loops nd"
  "cache (set_sync i pc nd) = cache nd" "syncs (set_sync i pc nd) = (syncs nd)[i := pc]"
  by (simp_all add: set_sync_def)

lemma close_syncConn_sel [simp]:
  "rm (close_syncConn nd) = rm nd" "monitors (close_syncConn nd) = monitors nd"
  "loops (close_syncConn nd) = loops nd" "syncs (close_syncConn nd) = syncs nd"
  "cache (close_syncConn nd) = cache nd"
  by (simp_all add: close_syncConn_def split: option.split)

lemma stop_monitor_sel [simp]:
  "rm (stop_monitor nd) = rm nd" "loops (stop_monitor nd) = loops nd" "syncs (stop_monitor nd) = syncs nd"
  "cache (stop_monitor nd) = cache nd" "length (monitors (stop_monitor nd)) = length (monitors nd)"
  by (simp_all add: stop_monitor_def split: option.split)

lemma stop_monitor_cong: "monitor (rm nd) = monitor (rm nd') \<Longrightarrow> monitors nd = monitors nd' \<Longrightarrow>
    monitors (stop_monitor nd) = monitors (stop_monitor nd')"
  by (simp add: stop_monitor_def split: option.split)

lemma nth_upd_field: "h (g (xs ! i)) = h (xs ! i) \<Longrightarrow> h (xs[i := g (xs ! i)] ! m) = h (xs ! m)"
  by (cases "i = m"; cases "m < length xs") (simp_all add: list_update_beyond)

lemmas nth_upd_fields [simp] =
  nth_upd_field [where h = fm_cfg and g = fm_Stop, simplified]
  nth_upd_field [where h = fm_cfg and g = reset_misses, simplified]
  nth_upd_field [where h = fm_cfg and g = "count_miss now" for now, simplified]
  nth_upd_field [where h = fm_cfg and g = "record_failover now" for now, simplified]
  nth_upd_field [where h = missedBeats and g = fm_Stop, simplified]
  nth_upd_field [where h = missedBeats and g = "record_failover now" for now, simplified]

lemma stop_monitor_nth:
  "fm_cfg (monitors (stop_monitor nd) ! m) = fm_cfg (monitors nd ! m)"
  "missedBeats (monitors (stop_monitor nd) ! m) = missedBeats (monitors nd ! m)"
  by (simp_all add: stop_monitor_def split: option.split)

lemma promote_sel [simp]:
  "role (rm (promote nd)) = RoleMaster" "masterAddr (rm (promote nd)) = []" "monitor (rm (promote nd)) = None"
  "loops (promote nd) = loops nd" "syncs (promote nd) = syncs nd" "cache (promote nd) = cache nd"
  "monitors (promote nd) = monitors (stop_monitor nd)" "masterLinkUp (rm (promote nd)) = False"
  "rm_cancelled (rm (promote nd)) = rm_cancelled (rm nd)"
  by (simp_all add: promote_def Let_def) (rule stop_monitor_cong; simp)

definition fresh_monitor :: "string \<Rightarrow> FailoverMonitor" where
  "fresh_monitor addr = (NewFailoverMonitor (DefaultFailoverConfig addr))\<lparr>isMonitoring := True, missedBeats := 0\<rparr>"

lemma fresh_monitor_sel [simp]:
  "fm_cfg (fresh_monitor addr) = DefaultFailoverConfig addr" "missedBeats (fresh_monitor addr) = 0"
  by (simp_all add: fresh_monitor_def NewFailoverMonitor_def)

lemma follow_sel [simp]:
  "role (rm (follow addr nd)) = RoleReplica" "masterAddr (rm (follow addr nd)) = addr"
  "monitor (rm (follow addr nd)) = Some (length (monitors nd))" "loops (follow addr nd) = loops nd @ [AtSelect]"
  "syncs (follow addr nd) = syncs nd @ [Dialing addr]" "cache (follow addr nd) = cache nd"
  "rm_cancelled (rm (follow addr nd)) = rm_cancelled (rm nd)"
  "monitors (follow addr nd) = monitors (stop_monitor nd) @ [fresh_monitor addr]"
  by (simp_all add: follow_def Let_def fm_Start_def fresh_monitor_def NewFailoverMonitor_def)
    (rule stop_monitor_cong; simp)

lemma rm_Close_sel [simp]:
  "role (rm (rm_Close nd)) = role (rm nd)" "masterAddr (rm (rm_Close nd)) = masterAddr (rm nd)"
  "monitor (rm (rm_Close nd)) = monitor (rm nd)" "loops (rm_Close nd) = loops nd"
  "cache (rm_Close nd) = cache nd" "monitors (rm_Close nd) = monitors (stop_monitor nd)"
  "syncs (rm_Close nd) = syncs nd" "rm_cancelled (rm (rm_Close nd))"
  by (simp_all add: rm_Close_def) (rule stop_monitor_cong; simp)

lemma ToUpper_no_one [simp]: "ToUpper up ''NO'' = ''NO''" "ToUpper up ''ONE'' = ''ONE''"
  by (simp_all add: ToUpper_def is_ascii_def upper_ascii_def)

lemma SlaveOf_no_one [simp]: "SlaveOf up ''NO'' ''ONE'' nd = promote nd"
  by (simp add: SlaveOf_def)

lemma SlaveOf_cases:
  obtains (promote) "SlaveOf up host port nd = promote nd" "ToUpper up host = ''NO''" "ToUpper up port = ''ONE''"
    | (follow) "SlaveOf up host port nd = follow (host @ '':'' @ port) nd"
  by (cases "ToUpper up host = ''NO'' \<and> ToUpper up port = ''ONE''") (simp_all add: SlaveOf_def)

lemma role_inv_promote: "role_inv nd \<Longrightarrow> role_inv (promote nd)"
  by (simp add: role_inv_def)

lemma role_inv_follow: "role_inv nd \<Longrightarrow> role_inv (follow addr nd)"
  by (simp add: role_inv_def nth_append)

lemma SlaveOf_role_inv: "role_inv nd \<Longrightarrow> role_inv (SlaveOf up a b nd)"
  and SlaveOf_cache: "cache (SlaveOf up a b nd) = cache nd"
  by (cases rule: SlaveOf_cases [of up a b nd]; simp add: role_inv_promote role_inv_follow)+

lemma role_inv_step:
  assumes "node_step up P l nd nd'" and "role_inv nd"
  shows "role_inv nd'"
  using assms
proof (induction rule: node_step.induct)
  case (slave_of host port nd)
  then show ?case by (cases rule: SlaveOf_cases [of up host port nd]) (auto simp: role_inv_promote role_inv_follow)
next
  case (close nd)
  then show ?case by (auto simp: role_inv_def stop_monitor_nth split: option.splits)
next
  case (promote m nd)
  then have "role_inv (Replica_Manager.promote nd)" by (simp add: role_inv_promote)
  then show ?case by (simp add: role_inv_def)
next
  case (trigger m nd now)
  then show ?case by (auto simp: role_inv_def nth_list_update split: option.splits)
next
  case (beat_ok m nd now)
  then show ?case by (auto simp: role_inv_def nth_list_update Failover.beat_ok_def split: option.splits)
next
  case (beat_missed m nd e now)
  then show ?case
    by (auto simp: role_inv_def nth_list_update Failover.beat_missed_def Let_def split: option.splits)
qed (auto simp: role_inv_def sync_dialed_def sync_acked_def sync_command_def Failover.sync_end_def split: option.splits)

lemma role_inv_run: "node_run up P ls nd nd' \<Longrightarrow> role_inv nd \<Longrightarrow> role_inv nd'"
  by (induction rule: node_run.induct) (auto intro: role_inv_step)

lemma role_inv_init: "role_inv (node_init st)"
  by (simp add: role_inv_def node_init_def NewReplicaManager_def)

subsection \<open>Counting missed heartbeats\<close>

text \<open>The number of checks of monitor \<open>m\<close> that failed since its last success in a run.\<close>

fun is_beat :: "nat \<Rightarrow> node_label \<Rightarrow> bool" where
  "is_beat m (Beat m' hb now) = (m' = m)"
| "is_beat m _ = False"

fun is_miss :: "node_label \<Rightarrow> bool" where
  "is_miss (Beat m (HbErr e) now) = True"
| "is_miss _ = False"

definition misses :: "nat \<Rightarrow> node_label list \<Rightarrow> nat" where
  "misses m ls = length (takeWhile is_miss (rev (filter (is_beat m) ls)))"

lemma misses_Nil [simp]: "misses m [] = 0"
  by (simp add: misses_def)

lemma misses_snoc [simp]:
  "misses m (ls @ [l]) = (if is_beat m l then if is_miss l then Suc (misses m ls) else 0 else misses m ls)"
  by (simp add: misses_def)

definition miss_inv :: "node_label list \<Rightarrow> ('p, 'e) node \<Rightarrow> bool" where
  "miss_inv ls nd \<longleftrightarrow> length (loops nd) = length (monitors nd) \<and>
     (\<forall>m < length (monitors nd).
        missedBeats (monitors nd ! m) = word_of_nat (misses m ls) \<and> misses m ls \<le> 3 \<and>
        MaxMissedBeats (fm_cfg (monitors nd ! m)) = 3 \<and>
        (loops nd ! m \<in> {AtSelect, Checking} \<longrightarrow> misses m ls < 3) \<and>
        (loops nd ! m \<in> {Triggering, Promoting} \<longrightarrow> misses m ls = 3)) \<and>
     (\<forall>m \<ge> length (monitors nd). misses m ls = 0)"

text \<open>Steps that are not a heartbeat: the counters stay, new monitors start at zero.\<close>

lemma miss_inv_quiet:
  assumes "miss_inv ls nd" and "\<And>m. \<not> is_beat m l"
    and "length (loops nd') = length (monitors nd')" and "length (monitors nd) \<le> length (monitors nd')"
    and "\<And>m. m < length (monitors nd) \<Longrightarrow> missedBeats (monitors nd' ! m) = missedBeats (monitors nd ! m) \<and>
      fm_cfg (monitors nd' ! m) = fm_cfg (monitors nd ! m) \<and>
      (loops nd' ! m \<in> {AtSelect, Checking} \<longrightarrow> loops nd ! m \<in> {AtSelect, Checking}) \<and>
      (loops nd' ! m \<in> {Triggering, Promoting} \<longrightarrow> loops nd ! m \<in> {Triggering, Promoting})"
    and "\<And>m. length (monitors nd) \<le> m \<Longrightarrow> m < length (monitors nd') \<Longrightarrow>
      missedBeats (monitors nd' ! m) = 0 \<and> MaxMissedBeats (fm_cfg (monitors nd' ! m)) = 3 \<and> loops nd' ! m = AtSelect"
  shows "miss_inv (ls @ [l]) nd'"
proof -
  have "missedBeats (monitors nd' ! m) = word_of_nat (misses m ls) \<and> misses m ls \<le> 3 \<and>
      MaxMissedBeats (fm_cfg (monitors nd' ! m)) = 3 \<and>
      (loops nd' ! m \<in> {AtSelect, Checking} \<longrightarrow> misses m ls < 3) \<and>
      (loops nd' ! m \<in> {Triggering, Promoting} \<longrightarrow> misses m ls = 3)" if "m < length (monitors nd')" for m
    using assms(1) assms(5,6) [of m] that by (cases "m < length (monitors nd)") (auto simp: miss_inv_def)
  moreover have "misses m ls = 0" if "length (monitors nd') \<le> m" for m
    using assms(1,4) that by (auto simp: miss_inv_def)
  ultimately show ?thesis using assms(2,3) unfolding miss_inv_def by auto
qed

lemma miss_inv_at:
  assumes "miss_inv ls nd" and "monitor_at m pc nd"
  shows "m < length (monitors nd)" "loops nd ! m = pc" "length (loops nd) = length (monitors nd)"
  using assms by (auto simp: miss_inv_def monitor_at_def)

lemma miss_inv_ok:
  assumes "miss_inv ls nd" and "monitor_at m Checking nd"
  shows "miss_inv (ls @ [Beat m HbOk now]) (beat_ok m nd)"
  using assms(1) miss_inv_at [OF assms] unfolding miss_inv_def beat_ok_def by (auto simp: nth_list_update)

lemma three_le: "n < 3 \<Longrightarrow> (3 :: 64 word) \<le>s word_of_nat (Suc n) \<longleftrightarrow> n = 2"
  by (auto simp: less_Suc_eq numeral_3_eq_3 signed_simps)

lemma miss_inv_missed:
  assumes "miss_inv ls nd" and "monitor_at m Checking nd"
  shows "miss_inv (ls @ [Beat m (HbErr e) now]) (beat_missed m now nd)"
proof -
  note at = miss_inv_at [OF assms]
  let ?n = "misses m ls" and ?nd = "on_monitor m (count_miss now) nd"
  have m: "missedBeats (monitors nd ! m) = word_of_nat ?n" "?n < 3" "MaxMissedBeats (fm_cfg (monitors nd ! m)) = 3"
    using assms(1) at by (auto simp: miss_inv_def)
  have "missedBeats (monitors ?nd ! m) = word_of_nat (Suc ?n)" using at m by simp
  with m at have "beat_missed m now nd = set_pc m (if ?n = 2 then Triggering else AtSelect) ?nd"
    unfolding beat_missed_def Let_def by (simp add: three_le del: of_nat_Suc)
  with assms(1) at m show ?thesis
    unfolding miss_inv_def by (auto simp: nth_list_update)
qed

lemma miss_inv_step:
  assumes "node_step up P l nd nd'" and inv: "miss_inv ls nd"
  shows "miss_inv (ls @ [l]) nd'"
  using assms
proof (induction rule: node_step.induct)
  case (slave_of host port nd)
  show ?case
  proof (cases rule: SlaveOf_cases [of up host port nd])
    case promote
    with slave_of show ?thesis
      by (intro miss_inv_quiet [OF slave_of]) (auto simp: miss_inv_def stop_monitor_nth)
  next
    case follow
    with slave_of show ?thesis
      by (intro miss_inv_quiet [OF slave_of])
        (auto simp: miss_inv_def stop_monitor_nth nth_append DefaultFailoverConfig_def)
  qed
next
  case (beat_ok m nd now)
  then show ?case by (simp add: miss_inv_ok)
next
  case (beat_missed m nd e now)
  then show ?case by (simp add: miss_inv_missed)
next
  case (close nd)
  then show ?case by (intro miss_inv_quiet [OF close]) (auto simp: miss_inv_def stop_monitor_nth)
next
  case (tick m nd)
  then show ?case
    by (intro miss_inv_quiet [OF tick(2)]) (auto simp: miss_inv_def nth_list_update monitor_at_def)
next
  case (cancelled m nd)
  then show ?case
    by (intro miss_inv_quiet [OF cancelled(3)]) (auto simp: miss_inv_def nth_list_update monitor_at_def)
next
  case (trigger m nd now)
  then show ?case
    by (intro miss_inv_quiet [OF trigger(2)]) (auto simp: miss_inv_def nth_list_update monitor_at_def)
next
  case (promote m nd)
  then show ?case
    by (intro miss_inv_quiet [OF promote(2)])
      (auto simp: miss_inv_def nth_list_update monitor_at_def stop_monitor_nth)
qed (auto simp: miss_inv_def sync_dialed_def sync_acked_def sync_command_def Failover.sync_end_def)

lemma miss_inv_run:
  assumes "node_run up P ls (node_init st) nd"
  shows "miss_inv ls nd"
proof -
  have "miss_inv ls nd" if "node_run up P ls nd0 nd" "nd0 = node_init st" for nd0
    using that
  proof (induction rule: node_run.induct)
    case (run_nil nd)
    then show ?case by (simp add: miss_inv_def node_init_def)
  next
    case (run_snoc ls nd nd' l nd'')
    then show ?case by (auto intro: miss_inv_step)
  qed
  with assms show ?thesis by blast
qed

subsection \<open>Schedules\<close>

lemma node_run_append:
  assumes "node_run up P ls1 a b" and "node_run up P ls2 b c"
  shows "node_run up P (ls1 @ ls2) a c"
  using assms(2,1)
proof (induction rule: node_run.induct)
  case (run_snoc ls nd nd' l nd'')
  then have "node_run up P ((ls1 @ ls) @ [l]) a nd''" by (intro node_run.run_snoc)
  then show ?case by simp
qed simp

lemma node_run_Cons:
  "node_step up P l a b \<Longrightarrow> node_run up P ls b c \<Longrightarrow> node_run up P (l # ls) a c"
  using node_run_append [OF node_run.run_snoc [OF node_run.run_nil], of up P l a b ls c] by simp

text \<open>One failed round of a monitor that is waiting for its tick.\<close>

lemma missed_round:
  assumes "miss_inv ls nd" and "monitor_at m AtSelect nd"
    and nd'_def: "nd' = beat_missed m t (set_pc m Checking nd)"
  shows "node_run up P [MonTick m, Beat m (HbErr e) t] nd nd'"
    "monitor_at m (if misses m ls = 2 then Triggering else AtSelect) nd'"
    "miss_inv (ls @ [MonTick m, Beat m (HbErr e) t]) nd'"
    "failoverStart (monitors nd' ! m) =
       (if misses m ls = 0 then Some t else failoverStart (monitors nd ! m))"
proof -
  have mm: "m < length (monitors nd)" "m < length (loops nd)" "loops nd ! m = AtSelect"
    using miss_inv_at [OF assms(1,2)] by simp_all
  have tick: "node_step up P (MonTick m) nd (set_pc m Checking nd)" by (rule node_step.tick [OF assms(2)])
  have chk: "monitor_at m Checking (set_pc m Checking nd)" using mm by (simp add: monitor_at_def)
  have miss: "node_step up P (Beat m (HbErr e) t) (set_pc m Checking nd) nd'"
    unfolding nd'_def by (rule node_step.beat_missed [OF chk])
  show "node_run up P [MonTick m, Beat m (HbErr e) t] nd nd'"
    by (intro node_run_Cons [OF tick] node_run_Cons [OF miss] node_run.run_nil)
  have i1: "miss_inv (ls @ [MonTick m]) (set_pc m Checking nd)" by (rule miss_inv_step [OF tick assms(1)])
  from miss_inv_step [OF miss i1] show "miss_inv (ls @ [MonTick m, Beat m (HbErr e) t]) nd'" by simp
  have n: "misses m ls < 3" "missedBeats (monitors nd ! m) = word_of_nat (misses m ls)"
    "MaxMissedBeats (fm_cfg (monitors nd ! m)) = 3"
    using assms(1) mm by (auto simp: miss_inv_def)
  then show "monitor_at m (if misses m ls = 2 then Triggering else AtSelect) nd'"
    using mm three_le [OF n(1)] by (simp add: nd'_def beat_missed_def monitor_at_def add.commute)
  have "misses m ls = 0 \<longleftrightarrow> missedBeats (monitors nd ! m) = 0"
    using n(1) by (auto simp: n(2) less_Suc_eq numeral_3_eq_3)
  then show "failoverStart (monitors nd' ! m) = (if misses m ls = 0 then Some t else failoverStart (monitors nd ! m))"
    using mm by (simp add: nd'_def beat_missed_def count_miss_def Let_def)
qed

lemma missed_round_conj:
  assumes "miss_inv ls nd" and "monitor_at m AtSelect nd" and "nd' = beat_missed m t (set_pc m Checking nd)"
  shows "node_run up P [MonTick m, Beat m (HbErr e) t] nd nd' \<and>
    monitor_at m (if misses m ls = 2 then Triggering else AtSelect) nd' \<and>
    miss_inv (ls @ [MonTick m, Beat m (HbErr e) t]) nd' \<and>
    failoverStart (monitors nd' ! m) = (if misses m ls = 0 then Some t else failoverStart (monitors nd ! m))"
  using missed_round [OF assms] by blast

lemma trigger_promote:
  assumes "monitor_at m Triggering nd" and "m < length (monitors nd)" and "failoverStart (monitors nd ! m) = Some t1"
  obtains nd' where "node_run up P [Trigger m t, Promote m] nd nd'" "role (rm nd') = RoleMaster"
    "masterAddr (rm nd') = []" "monitor (rm nd') = None"
    "lastFailoverMs (monitors nd' ! m) = millis_float (Microseconds (Since t t1))"
proof -
  let ?nd1 = "set_pc m Promoting (on_monitor m (record_failover t) nd)"
  let ?nd2 = "set_pc m Exited (SlaveOf up ''NO'' ''ONE'' ?nd1)"
  have 1: "node_step up P (Trigger m t) nd ?nd1" by (rule node_step.trigger [OF assms(1)])
  have "monitor_at m Promoting ?nd1" using assms(1) by (simp add: monitor_at_def)
  then have 2: "node_step up P (Promote m) ?nd1 ?nd2" by (rule node_step.promote)
  have us: "lastFailoverMs (monitors (stop_monitor n) ! m) = lastFailoverMs (monitors n ! m)" for n :: "('a, 'b) node"
    using nth_upd_field [where h = lastFailoverMs and g = fm_Stop]
    by (simp add: stop_monitor_def fm_Stop_def split: option.split)
  show thesis
    by (rule that [of ?nd2])
      (use node_run_Cons [OF 1 node_run_Cons [OF 2 node_run.run_nil]] assms
        in \<open>simp_all add: us record_failover_def Let_def\<close>)
qed

lemma node_run_snocD:
  "node_run up P (ls @ [l]) a c \<Longrightarrow> \<exists>b. node_run up P ls a b \<and> node_step up P l b c"
  by (cases rule: node_run.cases) auto

lemma three_misses_schedule:
  assumes "node_run up P ls (node_init st) nd" and "monitor_at m AtSelect nd" and "misses m ls = 0"
  shows "\<exists>nd'. node_run up P [MonTick m, Beat m (HbErr e1) t1, MonTick m, Beat m (HbErr e2) t2,
      MonTick m, Beat m (HbErr e3) t3, Trigger m t4, Promote m] nd nd' \<and>
    role (rm nd') = RoleMaster \<and>
    lastFailoverMs (monitors nd' ! m) = millis_float (Microseconds (Since t4 t1))"
proof -
  note i0 = miss_inv_run [OF assms(1)]
  note r1 = missed_round_conj [OF i0 assms(2) refl, where t = t1 and up = up and P = P and e = e1]
  note r1a = r1 [THEN conjunct1] and r1b = r1 [THEN conjunct2, THEN conjunct1]
    and r1c = r1 [THEN conjunct2, THEN conjunct2, THEN conjunct1] and r1d = r1 [THEN conjunct2, THEN conjunct2, THEN conjunct2]
  have at1: "monitor_at m AtSelect (beat_missed m t1 (set_pc m Checking nd))" using r1b assms(3) by simp
  note r2 = missed_round_conj [OF r1c at1 refl, where t = t2 and up = up and P = P and e = e2]
  note r2a = r2 [THEN conjunct1] and r2b = r2 [THEN conjunct2, THEN conjunct1]
    and r2c = r2 [THEN conjunct2, THEN conjunct2, THEN conjunct1] and r2d = r2 [THEN conjunct2, THEN conjunct2, THEN conjunct2]
  let ?nd2 = "beat_missed m t2 (set_pc m Checking (beat_missed m t1 (set_pc m Checking nd)))"
  have n2: "misses m (ls @ [MonTick m, Beat m (HbErr e1) t1]) = 1"
    using assms(3) misses_snoc [of m "ls @ [MonTick m]" "Beat m (HbErr e1) t1"] by simp
  have at2: "monitor_at m AtSelect ?nd2" using r2b n2 by simp
  note r3 = missed_round_conj [OF r2c at2 refl, where t = t3 and up = up and P = P and e = e3]
  note r3a = r3 [THEN conjunct1] and r3b = r3 [THEN conjunct2, THEN conjunct1]
    and r3c = r3 [THEN conjunct2, THEN conjunct2, THEN conjunct1] and r3d = r3 [THEN conjunct2, THEN conjunct2, THEN conjunct2]
  let ?nd3 = "beat_missed m t3 (set_pc m Checking ?nd2)"
  have n3: "misses m ((ls @ [MonTick m, Beat m (HbErr e1) t1]) @ [MonTick m, Beat m (HbErr e2) t2]) = 2"
    using n2 misses_snoc [of m "(ls @ [MonTick m, Beat m (HbErr e1) t1]) @ [MonTick m]" "Beat m (HbErr e2) t2"]
      misses_snoc [of m "ls @ [MonTick m, Beat m (HbErr e1) t1]" "MonTick m"] by simp
  have at3: "monitor_at m Triggering ?nd3" using r3b n3 by simp
  have start: "failoverStart (monitors ?nd3 ! m) = Some t1" using r3d r2d r1d n2 n3 assms(3) by simp
  have "m < length (monitors ?nd3)" by (rule miss_inv_at(1) [OF r3c at3])
  then obtain nd' where p: "node_run up P [Trigger m t4, Promote m] ?nd3 nd'" "role (rm nd') = RoleMaster"
    "lastFailoverMs (monitors nd' ! m) = millis_float (Microseconds (Since t4 t1))"
    using trigger_promote [OF at3 _ start] by metis
  have "node_run up P (([MonTick m, Beat m (HbErr e1) t1] @ [MonTick m, Beat m (HbErr e2) t2] @
      [MonTick m, Beat m (HbErr e3) t3]) @ [Trigger m t4, Promote m]) nd nd'"
    by (intro node_run_append [OF _ p(1)] node_run_append [OF r1a node_run_append [OF r2a r3a]])
  with p show ?thesis by auto
qed

end
