(* ===== verification/Server_Handler.thy ===== *)
theory Server_Handler
  imports Failover
begin

text \<open>
  \<open>internal/server/handler.go\<close>: the commands. A handler works on the state of the server
  process: the node with its store, and the list of connections for which \<open>PSYNC\<close> has
  started the goroutine that registers a replica. \<open>clk i\<close> is the \<open>i\<close>-th clock reading of
  the command; \<open>G\<close> holds what the run-time system contributes.

  The handler's pointers to the two replication managers may be \<open>nil\<close>, which the code
  checks for in some commands; \<open>Dispatch\<close> returns \<open>None\<close> for the nil-pointer panic of the
  one that does not.
\<close>

record goenv =
  unicode_upper :: "string \<Rightarrow> string"
  go_version :: string
  pid :: int64

record 'p proc =
  node :: "('p, env) node"
  registering :: "connid list"

record Handler =
  has_repl :: bool
  has_master :: bool
  startTime :: int64
  conn :: "connid option"

definition NewHandler :: "bool \<Rightarrow> bool \<Rightarrow> int64 \<Rightarrow> connid option \<Rightarrow> Handler" where
  "NewHandler repl master start c =
     \<lparr>has_repl = repl, has_master = master, startTime = start, conn = c\<rparr>"

definition h_extractString :: "Value \<Rightarrow> string" where
  "h_extractString v = (if Type v = TypeBulkString then elems (Bulk v) else Str v)"

definition quoted :: "string \<Rightarrow> string" where
  "quoted s = [CHR 0x27] @ s @ [CHR 0x27]"

definition wrong_args :: "string \<Rightarrow> Value" where
  "wrong_args c = NewError (''ERR wrong number of arguments for '' @ quoted c @ '' command'')"

definition readonly_error :: Value where
  "readonly_error = NewError (''READONLY You can'' @ [CHR 0x27] @ ''t write against a read only replica.'')"

definition not_integer_error :: Value where
  "not_integer_error = NewError ''ERR value is not an integer or out of range''"

abbreviation proc_cache :: "'p proc \<Rightarrow> ('p, env) Store \<times> env" where
  "proc_cache p \<equiv> cache (node p)"

definition set_cache :: "('p, env) Store \<times> env \<Rightarrow> 'p proc \<Rightarrow> 'p proc" where
  "set_cache st p = p\<lparr>node := (node p)\<lparr>cache := st\<rparr>\<rparr>"

definition refuses_writes :: "Handler \<Rightarrow> 'p proc \<Rightarrow> bool" where
  "refuses_writes h p \<longleftrightarrow> has_repl h \<and> IsReadOnly (rm (node p))"

definition handlePing :: "Value list \<Rightarrow> Value" where
  "handlePing args =
     (case args of
        [] \<Rightarrow> NewSimpleString ''PONG''
      | [arg] \<Rightarrow> NewBulkStringFromString (h_extractString arg)
      | _ \<Rightarrow> wrong_args ''ping'')"

definition handleGet :: "'p EvictionPolicy \<Rightarrow> (nat \<Rightarrow> int64) \<Rightarrow> Value list \<Rightarrow> 'p proc \<Rightarrow> Value \<times> 'p proc" where
  "handleGet P clk args p =
     (case args of
        [arg] \<Rightarrow>
          (case Store_Get P (h_extractString arg) (clk 0) (proc_cache p) of
             (None, st) \<Rightarrow> (NewNullBulkString, set_cache st p)
           | (Some val, st) \<Rightarrow> (NewBulkString (Some val), set_cache st p))
      | _ \<Rightarrow> (wrong_args ''get'', p))"

text \<open>The option loop of \<open>SET\<close>: a time to live, or the response that ends the command.\<close>

fun set_options :: "(string \<Rightarrow> string) \<Rightarrow> Value list \<Rightarrow> Duration \<Rightarrow> Value + Duration" where
  "set_options up [] ttl = Inr ttl"
| "set_options up (arg # rest) ttl =
     (let flag = ToUpper up (h_extractString arg)
      in if flag = ''EX'' \<or> flag = ''PX'' then
           (case rest of
              [] \<Rightarrow> Inl (NewError ''ERR syntax error'')
            | num_arg # rest2 \<Rightarrow>
                (case ParseInt (h_extractString num_arg) of
                   (num, e) \<Rightarrow>
                     if e \<noteq> None \<or> num \<le>s 0 then Inl not_integer_error
                     else set_options up rest2 (if flag = ''EX'' then num * Second else num * Millisecond)))
         else set_options up rest ttl)"

definition handleSet :: "goenv \<Rightarrow> 'p EvictionPolicy \<Rightarrow> (nat \<Rightarrow> int64) \<Rightarrow> Handler \<Rightarrow> Value list \<Rightarrow> 'p proc \<Rightarrow>
    Value \<times> 'p proc" where
  "handleSet G P clk h args p =
     (if refuses_writes h p then (readonly_error, p)
      else case args of
             arg0 # arg1 # opts \<Rightarrow>
               (let key = h_extractString arg0;
                    val = (case Bulk arg1 of None \<Rightarrow> Some (Str arg1) | Some b \<Rightarrow> Some b)
                in case set_options (unicode_upper G) opts 0 of
                     Inl response \<Rightarrow> (response, p)
                   | Inr ttl \<Rightarrow>
                       (case Store_Set P key val ttl (clk 0) (proc_cache p) of
                          (Some e, st) \<Rightarrow> (NewError (''ERR '' @ StoreErr_Error e), set_cache st p)
                        | (None, st) \<Rightarrow> (NewSimpleString ''OK'', set_cache st p)))
           | _ \<Rightarrow> (wrong_args ''set'', p))"

fun del_loop :: "'p EvictionPolicy \<Rightarrow> Value list \<Rightarrow> int64 \<Rightarrow> ('p, env) Store \<times> env \<Rightarrow>
    int64 \<times> ('p, env) Store \<times> env" where
  "del_loop P [] count st = (count, st)"
| "del_loop P (arg # args) count st =
     (case Store_Delete P (h_extractString arg) st of
        (deleted, st') \<Rightarrow> del_loop P args (if deleted then count + 1 else count) st')"

definition handleDel :: "'p EvictionPolicy \<Rightarrow> Handler \<Rightarrow> Value list \<Rightarrow> 'p proc \<Rightarrow> Value \<times> 'p proc" where
  "handleDel P h args p =
     (if refuses_writes h p then (readonly_error, p)
      else if args = [] then (wrong_args ''del'', p)
      else case del_loop P args 0 (proc_cache p) of (count, st) \<Rightarrow> (NewInteger count, set_cache st p))"

fun exists_loop :: "'p EvictionPolicy \<Rightarrow> (nat \<Rightarrow> int64) \<Rightarrow> nat \<Rightarrow> Value list \<Rightarrow> int64 \<Rightarrow> ('p, env) Store \<times> env \<Rightarrow>
    int64 \<times> ('p, env) Store \<times> env" where
  "exists_loop P clk n [] count st = (count, st)"
| "exists_loop P clk n (arg # args) count st =
     (case Store_Exists P (h_extractString arg) (clk n) st of
        (found, st') \<Rightarrow> exists_loop P clk (Suc n) args (if found then count + 1 else count) st')"

definition handleExists :: "'p EvictionPolicy \<Rightarrow> (nat \<Rightarrow> int64) \<Rightarrow> Value list \<Rightarrow> 'p proc \<Rightarrow> Value \<times> 'p proc" where
  "handleExists P clk args p =
     (if args = [] then (wrong_args ''exists'', p)
      else case exists_loop P clk 0 args 0 (proc_cache p) of (count, st) \<Rightarrow> (NewInteger count, set_cache st p))"

definition handleExpire :: "'p EvictionPolicy \<Rightarrow> (nat \<Rightarrow> int64) \<Rightarrow> Handler \<Rightarrow> Value list \<Rightarrow> 'p proc \<Rightarrow>
    Value \<times> 'p proc" where
  "handleExpire P clk h args p =
     (if refuses_writes h p then (readonly_error, p)
      else case args of
             [arg0, arg1] \<Rightarrow>
               (case ParseInt (h_extractString arg1) of
                  (seconds, Some _) \<Rightarrow> (not_integer_error, p)
                | (seconds, None) \<Rightarrow>
                    (case Store_Expire P (h_extractString arg0) (seconds * Second) (clk 0) (proc_cache p) of
                       (updated, st) \<Rightarrow> (NewInteger (if updated then 1 else 0), set_cache st p)))
           | _ \<Rightarrow> (wrong_args ''expire'', p))"

definition handleTTL :: "'p EvictionPolicy \<Rightarrow> (nat \<Rightarrow> int64) \<Rightarrow> Value list \<Rightarrow> 'p proc \<Rightarrow> Value \<times> 'p proc" where
  "handleTTL P clk args p =
     (case args of
        [arg] \<Rightarrow>
          (case Store_TTL P (h_extractString arg) (clk 0) (proc_cache p) of
             ((left, found), st) \<Rightarrow>
               let sec = Seconds_int64 left;
                   sec = (if sec = 0 \<and> 0 <s left then 1 else sec);
                   response = (if \<not> found \<or> left = - 2 then - 2 else if left = - 1 then - 1 else sec)
               in (NewInteger response, set_cache st p))
      | _ \<Rightarrow> (wrong_args ''ttl'', p))"

definition handleSlaveOf :: "goenv \<Rightarrow> Handler \<Rightarrow> Value list \<Rightarrow> 'p proc \<Rightarrow> (Value \<times> 'p proc) option" where
  "handleSlaveOf G h args p =
     (case args of
        [arg0, arg1] \<Rightarrow>
          if \<not> has_repl h then None
          else Some (NewSimpleString ''OK'',
                 p\<lparr>node := SlaveOf (unicode_upper G) (h_extractString arg0) (h_extractString arg1) (node p)\<rparr>)
      | _ \<Rightarrow> Some (wrong_args ''slaveof'', p))"

definition handlePSync :: "Handler \<Rightarrow> 'p proc \<Rightarrow> Value \<times> 'p proc" where
  "handlePSync h p =
     (NewSimpleString fullresync,
      (case conn h of
         Some c \<Rightarrow> if has_master h then p\<lparr>registering := registering p @ [c]\<rparr> else p
       | None \<Rightarrow> p))"

definition handleInfo :: "goenv \<Rightarrow> (nat \<Rightarrow> int64) \<Rightarrow> Handler \<Rightarrow> 'p proc \<Rightarrow> Value" where
  "handleInfo G clk h p =
     (let uptimeSec = Seconds_int64 (Since (clk 0) (startTime h));
          keysCount = Store_Len (clk 1) (fst (proc_cache p));
          replInfo = (if has_repl h then rm_Info (clk 2) (rm (node p)) else [])
      in NewBulkStringFromString
           (''# Server'' @ nl @ ''vortex_version:0.1.0'' @ nl @ ''go_version:'' @ go_version G @ nl @
            ''process_id:'' @ FormatInt (pid G) @ nl @ ''uptime_in_seconds:'' @ FormatInt uptimeSec @ nl @ nl @
            ''# Replication'' @ nl @ replInfo @ nl @ nl @
            ''# Keyspace'' @ nl @ Stats (clk 3) (fst (proc_cache p)) @ nl @
            ''db0:keys='' @ FormatInt keysCount @ '',expires=0'' @ nl))"

definition Dispatch :: "goenv \<Rightarrow> 'p EvictionPolicy \<Rightarrow> (nat \<Rightarrow> int64) \<Rightarrow> Handler \<Rightarrow> Value \<Rightarrow> 'p proc \<Rightarrow>
    (Value \<times> 'p proc) option" where
  "Dispatch G P clk h cmd p =
     (if Type cmd \<noteq> TypeArray \<or> elems (Array cmd) = [] then
        Some (NewError ''ERR invalid command format'', p)
      else
        let cmdName = ToUpper (unicode_upper G) (h_extractString (hd (elems (Array cmd))));
            args = tl (elems (Array cmd))
        in if cmdName = ''PING'' then Some (handlePing args, p)
           else if cmdName = ''GET'' then Some (handleGet P clk args p)
           else if cmdName = ''SET'' then Some (handleSet G P clk h args p)
           else if cmdName = ''DEL'' then Some (handleDel P h args p)
           else if cmdName = ''EXISTS'' then Some (handleExists P clk args p)
           else if cmdName = ''EXPIRE'' then Some (handleExpire P clk h args p)
           else if cmdName = ''TTL'' then Some (handleTTL P clk args p)
           else if cmdName = ''INFO'' then Some (handleInfo G clk h p, p)
           else if cmdName = ''SLAVEOF'' \<or> cmdName = ''REPLICATEOF'' then handleSlaveOf G h args p
           else if cmdName = ''PSYNC'' \<or> cmdName = ''SYNC'' then Some (handlePSync h p)
           else Some (NewError (''ERR unknown command '' @ quoted cmdName), p))"

subsection \<open>Basic facts\<close>

lemma h_extractString_New [simp]:
  "h_extractString (NewBulkStringFromString s) = s" "h_extractString (NewBulkString b) = elems b"
  by (simp_all add: h_extractString_def)

lemma ToUpper_commands [simp]:
  "ToUpper up ''PING'' = ''PING''" "ToUpper up ''GET'' = ''GET''" "ToUpper up ''TTL'' = ''TTL''"
  "ToUpper up ''EXISTS'' = ''EXISTS''" "ToUpper up ''SLAVEOF'' = ''SLAVEOF''" "ToUpper up ''PSYNC'' = ''PSYNC''"
  by (simp_all add: ToUpper_def is_ascii_def upper_ascii_def)

lemma set_cache_sel [simp]:
  "cache (node (set_cache st p)) = st" "rm (node (set_cache st p)) = rm (node p)"
  "registering (set_cache st p) = registering p" "set_cache (cache (node p)) p = p"
  "monitors (node (set_cache st p)) = monitors (node p)" "loops (node (set_cache st p)) = loops (node p)"
  by (simp_all add: set_cache_def)

lemma role_inv_set_cache [simp]: "role_inv (node (set_cache st p)) = role_inv (node p)"
  by (simp add: role_inv_def split: option.split)

text \<open>A client command: an array of bulk strings.\<close>

definition cmd_value :: "string list \<Rightarrow> Value" where
  "cmd_value ws = NewArray (Some (map NewBulkStringFromString ws))"

lemma cmd_value_sel [simp]: "Type (cmd_value ws) = TypeArray" "Array (cmd_value ws) = Some (map NewBulkStringFromString ws)"
  by (simp_all add: cmd_value_def)

lemmas reply_defs = wrong_args_def readonly_error_def not_integer_error_def

subsection \<open>An error response changes nothing\<close>

lemma Store_Set_error: "Store_Set P k v d now st = (Some e, st') \<Longrightarrow> st' = st"
  by (cases st; cases "closed (fst st)") (auto simp: store_ops_closed store_ops_open Let_def)

lemma handleGet_error: "handleGet P clk args p = (v, p') \<Longrightarrow> Type v = TypeError \<Longrightarrow> p' = p"
  by (auto simp: handleGet_def split: list.splits prod.splits option.splits)

lemma handleSet_error: "handleSet G P clk h args p = (v, p') \<Longrightarrow> Type v = TypeError \<Longrightarrow> p' = p"
  by (auto simp: handleSet_def Let_def dest: Store_Set_error
      split: if_splits list.splits sum.splits prod.splits option.splits)

lemma handleDel_error: "handleDel P h args p = (v, p') \<Longrightarrow> Type v = TypeError \<Longrightarrow> p' = p"
  by (auto simp: handleDel_def split: if_splits prod.splits)

lemma handleExists_error: "handleExists P clk args p = (v, p') \<Longrightarrow> Type v = TypeError \<Longrightarrow> p' = p"
  by (auto simp: handleExists_def split: if_splits prod.splits)

lemma handleExpire_error: "handleExpire P clk h args p = (v, p') \<Longrightarrow> Type v = TypeError \<Longrightarrow> p' = p"
  by (auto simp: handleExpire_def split: if_splits list.splits prod.splits option.splits)

lemma handleTTL_error: "handleTTL P clk args p = (v, p') \<Longrightarrow> Type v = TypeError \<Longrightarrow> p' = p"
  by (auto simp: handleTTL_def Let_def split: list.splits prod.splits)

lemma handleSlaveOf_error: "handleSlaveOf G h args p = Some (v, p') \<Longrightarrow> Type v = TypeError \<Longrightarrow> p' = p"
  by (auto simp: handleSlaveOf_def split: list.splits if_splits)

lemma handlePSync_reply: "handlePSync h p = (v, p') \<Longrightarrow> Type v \<noteq> TypeError"
  by (auto simp: handlePSync_def)

lemma Dispatch_error:
  assumes "Dispatch G P clk h cmd p = Some (v, p')" and "Type v = TypeError"
  shows "p' = p"
  using assms handleGet_error [of P clk _ p v p'] handleSet_error [of G P clk h _ p v p']
    handleDel_error [of P h _ p v p'] handleExists_error [of P clk _ p v p']
    handleExpire_error [of P clk h _ p v p'] handleTTL_error [of P clk _ p v p']
    handleSlaveOf_error [of G h _ p v p'] handlePSync_reply [of h p v p']
  by (simp add: Dispatch_def Let_def split: if_splits)

lemma Dispatch_total: "has_repl h \<Longrightarrow> Dispatch G P clk h cmd p \<noteq> None"
  by (simp add: Dispatch_def Let_def handleSlaveOf_def split: list.split)

end
