(* ===== verification/Shard_Concurrency.thy ===== *)
theory Shard_Concurrency
  imports Shard
begin

text \<open>
  Goroutines share a shard through its read-write lock. \<open>get\<close>, \<open>exists\<close> and \<open>ttl\<close>
  release the read lock before they take the write lock, so other operations may run
  between their two sections. This theory interleaves the lock sections of any number of
  goroutines: a step runs one section, and a goroutine between its sections is a pending
  section. The \<open>mu\<close> lock makes each section atomic with respect to the writers of the map
  and the policy; the one field written under the read lock, \<open>AccessedAt\<close>, is read by no
  operation.

  In every interleaving the shard invariant holds, and the sections that are not writes
  (lookups, late purges, late policy updates, sweeps) are invisible to every later view.
\<close>

datatype pending = PendPurge string int64 | PendTouch string

record 'p conc =
  c_shard :: "'p shard"
  c_pending :: "pending list"

datatype label =
    WSet string "byte slice" Duration int64
  | WDelete string
  | WExpire string Duration int64
  | Quiet int64

inductive conc_step :: "'p EvictionPolicy \<Rightarrow> label \<Rightarrow> 'p conc \<Rightarrow> 'p conc \<Rightarrow> bool" for P where
  set_section:
    "conc_step P (WSet k v d now) c (c\<lparr>c_shard := shard_set P k v d now (c_shard c)\<rparr>)"
| delete_section:
    "conc_step P (WDelete k) c (c\<lparr>c_shard := snd (shard_delete P k (c_shard c))\<rparr>)"
| expire_section:
    "conc_step P (WExpire k d now) c (c\<lparr>c_shard := snd (shard_expire P k d now (c_shard c))\<rparr>)"
| lookup_missing:
    "lookup_section (\<lambda>_. ()) k now (c_shard c) = Missing \<Longrightarrow> conc_step P (Quiet now) c c"
| lookup_expired:
    "lookup_section (\<lambda>_. ()) k now (c_shard c) = Expired \<Longrightarrow>
     conc_step P (Quiet now) c (c\<lparr>c_pending := PendPurge k now # c_pending c\<rparr>)"
| get_found:
    "lookup_section (\<lambda>_. ()) k now (c_shard c) = Found () \<Longrightarrow>
     conc_step P (Quiet now) c
       (c\<lparr>c_shard := mark_access k now (c_shard c), c_pending := PendTouch k # c_pending c\<rparr>)"
| exists_found:
    "lookup_section (\<lambda>_. ()) k now (c_shard c) = Found () \<Longrightarrow>
     conc_step P (Quiet now) c (c\<lparr>c_pending := PendTouch k # c_pending c\<rparr>)"
| ttl_found:
    "lookup_section (\<lambda>_. ()) k now (c_shard c) = Found () \<Longrightarrow> conc_step P (Quiet now) c c"
| purge_section:
    "c_pending c = xs @ PendPurge k now # ys \<Longrightarrow>
     conc_step P (Quiet now) c
       (c\<lparr>c_shard := purge_expired P k now (c_shard c), c_pending := xs @ ys\<rparr>)"
| touch_section:
    "c_pending c = xs @ PendTouch k # ys \<Longrightarrow>
     conc_step P (Quiet now) c (c\<lparr>c_shard := touch P k (c_shard c), c_pending := xs @ ys\<rparr>)"
| sweep_section:
    "conc_step P (Quiet now) c (c\<lparr>c_shard := snd (activeSweep P sampleSize now order (c_shard c))\<rparr>)"

inductive_cases conc_setE: "conc_step P (WSet k v d now) c c'"
inductive_cases conc_deleteE: "conc_step P (WDelete k) c c'"
inductive_cases conc_expireE: "conc_step P (WExpire k d now) c c'"
inductive_cases conc_quietE: "conc_step P (Quiet now) c c'"

inductive conc_run :: "'p EvictionPolicy \<Rightarrow> label list \<Rightarrow> 'p conc \<Rightarrow> 'p conc \<Rightarrow> bool" for P where
  run_nil: "conc_run P [] c c"
| run_cons: "conc_step P l c c' \<Longrightarrow> conc_run P ls c' c'' \<Longrightarrow> conc_run P (l # ls) c c''"

definition conc_init :: "goint \<Rightarrow> 'p EvictionPolicyFactory \<Rightarrow> 'p conc" where
  "conc_init max_keys factory = \<lparr>c_shard = newShard max_keys factory, c_pending = []\<rparr>"

text \<open>A quiet section leaves every later view as it was, whatever ran in between.\<close>

lemma quiet_view:
  assumes "conc_step P (Quiet now) c c'" and "now \<le>s t"
  shows "shard_view (c_shard c') t = shard_view (c_shard c) t"
  using assms(1)
  by (rule conc_quietE) (simp_all add: shard_view_purge activeSweep_view assms(2))

text \<open>The labels of a run that can change what key \<open>k\<close> holds; the times of the quiet ones.\<close>

fun writes_key :: "string \<Rightarrow> label \<Rightarrow> bool" where
  "writes_key k (WSet k' v d now) \<longleftrightarrow> k' = k"
| "writes_key k (WDelete k') \<longleftrightarrow> k' = k"
| "writes_key k (WExpire k' d now) \<longleftrightarrow> k' = k"
| "writes_key k (Quiet now) \<longleftrightarrow> False"

fun label_before :: "int64 \<Rightarrow> label \<Rightarrow> bool" where
  "label_before t (WSet k v d now) \<longleftrightarrow> True"
| "label_before t (WDelete k) \<longleftrightarrow> True"
| "label_before t (WExpire k d now) \<longleftrightarrow> now \<le>s t"
| "label_before t (Quiet now) \<longleftrightarrow> now \<le>s t"

context eviction_policy
begin

lemma conc_step_inv: "conc_step P l c c' \<Longrightarrow> s_inv (c_shard c) \<Longrightarrow> s_inv (c_shard c')"
  by (induction rule: conc_step.induct)
    (simp_all add: mark_access_inv purge_expired_inv touch_inv activeSweep_inv)

lemma conc_run_inv: "conc_run P ls c c' \<Longrightarrow> s_inv (c_shard c) \<Longrightarrow> s_inv (c_shard c')"
  by (induction rule: conc_run.induct) (auto intro: conc_step_inv)

end

subsection \<open>How long a key survives in a shard with a recency policy\<close>

text \<open>
  The rank of a key is the number of keys used more recently. A section moves at most one
  key to the front, so it raises the rank of any other key by at most one; and only the key
  of the highest rank is evicted, when the shard is full.
\<close>

definition rank :: "'a \<Rightarrow> 'a list \<Rightarrow> nat" where
  "rank k xs = length (takeWhile (\<lambda>x. x \<noteq> k) xs)"

lemma rank_Cons [simp]: "rank k (a # xs) = (if a = k then 0 else Suc (rank k xs))"
  by (simp add: rank_def)

lemma rank_Nil [simp]: "rank k [] = 0"
  by (simp add: rank_def)

lemma rank_remove1: "a \<noteq> k \<Longrightarrow> rank k (remove1 a xs) \<le> rank k xs"
  by (induction xs) auto

lemma rank_butlast: "k \<in> set xs \<Longrightarrow> k \<noteq> last xs \<Longrightarrow> rank k (butlast xs) = rank k xs"
  by (induction xs) auto

lemma rank_last: "xs \<noteq> [] \<Longrightarrow> distinct xs \<Longrightarrow> Suc (rank (last xs) xs) = length xs"
  by (induction xs) auto

context recency_policy
begin

abbreviation r_inv :: "'p shard \<Rightarrow> bool" where
  "r_inv \<equiv> shard_inv invar (\<lambda>p. set (order p))"

definition shard_rank :: "string \<Rightarrow> 'p shard \<Rightarrow> nat" where
  "shard_rank k s = (case eviction s of None \<Rightarrow> 0 | Some p \<Rightarrow> rank k (order p))"

lemma policy_inv: "r_inv s \<Longrightarrow> eviction s = Some p \<Longrightarrow> invar p \<and> set (order p) = dom (map_of (items s))"
  by (simp add: inv_defs set_keys_of)

lemma rank_promote: "invar p \<Longrightarrow> rank k (order (OnSet P a p)) \<le> Suc (rank k (order p))"
    "invar p \<Longrightarrow> rank k (order (OnGet P a p)) \<le> Suc (rank k (order p))"
  using rank_remove1 [of a k "order p"] by (auto simp: order_OnSet order_OnGet)

lemma shard_rank_ops:
  assumes "r_inv s"
  shows "a \<noteq> k \<Longrightarrow> shard_rank k (remove_key P a s) \<le> shard_rank k s"
    and "shard_rank k (notify_policy (OnSet P a) (s\<lparr>items := m\<rparr>)) \<le> Suc (shard_rank k s)"
    and "shard_rank k (touch P a s) \<le> Suc (shard_rank k s)"
    and "shard_rank k (mark_access a now s) = shard_rank k s"
  using policy_inv [OF assms] rank_promote [of _ k a] rank_remove1 [of a k]
  by (auto simp: shard_rank_def remove_key_def notify_policy_def touch_def order_OnDelete le_SucI split: option.split)

lemma shard_rank_store: "r_inv s \<Longrightarrow> shard_rank k (store_entry P a e s) \<le> Suc (shard_rank k s)"
  unfolding store_entry_def by (rule shard_rank_ops(2))

lemma shard_rank_set:
  assumes "r_inv s"
  shows "shard_rank k (shard_set P k v d now s) = 0"
proof -
  have inv: "r_inv (evict_if_full P s)" by (rule evict_if_full_inv [OF assms])
  have "shard_rank k (store_entry P k e s') = 0" if "r_inv s'" for e s'
    using policy_inv [OF that]
    by (auto simp: shard_rank_def store_entry_def notify_policy_def order_OnSet split: option.split)
  with assms inv show ?thesis by (simp add: shard_set_def split: option.split)
qed

lemma shard_rank_purge:
  assumes "r_inv s" and "map_of (items (purge_expired P a now s)) k \<noteq> None"
  shows "shard_rank k (purge_expired P a now s) \<le> shard_rank k s"
proof (cases "a = k")
  case True
  with assms(2) show ?thesis by (auto simp: purge_expired_def split: option.splits if_splits)
next
  case False
  then show ?thesis using shard_rank_ops(1) [OF assms(1)] by (auto simp: purge_expired_def split: option.split)
qed

lemma shard_rank_sweep:
  assumes "r_inv s" and "map_of (items (snd (sweep_loop P sz now ks e n s))) k \<noteq> None"
  shows "shard_rank k (snd (sweep_loop P sz now ks e n s)) \<le> shard_rank k s"
  using assms
proof (induction ks arbitrary: e n s)
  case (Cons a ks)
  show ?case
  proof (cases "sint sz \<le> int n \<or> \<not> expired_key s now a")
    case True
    with Cons show ?thesis by (auto simp: expired_key_def split: option.splits)
  next
    case False
    then obtain en where en: "map_of (items s) a = Some en" "IsExpired en now"
      by (auto simp: expired_key_def split: option.splits)
    let ?s = "remove_key P a s"
    have eq: "sweep_loop P sz now (a # ks) e n s = sweep_loop P sz now ks (Suc e) (Suc n) ?s"
      using False en by simp
    have "a \<noteq> k"
      using Cons.prems(2) sweep_loop_map [of P sz now ks "Suc e" "Suc n" ?s a] unfolding eq by auto
    with Cons.IH [OF remove_key_inv [OF Cons.prems(1)], of "Suc e" "Suc n" a] Cons.prems(2)
      shard_rank_ops(1) [OF Cons.prems(1)] show ?thesis
      unfolding eq by (meson le_trans)
  qed
qed simp

lemma shard_rank_activeSweep:
  assumes "r_inv s" and "map_of (items (snd (activeSweep P sz now ks s))) k \<noteq> None"
  shows "shard_rank k (snd (activeSweep P sz now ks s)) \<le> shard_rank k s"
  using assms shard_rank_sweep [OF assms(1), of sz now ks 0 0 k] by (auto simp: activeSweep_def split: if_splits)

lemma shard_view_Some_mem: "shard_view s t k = Some x \<Longrightarrow> map_of (items s) k \<noteq> None"
  by (auto simp: shard_view_def split: option.splits)

text \<open>A \<open>set\<close> of another key: the key stays, or it was the last one of a full shard.\<close>

lemma shard_set_other:
  assumes inv: "r_inv s" and "a \<noteq> k" and v: "shard_view s t k = Some x"
  shows "shard_view (shard_set P a w d now s) t k = Some x \<and> shard_rank k (shard_set P a w d now s) \<le> Suc (shard_rank k s) \<or>
    shard_view (shard_set P a w d now s) t k = None \<and> eviction s \<noteq> None \<and> 0 <s maxKeys s \<and>
      sint (maxKeys s) \<le> int (Suc (shard_rank k s))"
proof (cases "map_of (items s) a = None \<and> eviction s \<noteq> None \<and> 0 <s maxKeys s \<and> sint (maxKeys s) \<le> int (length (items s))")
  case True
  then obtain p where p: "eviction s = Some p" and new: "map_of (items s) a = None" and pos: "0 <s maxKeys s" by auto
  have full: "int (length (items s)) = sint (maxKeys s)" using inv True by (simp add: inv_defs)
  have pi: "distinct (order p)" "set (order p) = dom (map_of (items s))"
    using policy_inv [OF inv p] order_distinct by simp_all
  have len: "length (order p) = length (items s)"
    using pi inv wf_map_length [of "items s"] distinct_card [of "order p"] by (simp add: shard_inv_def)
  have k: "k \<in> set (order p)" using shard_view_Some_mem [OF v] pi(2) by auto
  obtain p' where r: "map_of (items (shard_set P a w d now s)) =
        (map_of (items s))(last (order p) := None, a \<mapsto> NewEntry w d now)"
      "eviction (shard_set P a w d now s) = Some p'" "order p' = a # butlast (order p)"
    using shard_set_evicts [OF inv p new pos full] by blast
  show ?thesis
  proof (cases "k = last (order p)")
    case True
    with k pi(1) have "Suc (rank k (order p)) = length (order p)" by (metis rank_last empty_iff empty_set)
    with True len full p pos r assms(2) show ?thesis by (simp add: shard_view_def shard_rank_def)
  next
    case False
    with r p k v assms(2) show ?thesis by (simp add: shard_view_def shard_rank_def rank_butlast)
  qed
next
  case False
  then have "map_of (items s) a = None \<Longrightarrow> evict_if_full P s = s" by (auto simp: evict_if_full_def split: option.split)
  then have "shard_set P a w d now s = store_entry P a (NewEntry w d now) s"
    by (auto simp: shard_set_def split: option.split)
  with assms shard_rank_store [OF inv] show ?thesis by simp
qed

lemma shard_rank_expire:
  assumes "r_inv s" and "a \<noteq> k"
  shows "shard_rank k (snd (shard_expire P a d now s)) \<le> Suc (shard_rank k s)"
  using shard_rank_ops(1) [OF assms] shard_rank_ops(2) [OF assms(1), of k a]
  by (auto simp: shard_expire_def le_SucI split: option.split)

lemma quiet_rank:
  assumes "conc_step P (Quiet now) c c'" and "r_inv (c_shard c)" and "map_of (items (c_shard c')) k \<noteq> None"
  shows "shard_rank k (c_shard c') \<le> Suc (shard_rank k (c_shard c))"
  using assms(1)
  by (rule conc_quietE)
    (use assms(2,3) shard_rank_ops [OF assms(2)] shard_rank_purge [OF assms(2)] shard_rank_activeSweep [OF assms(2)] in
      \<open>auto simp: le_SucI\<close>)

lemma conc_step_rank:
  assumes st: "conc_step P l c c'" and inv: "r_inv (c_shard c)" and l: "\<not> writes_key k l" "label_before t l"
    and v: "shard_view (c_shard c) t k = Some x"
  shows "shard_view (c_shard c') t k = Some x \<and> shard_rank k (c_shard c') \<le> Suc (shard_rank k (c_shard c)) \<or>
    shard_view (c_shard c') t k = None \<and> eviction (c_shard c) \<noteq> None \<and> 0 <s maxKeys (c_shard c) \<and>
      sint (maxKeys (c_shard c)) \<le> int (Suc (shard_rank k (c_shard c)))"
proof (cases l)
  case (WSet a w d now)
  with st l(1) have "a \<noteq> k" "c_shard c' = shard_set P a w d now (c_shard c)" by (auto elim!: conc_setE)
  with shard_set_other [OF inv this(1) v] show ?thesis by simp
next
  case (WDelete a)
  with st l(1) have a: "a \<noteq> k" "c_shard c' = snd (shard_delete P a (c_shard c))" by (auto elim!: conc_deleteE)
  then have "shard_rank k (c_shard c') \<le> Suc (shard_rank k (c_shard c))"
    using shard_rank_ops(1) [OF inv a(1)] by (auto simp: shard_delete_def le_SucI split: option.split)
  with a v show ?thesis by (simp add: shard_view_delete)
next
  case (WExpire a d now)
  with st l have "a \<noteq> k" "c_shard c' = snd (shard_expire P a d now (c_shard c))" "now \<le>s t" by (auto elim!: conc_expireE)
  with v shard_rank_expire [OF inv this(1)] show ?thesis by (simp add: shard_view_expire split: option.split)
next
  case (Quiet now)
  then have "shard_view (c_shard c') t k = Some x" using quiet_view [of P now c c' t] st l(2) v by simp
  with quiet_rank [of now c c' k] shard_view_Some_mem st inv Quiet show ?thesis by metis
qed

text \<open>A key without a visible value does not get one back.\<close>

lemma conc_step_none:
  assumes "conc_step P l c c'" and "r_inv (c_shard c)" and "\<not> writes_key k l" and "label_before t l"
    and "shard_view (c_shard c) t k = None"
  shows "shard_view (c_shard c') t k = None"
proof (cases l)
  case (WSet a w d now)
  with assms shard_view_set(2) [OF assms(2), of k a w d now t] show ?thesis by (auto elim!: conc_setE)
next
  case (WDelete a)
  with assms show ?thesis by (auto elim!: conc_deleteE simp: shard_view_delete)
next
  case (WExpire a d now)
  with assms show ?thesis by (auto elim!: conc_expireE simp: shard_view_expire split: option.split)
next
  case (Quiet now)
  with assms quiet_view show ?thesis by (metis label_before.simps(4))
qed

lemma conc_step_frame:
  "conc_step P l c c' \<Longrightarrow> maxKeys (c_shard c') = maxKeys (c_shard c) \<and>
     (eviction (c_shard c') = None \<longleftrightarrow> eviction (c_shard c) = None)"
  by (induction rule: conc_step.induct) simp_all

lemma conc_run_rank:
  assumes "conc_run P ls c c'" and "r_inv (c_shard c)" and "list_all (\<lambda>l. \<not> writes_key k l \<and> label_before t l) ls"
  shows "shard_view (c_shard c') t k = shard_view (c_shard c) t k \<or>
    shard_view (c_shard c') t k = None \<and> eviction (c_shard c) \<noteq> None \<and> 0 <s maxKeys (c_shard c) \<and>
      sint (maxKeys (c_shard c)) \<le> int (shard_rank k (c_shard c) + length ls)"
  using assms
proof (induction rule: conc_run.induct)
  case (run_cons l c c' ls c'')
  have l: "\<not> writes_key k l" "label_before t l" and ls: "list_all (\<lambda>l. \<not> writes_key k l \<and> label_before t l) ls"
    using run_cons.prems(2) by simp_all
  have inv: "r_inv (c_shard c')" by (rule conc_step_inv [OF run_cons.hyps(1) run_cons.prems(1)])
  note ih = run_cons.IH [OF inv ls] and fr = conc_step_frame [OF run_cons.hyps(1)]
  show ?case
  proof (cases "shard_view (c_shard c) t k")
    case None
    with conc_step_none [OF run_cons.hyps(1) run_cons.prems(1) l] ih show ?thesis by auto
  next
    case (Some x)
    from conc_step_rank [OF run_cons.hyps(1) run_cons.prems(1) l Some] ih fr Some show ?thesis by auto
  qed
qed simp

end

text \<open>The sequential \<open>get\<close> is the run of its two sections with nothing in between.\<close>

lemma shard_get_is_run:
  "\<exists>ls. conc_run P ls \<lparr>c_shard = s, c_pending = ps\<rparr> \<lparr>c_shard = snd (shard_get P k now s), c_pending = ps\<rparr>"
proof (cases "lookup_section (\<lambda>_. ()) k now s")
  case Missing
  then have "snd (shard_get P k now s) = s"
    by (auto simp: shard_get_def lookup_section_def split: option.splits if_splits)
  then show ?thesis using run_nil by fastforce
next
  case Expired
  let ?c = "\<lparr>c_shard = s, c_pending = ps\<rparr>"
  have "conc_step P (Quiet now) ?c (?c\<lparr>c_pending := PendPurge k now # ps\<rparr>)"
    using lookup_expired [of k now ?c P] Expired by simp
  moreover have "conc_step P (Quiet now) (?c\<lparr>c_pending := PendPurge k now # ps\<rparr>)
      \<lparr>c_shard = purge_expired P k now s, c_pending = ps\<rparr>"
    using purge_section [of "?c\<lparr>c_pending := PendPurge k now # ps\<rparr>" "[]" k now ps P] by simp
  moreover have "snd (shard_get P k now s) = purge_expired P k now s"
    using Expired by (auto simp: shard_get_def lookup_section_def split: option.splits if_splits)
  ultimately show ?thesis using run_cons [OF _ run_cons [OF _ run_nil]] by fastforce
next
  case (Found u)
  let ?c = "\<lparr>c_shard = s, c_pending = ps\<rparr>"
  let ?c' = "\<lparr>c_shard = mark_access k now s, c_pending = PendTouch k # ps\<rparr>"
  have "conc_step P (Quiet now) ?c ?c'" using get_found [of k now ?c P] Found by simp
  moreover have "conc_step P (Quiet now) ?c' \<lparr>c_shard = touch P k (mark_access k now s), c_pending = ps\<rparr>"
    using touch_section [of ?c' "[]" k ps P now] by simp
  moreover have "snd (shard_get P k now s) = touch P k (mark_access k now s)"
    using Found by (auto simp: shard_get_def lookup_section_def split: option.splits if_splits)
  ultimately show ?thesis using run_cons [OF _ run_cons [OF _ run_nil]] by fastforce
qed

end
