(* ===== verification/Store_Properties.thy ===== *)
theory Store_Properties
  imports Cache_Store Shard_Concurrency
begin

text \<open>
  The properties of the store package, from the LRU list up to the sharded store. Each is
  stated over the definitions of the model and obtained from the contracts of
  \<open>Eviction_Policy\<close> and \<open>Expiring_Map\<close> through the interpretation \<open>lru\<close>. The witnesses
  run on a small store that \<open>NewStore\<close> builds.
\<close>

abbreviation lru_shard_inv :: "lruPolicy shard \<Rightarrow> bool" where
  "lru_shard_inv \<equiv> shard_inv lru_inv (\<lambda>p. set (lru_keys p))"

abbreviation lru_open :: "(lruPolicy, 'e) Store \<times> 'e \<Rightarrow> bool" where
  "lru_open \<equiv> open_store lru_inv (\<lambda>p. set (lru_keys p))"

subsection \<open>Sequences of store operations\<close>

fun store_apply :: "'p EvictionPolicy \<Rightarrow> int64 \<Rightarrow> map_op \<Rightarrow> ('p, 'e) Store \<times> 'e \<Rightarrow> ('p, 'e) Store \<times> 'e" where
  "store_apply P now (OpSet k v d) st = snd (Store_Set P k v d now st)"
| "store_apply P now (OpGet k) st = snd (Store_Get P k now st)"
| "store_apply P now (OpDelete k) st = snd (Store_Delete P k st)"
| "store_apply P now (OpExists k) st = snd (Store_Exists P k now st)"
| "store_apply P now (OpTTL k) st = snd (Store_TTL P k now st)"
| "store_apply P now (OpExpire k d) st = snd (Store_Expire P k d now st)"

fun store_run :: "'p EvictionPolicy \<Rightarrow> (int64 \<times> map_op) list \<Rightarrow> ('p, 'e) Store \<times> 'e \<Rightarrow> ('p, 'e) Store \<times> 'e" where
  "store_run P [] st = st"
| "store_run P ((now, x) # xs) st = store_run P xs (store_apply P now x st)"

lemma store_apply_step: "store_apply lruPolicy_methods now x st = lru.plain.step now x st"
  by (cases x) simp_all

lemma store_run_run: "store_run lruPolicy_methods xs st = lru.plain.run xs st"
proof (induction xs arbitrary: st)
  case (Cons x xs)
  then show ?case by (cases x) (simp add: store_apply_step)
qed simp

lemma store_apply_inv:
  "lru_open st \<Longrightarrow> lru_open (store_apply lruPolicy_methods now x st)"
  by (cases x) simp_all

lemma store_run_inv: "lru_open st \<Longrightarrow> lru_open (store_run lruPolicy_methods xs st)"
proof (induction xs arbitrary: st)
  case (Cons x xs)
  then show ?case by (cases x) (simp add: store_apply_inv)
qed simp

text \<open>The same with the results of the calls.\<close>

fun store_calls :: "'p EvictionPolicy \<Rightarrow> (int64 \<times> map_op) list \<Rightarrow> ('p, 'e) Store \<times> 'e \<Rightarrow>
    StoreErr op_result list \<times> ('p, 'e) Store \<times> 'e" where
  "store_calls P [] st = ([], st)"
| "store_calls P ((now, x) # xs) st =
     (let (r, st1) = store_call P now x st; (rs, st2) = store_calls P xs st1 in (r # rs, st2))"

lemma store_call_apply: "snd (store_call P now x st) = store_apply P now x st"
  by (cases x) (simp_all split: prod.split)

lemma store_calls_run: "snd (store_calls P xs st) = store_run P xs st"
proof (induction xs arbitrary: st)
  case (Cons y xs)
  then show ?case by (cases y) (simp add: Let_def store_call_apply split: prod.split, metis snd_conv store_call_apply)
qed simp

lemma store_calls_refines:
  assumes "open_lossless lru_inv (\<lambda>p. set (lru_keys p)) st"
  shows "fst (store_calls lruPolicy_methods xs st) = fst (ref_run xs (store_contents (fst st))) \<and>
    store_contents (fst (snd (store_calls lruPolicy_methods xs st))) =
      snd (ref_run xs (store_contents (fst st)) :: StoreErr op_result list \<times> _)"
  using assms
proof (induction xs arbitrary: st)
  case (Cons y xs)
  obtain now x where y: "y = (now, x)" by fastforce
  obtain r st1 where c: "store_call lruPolicy_methods now x st = (r, st1)" by (metis prod.exhaust)
  have "st1 = lru.plain.step now x st" using store_call_apply [of lruPolicy_methods now x st] c by (simp add: store_apply_step)
  then have "open_lossless lru_inv (\<lambda>p. set (lru_keys p)) st1" using lru.plain.inv_step [OF Cons.prems] by simp
  from Cons.IH [OF this] store_call_refines [OF Cons.prems c] show ?case
    by (auto simp: y c Let_def split: prod.split)
qed simp

subsection \<open>A small store for the witnesses\<close>

definition demo_config :: "lruPolicy Config" where
  "demo_config = WithLRUEviction 2 3"

definition demo_hash :: "string \<Rightarrow> 64 word" where
  "demo_hash k = word_of_nat (length k)"

definition demo_store :: "(lruPolicy, unit) Store" where
  "demo_store =
     \<lparr>cfg = demo_config, shards = replicate 2 (newShard 3 (Some NewLRUPolicy)), shardMask = 1,
      seed = demo_hash, ctx_done = False, closed = False, onWriteHooks = []\<rparr>"

lemma demo_store_new: "NewStore demo_config demo_hash = Inr demo_store"
  by (simp add: NewStore_def demo_config_def WithLRUEviction_def DefaultConfig_def demo_store_def
      make_ok_pointers signed_simps numeral_2_eq_2)

lemma demo_factory: "factory_ok lru_inv (\<lambda>p. set (lru_keys p)) demo_config"
  by (simp add: factory_ok_def demo_config_def WithLRUEviction_def lru_empty_refines)

lemma demo_open: "lru_open (demo_store, ())"
  by (rule NewStore_inv [OF demo_store_new demo_factory])

definition plain_store :: "(lruPolicy, unit) Store" where
  "plain_store = demo_store\<lparr>cfg := DefaultConfig\<lparr>ShardCount := 2\<rparr>, shards := replicate 2 (newShard 0 None)\<rparr>"

lemma plain_store_new: "NewStore (DefaultConfig\<lparr>ShardCount := 2\<rparr>) demo_hash = Inr plain_store"
  by (simp add: NewStore_def DefaultConfig_def plain_store_def demo_store_def make_ok_pointers signed_simps)

lemma plain_lossless: "open_lossless lru_inv (\<lambda>p. set (lru_keys p)) (plain_store, ())"
proof -
  have "lru_open (plain_store, ())"
    by (rule NewStore_inv [OF plain_store_new]) (simp add: factory_ok_def DefaultConfig_def)
  moreover have "no_eviction plain_store"
    by (rule NewStore_no_eviction [OF plain_store_new]) (simp add: DefaultConfig_def)
  ultimately show ?thesis by (simp add: open_lossless_def)
qed

subsection \<open>The LRU list\<close>

text \<open>
  C5. The doubly linked list of \<open>lru.go\<close> implements a list of keys by recency. On every
  well-formed policy state, \<open>OnGet\<close> moves a known key to the front and ignores others,
  \<open>OnSet\<close> puts its key at the front, \<open>OnDelete\<close> removes it, \<open>SelectEvict\<close> returns the
  last key of the list or nothing when it is empty, \<open>Clear\<close> empties it, and every method
  leaves the pointers well-formed.
\<close>

theorem lru_methods_refine_recency_list:
  assumes "lru_inv p"
  shows "lru_inv (lru_OnGet k p) \<and>
    lru_keys (lru_OnGet k p) = (if k \<in> set (lru_keys p) then k # remove1 k (lru_keys p) else lru_keys p) \<and>
    lru_inv (lru_OnSet k p) \<and> lru_keys (lru_OnSet k p) = k # remove1 k (lru_keys p) \<and>
    lru_inv (lru_OnDelete k p) \<and> lru_keys (lru_OnDelete k p) = remove1 k (lru_keys p) \<and>
    lru_SelectEvict p = (p, last_opt (lru_keys p)) \<and>
    lru_inv (lru_Clear p) \<and> lru_keys (lru_Clear p) = []"
  using assms lru_OnGet_refines lru_OnSet_refines lru_OnDelete_refines lru_SelectEvict_refines
    lru_empty_refines by simp

lemma demo_lru:
  "lru_inv (lru_OnSet ''b'' (lru_OnSet ''a'' NewLRUPolicy))"
  "lru_keys (lru_OnSet ''b'' (lru_OnSet ''a'' NewLRUPolicy)) = [''b'', ''a'']"
  by (simp_all add: lru_OnSet_refines lru_empty_refines)

theorem lru_methods_refine_recency_list_witness:
  "lru_keys (lru_OnGet ''a'' (lru_OnSet ''b'' (lru_OnSet ''a'' NewLRUPolicy))) = [''a'', ''b''] \<and>
   snd (lru_SelectEvict (lru_OnSet ''b'' (lru_OnSet ''a'' NewLRUPolicy))) = Some ''a''"
  using lru_methods_refine_recency_list [OF demo_lru(1), of "''a''"]
  by (simp add: demo_lru(2) last_opt_def)

subsection \<open>Shards\<close>

text \<open>
  C22. Inserting a new key into a shard that is at its limit evicts exactly the least
  recently used key: every other entry stays, the new entry is stored, and the recency
  order becomes the new key followed by the old order without its last key.
\<close>

theorem shard_set_evicts_least_recent:
  assumes "lru_shard_inv s" and "eviction s = Some p" and "map_of (items s) k = None"
    and "0 <s maxKeys s" and "int (length (items s)) = sint (maxKeys s)"
  shows "\<exists>p'. map_of (items (shard_set lruPolicy_methods k v d now s)) =
      (map_of (items s))(last (lru_keys p) := None, k \<mapsto> NewEntry v d now) \<and>
      eviction (shard_set lruPolicy_methods k v d now s) = Some p' \<and>
      lru_keys p' = k # butlast (lru_keys p)"
  using assms by (rule lru.shard_set_evicts)

definition demo_shard :: "lruPolicy shard" where
  "demo_shard = shard_set lruPolicy_methods ''b'' (Some ''2'') 0 6
     (shard_set lruPolicy_methods ''a'' (Some ''1'') 0 5 (newShard 2 (Some NewLRUPolicy)))"

lemma demo_shard_facts:
  "eviction demo_shard = Some (lru_OnSet ''b'' (lru_OnSet ''a'' NewLRUPolicy))"
  "map_of (items demo_shard) ''c'' = None" "maxKeys demo_shard = 2" "length (items demo_shard) = 2"
  "map_of (items demo_shard) ''a'' = Some (NewEntry (Some ''1'') 0 5)"
  by (simp_all add: demo_shard_def shard_set_def newShard_def store_entry_def notify_policy_def
      evict_if_full_def lruPolicy_methods_def signed_simps)

lemma newShard_lru_inv: "lru_shard_inv (newShard n (Some NewLRUPolicy))"
  by (simp add: inv_defs newShard_def lru_empty_refines signed_simps)

lemma demo_shard_inv: "lru_shard_inv demo_shard"
  by (simp add: demo_shard_def lru.shard.inv_set newShard_lru_inv)

theorem shard_set_evicts_least_recent_witness:
  "map_of (items (shard_set lruPolicy_methods ''c'' (Some ''3'') 0 7 demo_shard)) ''a'' = None \<and>
   map_of (items (shard_set lruPolicy_methods ''c'' (Some ''3'') 0 7 demo_shard)) ''b'' \<noteq> None"
proof -
  have "map_of (items demo_shard) ''b'' = Some (NewEntry (Some ''2'') 0 6)"
    by (simp add: demo_shard_def shard_set_def newShard_def store_entry_def notify_policy_def
        evict_if_full_def lruPolicy_methods_def signed_simps)
  with shard_set_evicts_least_recent [OF demo_shard_inv demo_shard_facts(1,2), of "Some ''3''" 0 7]
  show ?thesis by (auto simp: demo_shard_facts demo_lru signed_simps)
qed

text \<open>
  C7. In every interleaving of the lock sections of any number of goroutines, started from
  a new shard with the LRU policy, the shard's map has distinct keys, the policy's list is
  well-formed and holds exactly the keys of the map, and a positive limit is never exceeded.
\<close>

theorem interleavings_keep_shard_inv:
  assumes "conc_run lruPolicy_methods ls (conc_init n (Some NewLRUPolicy)) c"
  shows "lru_shard_inv (c_shard c) \<and>
    (0 <s maxKeys (c_shard c) \<and> eviction (c_shard c) \<noteq> None \<longrightarrow>
      int (length (items (c_shard c))) \<le> sint (maxKeys (c_shard c)))"
proof -
  have "lru_shard_inv (c_shard c)"
    by (rule lru.conc_run_inv [OF assms]) (simp add: conc_init_def newShard_lru_inv)
  then show ?thesis by (simp add: shard_inv_def within_capacity_def)
qed

definition demo_conc :: "lruPolicy conc" where
  "demo_conc = (conc_init 1 (Some NewLRUPolicy))
     \<lparr>c_shard := shard_set lruPolicy_methods ''a'' (Some ''1'') 4 5 (newShard 1 (Some NewLRUPolicy))\<rparr>"

lemma demo_conc_run:
  "conc_run lruPolicy_methods [WSet ''a'' (Some ''1'') 4 5] (conc_init 1 (Some NewLRUPolicy)) demo_conc"
  using set_section [of lruPolicy_methods "''a''" "Some ''1''" 4 5 "conc_init 1 (Some NewLRUPolicy)"]
  by (intro run_cons [OF _ run_nil]) (simp add: demo_conc_def conc_init_def)

theorem interleavings_keep_shard_inv_witness: "lru_shard_inv (c_shard demo_conc)"
  using interleavings_keep_shard_inv [OF demo_conc_run] by simp

text \<open>
  C23. A completed \<open>set\<close> is not undone by operations that were under way when it ran. Whatever
  lock sections of other goroutines follow it on its shard (late purges of the same key and
  late policy updates decided before it, lookups, sweeps, writes of other keys), as long as
  none of them writes the key, the key shows the written value exactly until its deadline;
  the one exception is a shard with the LRU policy and a limit, which may have evicted the
  key, but not before as many sections have run as the limit allows keys.
\<close>

theorem stale_sections_keep_set:
  assumes "lru_shard_inv (c_shard c)"
    and "conc_run lruPolicy_methods ls (c\<lparr>c_shard := shard_set lruPolicy_methods k v d now (c_shard c)\<rparr>) c'"
    and "list_all (\<lambda>l. \<not> writes_key k l \<and> label_before t l) ls"
  shows "shard_view (c_shard c') t k = live (elems v) (deadline d now) t \<or>
    shard_view (c_shard c') t k = None \<and> eviction (c_shard c) \<noteq> None \<and> 0 <s maxKeys (c_shard c) \<and>
      sint (maxKeys (c_shard c)) \<le> int (length ls)"
proof -
  let ?s = "shard_set lruPolicy_methods k v d now (c_shard c)"
  have inv: "lru_shard_inv ?s" by (rule lru.shard.inv_set [OF assms(1)])
  have "lru.shard_rank k ?s = 0" by (rule lru.shard_rank_set [OF assms(1)])
  with lru.conc_run_rank [OF assms(2) _ assms(3)] inv lru.shard.view_set [OF assms(1), of k v d now t]
  show ?thesis by auto
qed

text \<open>
  A goroutine saw key \<open>a\<close> expired at time 10 and another found it live before; the key is set
  anew; then the purge and the policy update run, on a shard that holds three keys at most.
\<close>

theorem stale_sections_keep_set_witness:
  "shard_view (touch lruPolicy_methods ''a'' (purge_expired lruPolicy_methods ''a'' 10
     (shard_set lruPolicy_methods ''a'' (Some ''new'') 0 11
       (shard_set lruPolicy_methods ''a'' (Some ''old'') 4 5 (newShard 3 (Some NewLRUPolicy)))))) 12 ''a'' = Some (''new'', 0)"
proof -
  let ?P = lruPolicy_methods
  let ?c = "\<lparr>c_shard = shard_set ?P ''a'' (Some ''old'') 4 5 (newShard 3 (Some NewLRUPolicy)),
      c_pending = [PendPurge ''a'' 10, PendTouch ''a'']\<rparr>"
  let ?c1 = "?c\<lparr>c_shard := shard_set ?P ''a'' (Some ''new'') 0 11 (c_shard ?c)\<rparr>"
  let ?c2 = "?c1\<lparr>c_shard := purge_expired ?P ''a'' 10 (c_shard ?c1), c_pending := [PendTouch ''a'']\<rparr>"
  let ?c3 = "?c2\<lparr>c_shard := touch ?P ''a'' (c_shard ?c2), c_pending := []\<rparr>"
  have "conc_step ?P (Quiet 10) ?c1 ?c2"
    using purge_section [of ?c1 "[]" "''a''" 10 "[PendTouch ''a'']" ?P] by simp
  moreover have "conc_step ?P (Quiet 12) ?c2 ?c3"
    using touch_section [of ?c2 "[]" "''a''" "[]" ?P 12] by simp
  ultimately have run: "conc_run ?P [Quiet 10, Quiet 12] ?c1 ?c3" by (intro run_cons [OF _ run_cons [OF _ run_nil]])
  have "lru_shard_inv (c_shard ?c)" by (simp add: lru.shard.inv_set newShard_lru_inv)
  from stale_sections_keep_set [OF this run, of 12] show ?thesis
    by (simp add: signed_simps deadline_def newShard_def)
qed

text \<open>
  C25. One pass of \<open>activeSweep\<close> over a shard, in whatever order the loop visits the keys:
  it examines the first keys of that order, as many as there are or as the sample size
  allows if that is less; of these it removes exactly the expired ones, and it returns how
  many it removed and how many it examined. Every other entry stays as it was, and the
  policy keeps tracking exactly the keys of the map.
\<close>

theorem activeSweep_removes_exactly_expired:
  assumes "lru_shard_inv s" and "is_range (items s) order"
    and "activeSweep lruPolicy_methods sampleSize now order s = ((expired, sampled), s')"
  shows "sampled = min (length (items s)) (nat (sint sampleSize)) \<and>
    expired = length (filter (expired_key s now) (take sampled order)) \<and>
    map_of (items s') k =
      (if k \<in> set (take sampled order) \<and> expired_key s now k then None else map_of (items s) k) \<and>
    lru_shard_inv s'"
proof -
  have wf: "wf_map (items s)" using assms(1) by (simp add: shard_inv_def)
  have len: "length order = length (items s)" by (rule is_range_length [OF wf assms(2)])
  have inv: "lru_shard_inv s'" using lru.activeSweep_inv [OF assms(1), of sampleSize now order] assms(3) by simp
  show ?thesis
  proof (cases "items s = []")
    case True
    with assms(3) inv show ?thesis by (auto simp: activeSweep_def)
  next
    case False
    then have "sweep_loop lruPolicy_methods sampleSize now order 0 0 s = ((expired, sampled), s')"
      using assms(3) by (simp add: activeSweep_def)
    moreover have "distinct order" "set order \<subseteq> dom (map_of (items s))"
      using assms(2) by (simp_all add: is_range_def set_keys_of)
    ultimately show ?thesis
      using sweep_loop_exact [of order s lruPolicy_methods sampleSize now 0 0 expired sampled s' _ k] len inv by auto
  qed
qed

text \<open>Three keys, two of them expired at time 100, and a sample of two: one of the two goes.\<close>

definition demo_expiring :: "lruPolicy shard" where
  "demo_expiring = shard_set lruPolicy_methods ''c'' (Some ''3'') 4 7
     (shard_set lruPolicy_methods ''b'' (Some ''2'') 0 6
       (shard_set lruPolicy_methods ''a'' (Some ''1'') 4 5 (newShard 0 (Some NewLRUPolicy))))"

theorem activeSweep_removes_exactly_expired_witness:
  "\<exists>s'. activeSweep lruPolicy_methods 2 100 [''b'', ''c'', ''a''] demo_expiring = ((1, 2), s') \<and>
     map_of (items s') ''c'' = None \<and> map_of (items s') ''a'' = Some (NewEntry (Some ''1'') 4 5)"
proof -
  have inv: "lru_shard_inv demo_expiring" by (simp add: demo_expiring_def lru.shard.inv_set newShard_lru_inv)
  have it: "items demo_expiring = [(''a'', NewEntry (Some ''1'') 4 5), (''b'', NewEntry (Some ''2'') 0 6),
      (''c'', NewEntry (Some ''3'') 4 7)]"
    by (simp add: demo_expiring_def shard_set_def newShard_def store_entry_def notify_policy_def
        evict_if_full_def lruPolicy_methods_def signed_simps)
  then have "is_range (items demo_expiring) [''b'', ''c'', ''a'']" by (auto simp: is_range_def)
  moreover obtain e n s' where r: "activeSweep lruPolicy_methods 2 100 [''b'', ''c'', ''a''] demo_expiring = ((e, n), s')"
    by (metis prod.exhaust)
  ultimately have "n = 2 \<and> e = 1 \<and> map_of (items s') ''c'' = None \<and> map_of (items s') ''a'' = Some (NewEntry (Some ''1'') 4 5)"
    using activeSweep_removes_exactly_expired [OF inv _ r, of "''c''"] activeSweep_removes_exactly_expired [OF inv _ r, of "''a''"]
    by (simp add: it expired_key_def IsExpired_def deadline_def signed_simps)
  with r show ?thesis by simp
qed

subsection \<open>The store\<close>

text \<open>
  Read your writes: after \<open>Set\<close> the store returns the value written, unchanged, at any
  time before its TTL has run out, and for ever when the TTL is not positive. The store
  may have an eviction policy and a limit.
\<close>

theorem store_get_after_set:
  assumes "lru_open st" and "deadline_ok d now" and "sint t < sint now + sint d \<or> sint d \<le> 0"
  shows "fst (Store_Get lruPolicy_methods k t (snd (Store_Set lruPolicy_methods k v d now st))) =
    Some (elems v)"
  using assms by (rule lru.store.get_after_set)

theorem store_get_after_set_witness:
  "fst (Store_Get lruPolicy_methods ''k'' 11
     (snd (Store_Set lruPolicy_methods ''k'' (Some ''v'') 5 10 (demo_store, ())))) = Some ''v''"
  using store_get_after_set [OF demo_open, of 5 10 11 "''k''" "Some ''v''"]
  by (simp add: deadline_ok_def)

text \<open>
  Expiry: once the TTL of a write has run out, the store reports the key as absent in
  \<open>Get\<close>, \<open>Exists\<close> and \<open>TTL\<close>, whether or not a sweep has purged it.
\<close>

theorem store_expires:
  assumes "lru_open st" and "deadline_ok d now" and "0 < sint d" and "sint now + sint d \<le> sint t"
  shows "fst (Store_Get lruPolicy_methods k t (snd (Store_Set lruPolicy_methods k v d now st))) = None \<and>
    \<not> fst (Store_Exists lruPolicy_methods k t (snd (Store_Set lruPolicy_methods k v d now st))) \<and>
    fst (Store_TTL lruPolicy_methods k t (snd (Store_Set lruPolicy_methods k v d now st))) = (- 2, False)"
proof -
  have "store_view (fst (snd (Store_Set lruPolicy_methods k v d now st))) t k = None"
    using assms(1) deadline_passed [OF assms(2-4)] by (simp add: lru.store.view_set live_def)
  then show ?thesis
    using lru.store.inv_set [OF assms(1)]
    by (simp add: lru.store.get_result lru.store.exists_result lru.store.ttl_result)
qed

theorem store_expires_witness:
  "fst (Store_Get lruPolicy_methods ''k'' 15
     (snd (Store_Set lruPolicy_methods ''k'' (Some ''v'') 5 10 (demo_store, ())))) = None"
  using store_expires [OF demo_open, of 5 10 15 "''k''" "Some ''v''"] by (simp add: deadline_ok_def)

text \<open>
  A TTL so long that \<open>now + ttl\<close> overflows the 64-bit clock makes the key expire at
  once: the deadline wraps to a negative instant and the next read misses.
\<close>

theorem store_set_overflowing_ttl_lost:
  assumes "lru_open st" and "0 < sint now" and "0 < sint d" and "2 ^ 63 \<le> sint now + sint d"
  shows "fst (Store_Get lruPolicy_methods k now (snd (Store_Set lruPolicy_methods k v d now st))) = None"
proof -
  have neg: "sint (now + d) < 0" using assms(4) by (rule sint64_add_overflow)
  then have "deadline d now = now + d" "now + d \<noteq> 0"
    using assms(3) by (auto simp: deadline_def signed_simps)
  then have "passed (deadline d now) now" using neg assms(2) by (simp add: passed_def signed_simps)
  then show ?thesis
    using assms(1) by (simp add: lru.store.get_result lru.store.view_set live_def)
qed

theorem store_set_overflowing_ttl_lost_witness:
  "fst (Store_Get lruPolicy_methods ''k'' 1700000000000000000
     (snd (Store_Set lruPolicy_methods ''k'' (Some ''v'') 9000000000000000000 1700000000000000000
       (demo_store, ())))) = None"
  using store_set_overflowing_ttl_lost [OF demo_open, of 1700000000000000000 9000000000000000000]
  by simp

text \<open>
  C4. A store without eviction implements a map with deadlines. Started from a new store, any
  sequence of calls of \<open>Set\<close>, \<open>Get\<close>, \<open>Delete\<close>, \<open>Exists\<close>, \<open>TTL\<close> and \<open>Expire\<close>, with any clock
  readings, returns call by call the results that the reference map returns, and leaves the
  contents of the reference map, in which an expired entry is dropped by the first call that
  looks it up. When the clock does not go backwards, what the store shows at a later time
  is the live part of the map in which nothing is ever dropped.
\<close>

theorem store_run_refines_map:
  assumes "NewStore c hash = Inr s" and "EvictionFactory c = None"
    and "store_calls lruPolicy_methods xs (s, env) = (rs, st')" and "ref_run xs Map.empty = (rs', m)"
  shows "rs = rs' \<and> store_contents (fst st') = m \<and> store_view (fst st') t = live_at t m \<and>
    (times_ok t0 xs t \<longrightarrow> store_view (fst st') t = live_at t (spec_run xs Map.empty))"
proof -
  have "lru_open (s, env)"
    by (rule NewStore_inv [OF assms(1)]) (simp add: factory_ok_def assms(2))
  then have ll: "open_lossless lru_inv (\<lambda>p. set (lru_keys p)) (s, env)"
    using NewStore_no_eviction [OF assms(1,2)] by (simp add: open_lossless_def)
  have "store_contents s = Map.empty" using NewStore_contents [OF assms(1)] .
  then have c: "rs = rs' \<and> store_contents (fst st') = m"
    using store_calls_refines [OF ll, of xs] assms(3,4) by simp
  have "store_view (fst (s, env)) t' = live_at t' Map.empty" for t'
    using NewStore_view [OF assms(1)] by (simp add: live_at_def fun_eq_iff)
  with lru.plain.view_run [OF ll, of t0 xs t] have "times_ok t0 xs t \<Longrightarrow>
      store_view (fst (store_run lruPolicy_methods xs (s, env))) t = live_at t (spec_run xs Map.empty)"
    by (simp add: store_run_run)
  then show ?thesis
    using c store_calls_run [of lruPolicy_methods xs "(s, env)"] assms(3) by (simp add: store_view_contents)
qed

text \<open>
  Key \<open>b\<close> expires at time 5. Deleting it at time 6 succeeds, because no call has looked at it
  since; deleting \<open>c\<close>, whose expiry a read has noticed, does not.
\<close>

theorem store_run_refines_map_witness:
  "fst (store_calls lruPolicy_methods
     [(1, OpSet ''a'' (Some ''x'') 5), (2, OpExpire ''a'' 0), (3, OpSet ''b'' (Some ''y'') 2),
      (3, OpSet ''c'' (Some ''z'') 2), (4, OpTTL ''b''), (6, OpGet ''c''), (6, OpDelete ''b''), (6, OpDelete ''c''),
      (9, OpGet ''a'')] (plain_store, ())) =
   [Stored None, Flag True, Stored None, Stored None, Time_left 1 True, Value_of None, Flag True, Flag False,
    Value_of (Some ''x'')]"
proof -
  let ?xs = "[(1, OpSet ''a'' (Some ''x'') 5), (2, OpExpire ''a'' 0), (3, OpSet ''b'' (Some ''y'') 2),
      (3, OpSet ''c'' (Some ''z'') 2), (4, OpTTL ''b''), (6, OpGet ''c''), (6, OpDelete ''b''), (6, OpDelete ''c''),
      (9, OpGet ''a'')]"
  obtain rs st' where r: "store_calls lruPolicy_methods ?xs (plain_store, ()) = (rs, st')" by (metis prod.exhaust)
  obtain rs' :: "StoreErr op_result list" and m where m: "ref_run ?xs Map.empty = (rs', m)" by (metis prod.exhaust)
  have "rs = rs'" using store_run_refines_map [OF plain_store_new _ r m, of 0 0] by (simp add: DefaultConfig_def)
  moreover have "rs' = [Stored None, Flag True, Stored None, Stored None, Time_left 1 True, Value_of None, Flag True,
      Flag False, Value_of (Some ''x'')]"
    using m by (auto simp: Let_def live_at_def live_def passed_def deadline_def forget_def remaining_def signed_simps)
  ultimately show ?thesis unfolding r by simp
qed

text \<open>
  \<open>Delete\<close> removes its key and no other: afterwards the key is absent at every time,
  every other key shows what it showed before, and the call reports success whenever the
  key was visible.
\<close>

theorem store_delete_exact:
  assumes "lru_open st"
  shows "store_view (fst (snd (Store_Delete lruPolicy_methods k st))) t = (store_view (fst st) t)(k := None) \<and>
    (store_view (fst st) t k \<noteq> None \<longrightarrow> fst (Store_Delete lruPolicy_methods k st)) \<and>
    fst (Store_Get lruPolicy_methods k t (snd (Store_Delete lruPolicy_methods k st))) = None"
  using assms lru.store.delete_result [OF assms, of t k]
  by (simp add: lru.store.view_delete lru.store.get_after_delete)

theorem store_delete_exact_witness:
  "fst (Store_Get lruPolicy_methods ''k'' 11 (snd (Store_Delete lruPolicy_methods ''k''
     (snd (Store_Set lruPolicy_methods ''k'' (Some ''v'') 0 10 (demo_store, ())))))) = None"
  using store_delete_exact [OF lru.store.inv_set [OF demo_open]] by simp

text \<open>
  \<open>Expire\<close> followed by \<open>TTL\<close>: if \<open>Expire\<close> reports success with a positive TTL, then until
  that time has passed \<open>TTL\<close> reports exactly the time left.
\<close>

theorem store_expire_then_ttl:
  assumes "lru_open st" and "fst (Store_Expire lruPolicy_methods k d now st)"
    and "deadline_ok d now" and "0 < sint d" and "now \<le>s t" and "sint t < sint now + sint d"
    and "0 < sint t"
  shows "\<exists>r. fst (Store_TTL lruPolicy_methods k t (snd (Store_Expire lruPolicy_methods k d now st))) = (r, True) \<and>
    sint r = sint now + sint d - sint t"
  using assms by (rule lru.store.expire_then_ttl)

theorem store_expire_then_ttl_witness:
  "\<exists>r. fst (Store_TTL lruPolicy_methods ''k'' 12 (snd (Store_Expire lruPolicy_methods ''k'' 7 11
     (snd (Store_Set lruPolicy_methods ''k'' (Some ''v'') 0 10 (demo_store, ())))))) = (r, True) \<and> sint r = 6"
proof -
  let ?st = "snd (Store_Set lruPolicy_methods ''k'' (Some ''v'') 0 10 (demo_store, ()))"
  have st: "lru_open ?st" by (simp add: lru.store.inv_set demo_open)
  have "fst (Store_Expire lruPolicy_methods ''k'' 7 11 ?st)"
    by (simp add: lru.store.expire_result [OF st] lru.store.view_set [OF demo_open] deadline_def)
  from store_expire_then_ttl [OF st this, of 12] show ?thesis
    by (simp add: deadline_ok_def signed_simps)
qed

text \<open>
  \<open>Expire\<close> with a TTL that is not positive removes the deadline of a live key: the key
  then never expires.
\<close>

theorem store_expire_nonpositive_persists:
  assumes "lru_open st" and "store_view (fst st) now k = Some (v, d0)" and "sint d \<le> 0" and "now \<le>s t"
  shows "store_view (fst (snd (Store_Expire lruPolicy_methods k d now st))) t k = Some (v, 0)"
  using assms by (simp add: lru.store.view_expire deadline_def signed_simps)

theorem store_expire_nonpositive_persists_witness:
  "store_view (fst (snd (Store_Expire lruPolicy_methods ''k'' (- 1) 11
     (snd (Store_Set lruPolicy_methods ''k'' (Some ''v'') 5 10 (demo_store, ())))))) 1000 ''k'' = Some (''v'', 0)"
proof -
  let ?st = "snd (Store_Set lruPolicy_methods ''k'' (Some ''v'') 5 10 (demo_store, ()))"
  have st: "lru_open ?st" by (simp add: lru.store.inv_set demo_open)
  have "store_view (fst ?st) 11 ''k'' = Some (''v'', 15)"
    by (simp add: lru.store.view_set [OF demo_open] deadline_def live_def passed_def signed_simps)
  from store_expire_nonpositive_persists [OF st this, of "- 1" 1000] show ?thesis
    by (simp add: signed_simps)
qed

text \<open>\<open>Len\<close> is the number of keys that are live at the time of the call.\<close>

theorem store_len_counts_live:
  assumes "lru_open (s, env)" and "card (dom (store_view s now)) < 2 ^ 63"
  shows "sint (Store_Len now s) = int (card (dom (store_view s now)))"
proof -
  have "Store_Len now s = word_of_nat (card (dom (store_view s now)))"
    using assms(1) by (intro Store_Len_eq) (auto simp: open_store_def)
  then show ?thesis by (simp only: sint_word_of_nat [OF assms(2)])
qed

theorem store_len_counts_live_witness: "sint (Store_Len 5 demo_store) = 0"
  using store_len_counts_live [OF demo_open, of 5] NewStore_view [OF demo_store_new, of 5] by simp

text \<open>
  A snapshot lists each key that is live at the time of the call exactly once, with its
  value and its remaining TTL, and nothing else, in whatever order the loops visit the maps.
\<close>

theorem snapshot_exact:
  assumes "lru_open (s, env)" and "orders_ok orders s"
  shows "distinct (map snap_Key (Snapshot now orders s)) \<and>
    (\<lparr>snap_Key = k, snap_Value = v, snap_TTL = r\<rparr> \<in> set (Snapshot now orders s) \<longleftrightarrow>
      (\<exists>d. store_view s now k = Some (v, d) \<and> r = remaining d now))"
  using assms snapshot_mem [of lru_inv "\<lambda>p. set (lru_keys p)" s orders k v r now]
    snapshot_keys_distinct [of lru_inv "\<lambda>p. set (lru_keys p)" s orders now]
  by (simp add: open_store_def)

lemma demo_orders: "orders_ok (\<lambda>i. keys_of (items (shards s ! i))) s" if "lru_open (s, env)" for s :: "(lruPolicy, 'e) Store"
  using that by (auto simp: orders_ok_def list_all_iff open_store_def store_inv_def shard_inv_def
      intro!: is_range_keys_of)

theorem snapshot_exact_witness:
  "\<lparr>snap_Key = ''k'', snap_Value = ''v'', snap_TTL = 4\<rparr> \<in> set (Snapshot 11
     (\<lambda>i. keys_of (items (shards (fst (snd (Store_Set lruPolicy_methods ''k'' (Some ''v'') 5 10 (demo_store, ())))) ! i)))
     (fst (snd (Store_Set lruPolicy_methods ''k'' (Some ''v'') 5 10 (demo_store, ())))))"
proof -
  let ?st = "snd (Store_Set lruPolicy_methods ''k'' (Some ''v'') 5 10 (demo_store, ()))"
  have st: "lru_open (fst ?st, ())"
    using lru.store.inv_set [OF demo_open, of "''k''" "Some ''v''" 5 10] by (simp add: open_store_def)
  have "store_view (fst ?st) 11 ''k'' = Some (''v'', 15)"
    by (simp add: lru.store.view_set [OF demo_open] deadline_def live_def passed_def signed_simps)
  with snapshot_exact [OF st demo_orders [OF st], of 11 "''k''" "''v''" 4] show ?thesis
    by (simp add: remaining_def signed_simps)
qed

text \<open>
  \<open>NewStore\<close> accepts the shard counts that are positive powers of two, up to the size of the
  address space, and then returns an open store with that many shards, no keys and no
  listeners.
\<close>

theorem NewStore_accepts_powers_of_two:
  "case (NewStore c hash :: StoreErr + ('p, 'e) Store) of
     Inl e \<Rightarrow> e = (if \<exists>m. sint (ShardCount c) = 2 ^ m then StorePanic else ErrInvalidShardCount) \<and>
       (e = StorePanic \<longrightarrow> 2 ^ 45 < sint (ShardCount c))
   | Inr s \<Rightarrow> (\<exists>m. sint (ShardCount c) = 2 ^ m \<and> length (shards s) = 2 ^ m) \<and>
       store_view s t = Map.empty \<and> \<not> closed s \<and> onWriteHooks s = []"
proof (cases "NewStore c hash :: StoreErr + ('p, 'e) Store")
  case (Inl e)
  then show ?thesis
    using shard_count_guard [of "ShardCount c"] by (auto simp: NewStore_def Let_def make_ok_pointers split: if_splits)
next
  case (Inr s)
  note new = NewStore_cases [OF Inr]
  obtain m where m: "sint (ShardCount c) = 2 ^ m" using new(8) by blast
  then have "length (shards s) = 2 ^ m" using new(1) by (simp add: nat_power_eq)
  with m new(4,5) NewStore_view [OF Inr] show ?thesis by (auto simp: Inr)
qed

text \<open>
  Routing: the index that \<open>getShard\<close> computes is in range for every key and every hash
  function, in every state that operations and sweeps can reach from a new store.
\<close>

theorem getShard_in_range:
  assumes "NewStore c hash = Inr s" and "factory_ok lru_inv (\<lambda>p. set (lru_keys p)) c"
  shows "getShard (snd (activeExpireLoop lruPolicy_methods E evs n
      (fst (store_run lruPolicy_methods xs (s, env))))) k
    < length (shards (snd (activeExpireLoop lruPolicy_methods E evs n
        (fst (store_run lruPolicy_methods xs (s, env))))))"
proof -
  have "lru_open (store_run lruPolicy_methods xs (s, env))"
    using NewStore_inv [OF assms] by (rule store_run_inv)
  then have inv: "store_inv lru_inv (\<lambda>p. set (lru_keys p)) (fst (store_run lruPolicy_methods xs (s, env)))"
    by (simp add: open_store_def)
  show ?thesis by (rule getShard_less [OF lru.activeExpireLoop_inv [OF inv]])
qed

theorem getShard_in_range_witness:
  "getShard (snd (activeExpireLoop lruPolicy_methods \<lparr>clock = (\<lambda>n. (0, 0)), range_order = (\<lambda>n ks. ks)\<rparr> [] 0
      (fst (store_run lruPolicy_methods [(1, OpSet ''a'' (Some ''x'') 5)] (demo_store, ()))))) ''b''
    < length (shards (snd (activeExpireLoop lruPolicy_methods \<lparr>clock = (\<lambda>n. (0, 0)), range_order = (\<lambda>n ks. ks)\<rparr> [] 0
        (fst (store_run lruPolicy_methods [(1, OpSet ''a'' (Some ''x'') 5)] (demo_store, ()))))))"
  by (rule getShard_in_range [OF demo_store_new demo_factory])

text \<open>
  C24. The active sweeper is invisible: whatever its clock readings, its sampling order and
  the number of its cycles, no key that is live at a time after the readings is touched.
\<close>

theorem sweeper_invisible:
  assumes "lru_open (s, env)" and "clock_before E t"
  shows "store_view (snd (activeExpireLoop lruPolicy_methods E evs n s)) t = store_view s t"
  using assms lru.activeExpireLoop_sound [of s E t evs n] by (simp add: open_store_def)

theorem sweeper_invisible_witness:
  "store_view (snd (activeExpireLoop lruPolicy_methods \<lparr>clock = (\<lambda>n. (20, int n)), range_order = (\<lambda>n ks. rev ks)\<rparr>
     [Tick, CtxDone] 0 (fst (snd (Store_Set lruPolicy_methods ''k'' (Some ''v'') 0 10 (demo_store, ())))))) 20 ''k'' =
   Some (''v'', 0)"
proof -
  let ?st = "snd (Store_Set lruPolicy_methods ''k'' (Some ''v'') 0 10 (demo_store, ()))"
  have st: "lru_open (fst ?st, ())"
    using lru.store.inv_set [OF demo_open, of "''k''" "Some ''v''" 0 10] by (simp add: open_store_def)
  have "clock_before \<lparr>clock = (\<lambda>n. (20, int n)), range_order = (\<lambda>n ks. rev ks)\<rparr> 20"
    by (simp add: clock_before_def)
  from sweeper_invisible [OF st this, of "[Tick, CtxDone]" 0]
  have "store_view (snd (activeExpireLoop lruPolicy_methods
      \<lparr>clock = (\<lambda>n. (20, int n)), range_order = (\<lambda>n ks. rev ks)\<rparr> [Tick, CtxDone] 0 (fst ?st))) 20 ''k'' =
    store_view (fst ?st) 20 ''k''"
    by (rule fun_cong)
  also have "\<dots> = Some (''v'', 0)"
    by (simp add: lru.store.view_set [OF demo_open] deadline_def)
  finally show ?thesis .
qed

text \<open>
  C27. The repeated sweep of one shard that no other goroutine changes between the rounds
  ends on its own, without help from the deadline: it takes at most two clock readings more than twice the number of entries in the shard.
\<close>

theorem sweep_rounds_bounded:
  "fst (sweep_rounds P sampleSize limit E n shd) \<le> n + 2 * length (items shd) + 2"
proof (induction P sampleSize limit E n shd rule: sweep_rounds.induct)
  case (1 P sz l E n shd)
  obtain e m shd' where sw:
    "activeSweep P sz (fst (clock E n)) (range_order E n (keys_of (items shd))) shd = ((e, m), shd')"
    by (metis prod.exhaust)
  show ?case
  proof (cases "m = 0 \<or> e * 100 div m < 25 \<or> l < snd (clock E (Suc n))")
    case True
    with sw show ?thesis by (subst sweep_rounds.simps) auto
  next
    case False
    then have "length (items shd') < length (items shd)" using activeSweep_progress [OF sw] by simp
    with False sw "1.IH" [OF sw [symmetric] refl] show ?thesis by (subst sweep_rounds.simps) auto
  qed
qed

text \<open>
  After \<open>Close\<close> the store refuses writes with \<open>ErrStoreClosed\<close>, reports every key as
  absent, counts and lists nothing, calls no listener, and changes no more.
\<close>

theorem closed_store_refuses:
  "Store_Set P k v d now (Store_Close s, env) = (Some ErrStoreClosed, Store_Close s, env) \<and>
   Store_Get P k now (Store_Close s, env) = (None, Store_Close s, env) \<and>
   Store_Delete P k (Store_Close s, env) = (False, Store_Close s, env) \<and>
   Store_Exists P k now (Store_Close s, env) = (False, Store_Close s, env) \<and>
   Store_TTL P k now (Store_Close s, env) = ((- 2, False), Store_Close s, env) \<and>
   Store_Expire P k d now (Store_Close s, env) = (False, Store_Close s, env) \<and>
   Store_Len now (Store_Close s) = 0 \<and> Snapshot now orders (Store_Close s) = []"
proof -
  have "closed (Store_Close s)" by (simp add: Store_Close_def)
  then show ?thesis by (simp add: store_ops_closed)
qed

end
