(* ===== verification/Replica_Sync.thy ===== *)
theory Replica_Sync
  imports Failover Store_Properties
begin

text \<open>
  \<open>connectAndSync\<close> from dial to disconnection as one function of what the connection
  delivers, its agreement with the step relation of \<open>Failover\<close>, and the central fact about
  replication: a replica that reads the bytes the master's manager writes, and applies them
  by its own clock within a bounded time, shows the same keys and values as the master, with
  deadlines that are later by no more than that time.
\<close>

subsection \<open>The goroutine on a given input\<close>

function sync_stream :: "(string \<Rightarrow> string) \<Rightarrow> 'p EvictionPolicy \<Rightarrow> (nat \<Rightarrow> int64) \<Rightarrow> nat \<Rightarrow> IOErr \<Rightarrow> bytes \<Rightarrow>
    ('p, 'e) node \<Rightarrow> string option \<times> ('p, 'e) node" where
  "sync_stream up P clk n fin s nd =
     (if rm_cancelled (rm nd) then (None, nd)
      else case ReadValue fin s of
             Panic p \<Rightarrow> (Some p, nd)
           | Fail e \<Rightarrow> (None, nd)
           | Got cmdVal rest \<Rightarrow>
               sync_stream up P clk (n + 2) fin rest (sync_command up P (clk n) (clk (n + 1)) cmdVal nd))"
  by pat_completeness auto
termination
proof (relation "measure (\<lambda>(up, P, clk, n, fin, s, nd). length s)", goal_cases)
  case (2 up P clk n fin s nd v rest)
  then show ?case using ReadValue_eats [of fin s] by (auto dest: suffix_length_less)
qed simp

declare sync_stream.simps [simp del]

text \<open>
  \<open>clk 0\<close> is the instant of the acknowledgement; each command takes two readings, the first
  when it has been read and the second in the store. The first component is the panic of
  the reader, if there is one.
\<close>

definition connectAndSync :: "(string \<Rightarrow> string) \<Rightarrow> 'p EvictionPolicy \<Rightarrow> (nat \<Rightarrow> int64) \<Rightarrow> nat \<Rightarrow> connid \<Rightarrow> dial \<Rightarrow>
    ('p, 'e) node \<Rightarrow> string option \<times> ('p, 'e) node" where
  "connectAndSync up P clk i cid d nd =
     (case d of
        DialErr e \<Rightarrow> (None, set_sync i Ended nd)
      | Dialed c answer fin \<Rightarrow>
          let nd1 = sync_dialed i cid nd;
              w = snd (WriteArray (Some [NewBulkStringFromString ''PSYNC'', NewBulkStringFromString ''?'',
                    NewBulkStringFromString ''-1'']) (NewWriter c))
          in case Writer_Flush w of
               (Some e, w') \<Rightarrow> (None, sync_end i cid nd1)
             | (None, w') \<Rightarrow>
                 case ReadValue fin answer of
                   Panic p \<Rightarrow> (Some p, nd1)
                 | Fail e \<Rightarrow> (None, sync_end i cid nd1)
                 | Got header rest \<Rightarrow>
                     case sync_stream up P clk 1 fin rest (sync_acked i cid (clk 0) nd1) of
                       (Some p, nd2) \<Rightarrow> (Some p, nd2)
                     | (None, nd2) \<Rightarrow> (None, sync_end i cid nd2))"

lemma sync_command_sel [simp]:
  "syncs (sync_command up P ack now v nd) = syncs nd" "rm_cancelled (rm (sync_command up P ack now v nd)) = rm_cancelled (rm nd)"
  "cache (sync_command up P ack now v nd) = applyMasterCommand up P now v (cache nd)"
  by (simp_all add: sync_command_def)

text \<open>
  What a connection delivers, apart from what the node makes of it: the values of all frames
  up to the end of the stream, an error or a panic of the reader; and of a whole dial, where
  the first frame is the master's answer to \<open>PSYNC\<close>.
\<close>

function read_all :: "IOErr \<Rightarrow> bytes \<Rightarrow> Value list \<times> string option" where
  "read_all fin s =
     (case ReadValue fin s of
        Got v rest \<Rightarrow> (case read_all fin rest of (vs, p) \<Rightarrow> (v # vs, p))
      | Fail e \<Rightarrow> ([], None)
      | Panic p \<Rightarrow> ([], Some p))"
  by pat_completeness auto
termination
proof (relation "measure (\<lambda>(fin, s). length s)", goal_cases)
  case (2 fin s v rest)
  then show ?case using ReadValue_eats [of fin s] by (auto dest: suffix_length_less)
qed simp

declare read_all.simps [simp del]

definition delivered :: "bool \<Rightarrow> dial \<Rightarrow> Value list \<times> string option" where
  "delivered cancelled d =
     (case d of
        DialErr e \<Rightarrow> ([], None)
      | Dialed c answer fin \<Rightarrow>
          if fst (Writer_Flush (snd (WriteArray (Some [NewBulkStringFromString ''PSYNC'', NewBulkStringFromString ''?'',
               NewBulkStringFromString ''-1'']) (NewWriter c)))) \<noteq> None then ([], None)
          else case ReadValue fin answer of
                 Panic p \<Rightarrow> ([], Some p)
               | Fail e \<Rightarrow> ([], None)
               | Got header rest \<Rightarrow> if cancelled then ([], None) else read_all fin rest)"

text \<open>
  The goroutine that takes a step, the commands that a trace applies with their clock
  readings, and the readings that belong to a list of values.
\<close>

fun sync_of :: "node_label \<Rightarrow> nat option" where
  "sync_of (DialFailed i) = Some i"
| "sync_of (DialOk i c) = Some i"
| "sync_of (Acked i now) = Some i"
| "sync_of (SyncNext i) = Some i"
| "sync_of (Command i ack now v) = Some i"
| "sync_of (SyncDone i) = Some i"
| "sync_of (SyncEnd i) = Some i"
| "sync_of _ = None"

fun applied :: "node_label list \<Rightarrow> (int64 \<times> int64 \<times> Value) list" where
  "applied [] = []"
| "applied (Command i ack now v # ls) = (ack, now, v) # applied ls"
| "applied (l # ls) = applied ls"

lemma applied_append [simp]: "applied (ls @ ls') = applied ls @ applied ls'"
  by (induction ls rule: applied.induct) simp_all

fun timed :: "(nat \<Rightarrow> int64) \<Rightarrow> nat \<Rightarrow> Value list \<Rightarrow> (int64 \<times> int64 \<times> Value) list" where
  "timed clk n [] = []"
| "timed clk n (v # vs) = (clk n, clk (n + 1), v) # timed clk (n + 2) vs"

text \<open>Synchronisation \<open>i\<close> alone runs from one state to the other and applies just these commands.\<close>

definition sync_runs :: "(string \<Rightarrow> string) \<Rightarrow> 'p EvictionPolicy \<Rightarrow> nat \<Rightarrow> (int64 \<times> int64 \<times> Value) list \<Rightarrow>
    ('p, 'e) node \<Rightarrow> ('p, 'e) node \<Rightarrow> bool" where
  "sync_runs up P i cs nd nd' \<longleftrightarrow>
     (\<exists>ls. node_run up P ls nd nd' \<and> list_all (\<lambda>l. sync_of l = Some i) ls \<and> applied ls = cs)"

lemma sync_runs_nil: "sync_runs up P i [] nd nd"
  unfolding sync_runs_def by (intro exI [of _ "[]"]) (simp add: node_run.run_nil)

lemma sync_runs_trans: "sync_runs up P i cs a b \<Longrightarrow> sync_runs up P i cs' b c \<Longrightarrow> sync_runs up P i (cs @ cs') a c"
  unfolding sync_runs_def by (metis node_run_append list_all_append applied_append)

lemma sync_runs_step: "node_step up P l a b \<Longrightarrow> sync_of l = Some i \<Longrightarrow> sync_runs up P i (applied [l]) a b"
  unfolding sync_runs_def using node_run_Cons [OF _ node_run.run_nil] by (intro exI [of _ "[l]"]) auto

lemmas sync_steps =
  sync_runs_step [OF node_step.dial_failed sync_of.simps(1), unfolded applied.simps]
  sync_runs_step [OF node_step.dial_ok sync_of.simps(2), unfolded applied.simps]
  sync_runs_step [OF node_step.acked sync_of.simps(3), unfolded applied.simps]
  sync_runs_step [OF node_step.sync_next sync_of.simps(4), unfolded applied.simps]
  sync_runs_step [OF node_step.sync_done sync_of.simps(6), unfolded applied.simps]
  sync_runs_step [OF node_step.command sync_of.simps(5), unfolded applied.simps]
  sync_runs_step [OF node_step.sync_end sync_of.simps(7), unfolded applied.simps]

text \<open>One round of the loop, and its end, from the \<open>select\<close>.\<close>

lemma sync_round:
  assumes "sync_at i (Streaming c) nd" and "\<not> rm_cancelled (rm nd)"
  shows "node_run up P [SyncNext i, Command i a t v] nd (sync_command up P a t v nd)"
proof -
  let ?nd = "set_sync i (Reading c) nd"
  have 1: "node_step up P (SyncNext i) nd ?nd" by (rule node_step.sync_next [OF assms])
  have "sync_at i (Reading c) ?nd" using assms(1) by (simp add: sync_at_def)
  from node_step.command [OF this]
  have 2: "node_step up P (Command i a t v) ?nd (set_sync i (Streaming c) (sync_command up P a t v ?nd))" .
  have "set_sync i (Streaming c) (sync_command up P a t v ?nd) = sync_command up P a t v nd"
    using assms(1) by (cases nd) (auto simp: sync_at_def set_sync_def sync_command_def list_update_same_conv)
  with node_run_Cons [OF 1 node_run_Cons [OF 2 node_run.run_nil]] show ?thesis by simp
qed

lemma sync_leave:
  assumes "sync_at i (Streaming c) nd"
  shows "sync_runs up P i [] nd (sync_end i c nd)"
proof (cases "rm_cancelled (rm nd)")
  case True
  with assms show ?thesis by (rule sync_steps)
next
  case False
  let ?nd = "set_sync i (Reading c) nd"
  have "sync_at i (Reading c) ?nd" using assms by (simp add: sync_at_def)
  then have "sync_runs up P i [] ?nd (sync_end i c ?nd)" by (intro sync_steps disjI2)
  moreover have "sync_end i c ?nd = sync_end i c nd" by (simp add: sync_end_def set_sync_def)
  ultimately show ?thesis using sync_runs_trans [OF sync_steps(4) [OF assms False]] by fastforce
qed

lemma sync_stream_runs:
  assumes "sync_at i (Streaming c) nd" and "\<not> rm_cancelled (rm nd)"
    and "sync_stream up P clk n fin s nd = (r, nd')" and "read_all fin s = (vs, p)"
  shows "r = p \<and> sync_runs up P i (timed clk n vs) nd nd' \<and> sync_at i (Streaming c) nd'"
  using assms
proof (induction up P clk n fin s nd arbitrary: vs rule: sync_stream.induct)
  case (1 up P clk n fin s nd)
  show ?case
  proof (cases "ReadValue fin s")
    case (Got v rest)
    let ?nd = "sync_command up P (clk n) (clk (n + 1)) v nd"
    obtain vs' where vs: "read_all fin rest = (vs', p)" "vs = v # vs'"
      using "1.prems"(4) Got by (subst (asm) read_all.simps) (auto split: prod.splits)
    have "sync_at i (Streaming c) ?nd" "\<not> rm_cancelled (rm ?nd)" using "1.prems"(1,2) by (simp_all add: sync_at_def)
    moreover have "sync_stream up P clk (n + 2) fin rest ?nd = (r, nd')"
      using "1.prems"(2,3) Got by (subst (asm) sync_stream.simps) simp
    ultimately have ih: "r = p \<and> sync_runs up P i (timed clk (n + 2) vs') ?nd nd' \<and> sync_at i (Streaming c) nd'"
      using "1.IH" [OF "1.prems"(2) Got] vs(1) by blast
    have "sync_runs up P i [(clk n, clk (n + 1), v)] nd ?nd"
      unfolding sync_runs_def using sync_round [OF "1.prems"(1,2)] by (intro exI [of _ "[SyncNext i, Command i (clk n) (clk (n + 1)) v]"]) simp
    with ih vs(2) sync_runs_trans show ?thesis by fastforce
  qed (use "1.prems" in \<open>auto simp: sync_stream.simps [of _ _ _ _ _ s nd] read_all.simps [of _ s] sync_runs_nil\<close>)
qed

text \<open>The deferred function of \<open>connectAndSync\<close> has run.\<close>

definition sync_cleaned :: "nat \<Rightarrow> connid \<Rightarrow> ('p, 'e) node \<Rightarrow> bool" where
  "sync_cleaned i cid nd \<longleftrightarrow> sync_at i Ended nd \<and> cid \<in> closed_conns nd \<and> \<not> masterLinkUp (rm nd)"

lemma sync_end_cleaned: "i < length (syncs nd) \<Longrightarrow> sync_cleaned i cid (sync_end i cid nd)"
  by (simp add: sync_cleaned_def sync_end_def sync_at_def set_sync_def)

lemma connectAndSync_runs:
  assumes "sync_at i (Dialing a) nd" and "connectAndSync up P clk i cid d nd = (r, nd')"
    and "delivered (rm_cancelled (rm nd)) d = (vs, p)"
  shows "r = p \<and> sync_runs up P i (timed clk 1 vs) nd nd' \<and>
    (p = None \<longrightarrow> (case d of DialErr e \<Rightarrow> sync_at i Ended nd' | Dialed c answer fin \<Rightarrow> sync_cleaned i cid nd'))"
proof (cases d)
  case (DialErr e)
  with assms sync_steps(1) [OF assms(1)] show ?thesis
    by (auto simp: connectAndSync_def delivered_def sync_at_def)
next
  case (Dialed c answer fin)
  let ?nd1 = "sync_dialed i cid nd" and ?nd2 = "sync_acked i cid (clk 0) (sync_dialed i cid nd)"
  have h: "sync_at i (Handshake cid) ?nd1" using assms(1) by (simp add: sync_at_def sync_dialed_def)
  have s: "sync_at i (Streaming cid) ?nd2" using h by (simp add: sync_at_def sync_acked_def)
  have rc: "rm_cancelled (rm ?nd2) = rm_cancelled (rm nd)" by (simp add: sync_acked_def sync_dialed_def)
  have r1: "sync_runs up P i [] nd ?nd1" using assms(1) by (rule sync_steps)
  have r2: "sync_runs up P i [] nd ?nd2" using sync_runs_trans [OF r1 sync_steps(3) [OF h]] by simp
  have e1: "sync_runs up P i [] nd (sync_end i cid ?nd1)" "sync_cleaned i cid (sync_end i cid ?nd1)"
    using sync_runs_trans [OF r1 sync_steps(7), of cid] h sync_end_cleaned [of i ?nd1] by (auto simp: sync_at_def)
  have str: "r' = p' \<and> sync_runs up P i (timed clk 1 vs') nd nd3 \<and>
      sync_runs up P i (timed clk 1 vs') nd (sync_end i cid nd3) \<and> sync_cleaned i cid (sync_end i cid nd3)"
    if "sync_stream up P clk 1 fin rest ?nd2 = (r', nd3)"
      "(if rm_cancelled (rm nd) then ([], None) else read_all fin rest) = (vs', p')" for rest r' nd3 vs' p'
  proof -
    have "r' = p' \<and> sync_runs up P i (timed clk 1 vs') ?nd2 nd3 \<and> sync_at i (Streaming cid) nd3"
    proof (cases "rm_cancelled (rm nd)")
      case True
      with that rc s show ?thesis by (auto simp: sync_stream.simps [of _ _ _ _ _ rest ?nd2] sync_runs_nil)
    next
      case False
      with sync_stream_runs [OF s _ that(1)] that(2) rc show ?thesis by simp
    qed
    then show ?thesis
      using sync_runs_trans [OF r2, of "timed clk 1 vs'" nd3] sync_runs_trans [OF _ sync_leave, of up P i "timed clk 1 vs'" nd nd3 cid]
        sync_end_cleaned [of i nd3 cid] by (auto simp: sync_at_def)
  qed
  show ?thesis
    using assms(2,3) e1 r1 str
    by (auto simp: connectAndSync_def delivered_def Dialed Let_def split: read.splits prod.splits option.splits if_splits)
      fastforce
qed

subsection \<open>A closed manager\<close>

fun is_command :: "nat \<Rightarrow> node_label \<Rightarrow> bool" where
  "is_command i (Command j ack now v) = (j = i)"
| "is_command i _ = False"

definition commands :: "nat \<Rightarrow> node_label list \<Rightarrow> nat" where
  "commands i ls = length (filter (is_command i) ls)"

lemma commands_simps [simp]:
  "commands i [] = 0" "commands i (ls @ [l]) = (if is_command i l then Suc (commands i ls) else commands i ls)"
  by (simp_all add: commands_def)

text \<open>Once the context is cancelled, a synchronisation that reads has not applied a command since.\<close>

definition drained :: "nat \<Rightarrow> node_label list \<Rightarrow> ('p, 'e) node \<Rightarrow> bool" where
  "drained i ls nd \<longleftrightarrow> rm_cancelled (rm nd) \<and> commands i ls \<le> 1 \<and>
     (\<forall>c. sync_at i (Reading c) nd \<longrightarrow> commands i ls = 0)"

lemma SlaveOf_syncs:
  "rm_cancelled (rm (SlaveOf up a b nd)) = rm_cancelled (rm nd)"
  "sync_at i (Reading c) (SlaveOf up a b nd) = sync_at i (Reading c) nd"
  by (cases rule: SlaveOf_cases [of up a b nd]; auto simp: sync_at_def nth_append)+

lemma drained_step:
  "node_step up P l nd nd' \<Longrightarrow> drained i ls nd \<Longrightarrow> drained i (ls @ [l]) nd'"
proof (induction rule: node_step.induct)
  case (slave_of host port nd)
  then show ?case by (simp add: drained_def SlaveOf_syncs)
next
  case (promote m nd)
  then show ?case by (simp add: drained_def sync_at_def)
next
  case (command j c nd ack now v)
  then show ?case by (cases "j = i") (auto simp: drained_def sync_at_def)
qed (auto simp: drained_def sync_at_def beat_ok_def beat_missed_def Let_def sync_dialed_def sync_acked_def
    Failover.sync_end_def nth_list_update split: if_splits)

lemma drained_run: "node_run up P ls nd nd' \<Longrightarrow> rm_cancelled (rm nd) \<Longrightarrow> drained i ls nd'"
proof (induction rule: node_run.induct)
  case (run_nil nd)
  then show ?case by (simp add: drained_def)
qed (auto intro: drained_step)

subsection \<open>What a store operation sends to the replicas\<close>

abbreviation hooked :: "('p, env) Store \<Rightarrow> bool" where
  "hooked s \<equiv> onWriteHooks s = [handleStoreWrite]"

text \<open>The notification that an operation makes, if any.\<close>

fun notified :: "'p EvictionPolicy \<Rightarrow> int64 \<Rightarrow> map_op \<Rightarrow> ('p, 'e) Store \<times> 'e \<Rightarrow>
    (string \<times> string \<times> byte slice \<times> Duration) option" where
  "notified P now (OpSet k v d) st = Some (''SET'', k, v, d)"
| "notified P now (OpDelete k) st = (if fst (Store_Delete P k st) then Some (''DEL'', k, None, 0) else None)"
| "notified P now (OpExpire k d) st =
     (if fst (Store_Expire P k d now st) then Some (''EXPIRE'', k, None, d) else None)"
| "notified P now _ st = None"

lemma store_apply_env:
  assumes "hooked (fst st)" and "\<not> closed (fst st)"
  shows "snd (store_apply P now x st) =
      (case notified P now x st of None \<Rightarrow> snd st | Some (c, k, v, d) \<Rightarrow> handleStoreWrite c k v d (snd st))"
    and "hooked (fst (store_apply P now x st))"
  using assms
  by (cases st; cases x; simp add: store_ops_open Let_def notifyWrite_def)+

definition command_of :: "string \<times> string \<times> byte slice \<times> Duration \<Rightarrow> Value" where
  "command_of n = (case n of (c, k, v, d) \<Rightarrow> NewArray (mutation_args c k v d))"

definition notification_ok :: "string \<times> string \<times> byte slice \<times> Duration \<Rightarrow> bool" where
  "notification_ok n = (case n of (c, k, v, d) \<Rightarrow>
     c \<in> {''SET'', ''DEL'', ''EXPIRE''} \<and> length k \<le> maxAlloc \<and> length (elems v) \<le> maxAlloc)"

lemma command_of_wire_ok: "notification_ok n \<Longrightarrow> wire_ok (command_of n)"
proof -
  have f: "length (FormatInt m) \<le> maxAlloc" for m using length_FormatInt [of m] by (simp add: maxAlloc_def)
  assume "notification_ok n"
  then show ?thesis
    by (auto simp: notification_ok_def command_of_def mutation_args_def px_args_def Let_def wire_ok_New
        wire_ok_FromString f) (simp_all add: sizeof_Value_def maxAlloc_def)
qed

lemma mutation_args_Some: "notification_ok (c, k, v, d) \<Longrightarrow> \<exists>args. mutation_args c k v d = Some args"
  by (auto simp: notification_ok_def mutation_args_def)

lemma store_apply_stream:
  assumes "hooked (fst st)" and "\<not> closed (fst st)" and "healthy c (snd st)"
    and "\<forall>n. notified P now x st = Some n \<longrightarrow> notification_ok n"
  shows "healthy c (snd (store_apply P now x st)) \<and>
    wire (net (snd (store_apply P now x st)) c) =
      wire (net (snd st) c) @ (case notified P now x st of None \<Rightarrow> [] | Some n \<Rightarrow> encode (command_of n))"
proof (cases "notified P now x st")
  case None
  with assms show ?thesis by (simp add: store_apply_env)
next
  case (Some n)
  obtain cmd k v d where n: "n = (cmd, k, v, d)" by (cases n)
  with Some assms(4) obtain args where "mutation_args cmd k v d = Some args"
    using mutation_args_Some by blast
  with handleStoreWrite_healthy [OF assms(3) this] Some n assms(1,2) show ?thesis
    by (simp add: store_apply_env command_of_def)
qed

subsection \<open>A replica behind its master\<close>

text \<open>
  The operations of a run that reach the replicas, each with the master's clock reading, and
  the notification they cause.
\<close>

fun sent_ops :: "'p EvictionPolicy \<Rightarrow> (int64 \<times> map_op) list \<Rightarrow> ('p, 'e) Store \<times> 'e \<Rightarrow> (int64 \<times> map_op) list" where
  "sent_ops P [] st = []"
| "sent_ops P ((now, x) # xs) st =
     (if notified P now x st = None then [] else [(now, x)]) @ sent_ops P xs (store_apply P now x st)"

fun notification :: "map_op \<Rightarrow> string \<times> string \<times> byte slice \<times> Duration" where
  "notification (OpSet k v d) = (''SET'', k, v, d)"
| "notification (OpDelete k) = (''DEL'', k, None, 0)"
| "notification (OpExpire k d) = (''EXPIRE'', k, None, d)"
| "notification _ = ([], [], None, 0)"

lemma notified_notification: "notified P now x st = Some n \<Longrightarrow> n = notification x"
  by (cases x) (auto split: if_splits)

text \<open>
  The operations that replication carries exactly: keys and values within the parser's
  limits, \<open>SET\<close> with whole milliseconds, \<open>EXPIRE\<close> with whole seconds below 97 days.
\<close>

fun replicable :: "map_op \<Rightarrow> bool" where
  "replicable (OpSet k v d) \<longleftrightarrow> length k \<le> maxAlloc \<and> length (elems v) \<le> maxAlloc \<and>
     (sint d \<le> 0 \<or> sint d mod 1000000 = 0)"
| "replicable (OpDelete k) \<longleftrightarrow> length k \<le> maxAlloc"
| "replicable (OpExpire k d) \<longleftrightarrow> length k \<le> maxAlloc \<and> sint d mod 1000000000 = 0 \<and>
     \<bar>sint d\<bar> < 2 ^ 23 * 1000000000"
| "replicable _ \<longleftrightarrow> True"

lemma replicable_notified: "replicable x \<Longrightarrow> notified P now x st = Some n \<Longrightarrow> notification_ok n"
  by (cases x) (auto simp: notification_ok_def maxAlloc_def split: if_splits)

lemma sync_stream_end:
  "\<not> rm_cancelled (rm nd) \<Longrightarrow> sync_stream up P clk n EOF [] nd = (None, nd)"
  by (subst sync_stream.simps) (simp add: ReadValue.simps)

lemma sync_stream_one:
  assumes "\<not> rm_cancelled (rm nd)" and "wire_ok v"
  shows "sync_stream up P clk n EOF (encode v) nd = (None, sync_command up P (clk n) (clk (n + 1)) v nd)"
  using assms ReadValue_encode [OF assms(2), of EOF "[]"]
  by (subst sync_stream.simps) (simp add: sync_stream_end)

text \<open>The operation that a forwarded notification amounts to on the replica.\<close>

fun forwarded :: "map_op \<Rightarrow> map_op" where
  "forwarded (OpSet k v d) = OpSet k (Some (elems v)) (trunc_ms d)"
| "forwarded (OpExpire k d) = OpExpire k (Seconds_int64 d * Second)"
| "forwarded x = x"

lemma deadline_trunc_ms:
  assumes "sint d \<le> 0 \<or> sint d mod 1000000 = 0"
  shows "deadline (trunc_ms d) now = deadline d now"
proof (cases "0 < sint d")
  case True
  then have "sint (trunc_ms d) = sint d" using assms sint_trunc_ms [OF True] by auto
  then show ?thesis by (simp add: deadline_def signed_simps sint64_eq_iff [of "trunc_ms d" d])
qed (simp add: trunc_ms_def deadline_def signed_simps)

lemma seconds_exact:
  assumes "sint d mod 1000000000 = 0" and "\<bar>sint d\<bar> < 2 ^ 23 * 1000000000"
  shows "Seconds_int64 d * Second = d"
proof -
  have dvd: "1000000000 dvd sint d" using assms(1) by auto
  then have "sint (Seconds_int64 d) * 1000000000 = sint d"
    unfolding Seconds_int64_exact [OF assms(2)]
    by (auto simp: signed_divide_int_def abs_mult sgn_mult elim!: dvdE) (auto simp: sgn_if)
  then have "sint (Seconds_int64 d * Second) = sint d"
    using sint64_bounds [of d] sint64_mult [of "Seconds_int64 d" Second] by (simp add: Second_def)
  then show ?thesis by (simp add: sint64_eq_iff)
qed

lemma spec_forwarded: "replicable x \<Longrightarrow> spec_op now (forwarded x) m = spec_op now x m"
  by (cases x) (simp_all add: deadline_trunc_ms seconds_exact split: option.split)

abbreviation lossless :: "(lruPolicy, 'e) Store \<times> 'e \<Rightarrow> bool" where
  "lossless \<equiv> open_lossless lru_inv (\<lambda>p. set (lru_keys p))"

text \<open>The bytes that a run puts on the connection of a healthy replica.\<close>

lemma store_run_stream:
  assumes "lossless st" and "hooked (fst st)" and "healthy c (snd st)" and "list_all (\<lambda>x. replicable (snd x)) xs"
  shows "healthy c (snd (store_run lruPolicy_methods xs st)) \<and>
    wire (net (snd (store_run lruPolicy_methods xs st)) c) = wire (net (snd st) c) @
      concat (map (encode \<circ> command_of \<circ> notification \<circ> snd) (sent_ops lruPolicy_methods xs st))"
  using assms
proof (induction xs arbitrary: st)
  case (Cons y xs)
  obtain now x where y: "y = (now, x)" by fastforce
  let ?st = "store_apply lruPolicy_methods now x st"
  have op: "\<not> closed (fst st)" using Cons.prems(1) by (simp add: open_lossless_def open_store_def)
  have x: "replicable x" "list_all (\<lambda>x. replicable (snd x)) xs" using Cons.prems(4) y by simp_all
  have "lossless ?st" unfolding store_apply_step by (rule lru.plain.inv_step [OF Cons.prems(1)])
  moreover have "hooked (fst ?st)" by (rule store_apply_env(2) [OF Cons.prems(2) op])
  moreover have "healthy c (snd ?st) \<and> wire (net (snd ?st) c) = wire (net (snd st) c) @
      (case notified lruPolicy_methods now x st of None \<Rightarrow> [] | Some n \<Rightarrow> encode (command_of n))"
    using store_apply_stream [OF Cons.prems(2) op Cons.prems(3)] replicable_notified [OF x(1)] by blast
  ultimately show ?case
    using Cons.IH [of ?st] x(2) y notified_notification [of lruPolicy_methods now x st] by (auto split: option.splits)
qed simp

text \<open>
  What a replica makes of the commands: the forwarded operations, each at the time of its own
  clock.
\<close>

fun replica_ops :: "(nat \<Rightarrow> int64) \<Rightarrow> nat \<Rightarrow> (int64 \<times> map_op) list \<Rightarrow> (int64 \<times> map_op) list" where
  "replica_ops clk n [] = []"
| "replica_ops clk n (y # ys) = (clk (n + 1), forwarded (snd y)) # replica_ops clk (n + 2) ys"

definition is_write :: "map_op \<Rightarrow> bool" where
  "is_write x = (case x of OpSet k v d \<Rightarrow> True | OpDelete k \<Rightarrow> True | OpExpire k d \<Rightarrow> True | _ \<Rightarrow> False)"

lemma sent_ops_write: "list_all (\<lambda>y. is_write (snd y)) (sent_ops P xs st)"
proof (induction xs arbitrary: st)
  case (Cons y xs)
  then show ?case by (cases y; cases "snd y") (auto simp: is_write_def)
qed simp

lemma sent_ops_subset: "set (sent_ops P xs st) \<subseteq> set xs"
proof (induction xs arbitrary: st)
  case (Cons y xs)
  obtain now x where "y = (now, x)" by fastforce
  with Cons.IH [of "store_apply P now x st"] show ?case by auto
qed simp

lemma apply_notification:
  assumes "is_write x"
  shows "applyMasterCommand up P now (command_of (notification x)) rst = store_apply P now (forwarded x) rst"
  using assms
  by (cases x)
    (auto simp: is_write_def command_of_def mutation_args_def
      intro: apply_forwarded_set [of _ _ _ _ up P now rst, unfolded mutation_args_def, simplified]
        apply_forwarded_delete [of _ None 0 _ up P now rst, unfolded mutation_args_def, simplified]
        apply_forwarded_expire [of _ None _ _ up P now rst, unfolded mutation_args_def, simplified])

lemma notification_wire_ok: "replicable x \<Longrightarrow> is_write x \<Longrightarrow> wire_ok (command_of (notification x))"
  by (rule command_of_wire_ok) (cases x; simp add: is_write_def notification_ok_def maxAlloc_def)

lemma sync_stream_Cons:
  assumes "\<not> rm_cancelled (rm nd)" and "wire_ok v"
  shows "sync_stream up P clk n fin (encode v @ s) nd =
    sync_stream up P clk (n + 2) fin s (sync_command up P (clk n) (clk (n + 1)) v nd)"
  using assms ReadValue_encode [OF assms(2), of fin s] by (subst sync_stream.simps) simp

lemma sync_stream_ops:
  assumes "\<not> rm_cancelled (rm nd)" and "list_all (\<lambda>y. replicable (snd y) \<and> is_write (snd y)) ys"
  shows "\<exists>nd'. sync_stream up P clk n EOF (concat (map (encode \<circ> command_of \<circ> notification \<circ> snd) ys)) nd = (None, nd') \<and>
    \<not> rm_cancelled (rm nd') \<and> cache nd' = store_run P (replica_ops clk n ys) (cache nd)"
  using assms
proof (induction ys arbitrary: n nd)
  case Nil
  then show ?case by (simp add: sync_stream_end)
next
  case (Cons y ys)
  let ?nd = "sync_command up P (clk n) (clk (n + 1)) (command_of (notification (snd y))) nd"
  have "\<not> rm_cancelled (rm ?nd)" using Cons.prems(1) by simp
  from Cons.IH [OF this, of "n + 2"] Cons.prems show ?case
    by (simp add: sync_stream_Cons notification_wire_ok apply_notification)
qed

subsection \<open>Deadlines on the two nodes\<close>

text \<open>
  An entry of the replica shadows the master's entry of the same key, with lag \<open>L\<close>: the value
  is the same, and the deadline at most \<open>L\<close> later. Where the master has no entry the replica
  may still hold one, but no longer than \<open>L\<close> after the master's time \<open>b\<close>.
\<close>

definition later :: "int \<Rightarrow> int64 \<Rightarrow> int64 \<Rightarrow> bool" where
  "later L d d' \<longleftrightarrow> (if d = 0 then d' = 0 else d' \<noteq> 0 \<and> sint d \<le> sint d' \<and> sint d' \<le> sint d + L)"

definition shadows :: "int \<Rightarrow> int \<Rightarrow> (bytes \<times> int64) option \<Rightarrow> (bytes \<times> int64) option \<Rightarrow> bool" where
  "shadows L b e e' \<longleftrightarrow>
     (case (e, e') of
        (Some (v, d), Some (v', d')) \<Rightarrow> v' = v \<and> later L d d'
      | (Some _, None) \<Rightarrow> False
      | (None, Some (v', d')) \<Rightarrow> d' \<noteq> 0 \<and> sint d' \<le> b + L
      | (None, None) \<Rightarrow> True)"

lemma shadows_mono: "shadows L b e e' \<Longrightarrow> b \<le> b' \<Longrightarrow> shadows L b' e e'"
  by (auto simp: shadows_def split: option.splits)

lemma shadows_same: "0 \<le> L \<Longrightarrow> shadows L b e e"
  by (auto simp: shadows_def later_def split: option.split)

text \<open>No deadline of the operation overflows on either node.\<close>

fun deadlines_fit :: "int \<Rightarrow> int64 \<times> map_op \<Rightarrow> bool" where
  "deadlines_fit L (now, OpSet k v d) \<longleftrightarrow> 0 < sint now \<and> sint now + L + sint d < 2 ^ 63"
| "deadlines_fit L (now, OpExpire k d) \<longleftrightarrow> 0 < sint now \<and> sint now + L + sint d < 2 ^ 63"
| "deadlines_fit L _ \<longleftrightarrow> True"

lemma later_deadline:
  assumes "0 < sint now" and "sint now + L + sint d < 2 ^ 63" and "sint now \<le> sint now'" and "sint now' \<le> sint now + L"
  shows "later L (deadline d now) (deadline d now')"
proof (cases "0 < sint d")
  case True
  with assms sint_deadline [of d now] sint_deadline [of d now'] show ?thesis by (auto simp: later_def deadline_ok_def)
qed (simp add: later_def deadline_def signed_simps)

lemma later_live:
  assumes "later L d d'" and "d \<noteq> 0 \<Longrightarrow> L < sint d - sint now" and "sint now' \<le> sint now + L"
  shows "\<not> passed d' now'"
  using assms by (auto simp: later_def passed_def signed_simps split: if_splits)

text \<open>An operation that the master sends, and one that it does not send.\<close>

lemma shadows_sent:
  assumes sh: "\<And>k. shadows L (sint now) (m k) (m' k)" and x: "replicable x" "deadlines_fit L (now, x)" "is_write x"
    and lag: "sint now \<le> sint now'" "sint now' \<le> sint now + L"
    and live: "\<And>k d. x = OpExpire k d \<Longrightarrow>
      \<exists>v d0. m k = Some (v, d0) \<and> \<not> passed d0 now \<and> (d0 \<noteq> 0 \<longrightarrow> L < sint d0 - sint now)"
  shows "shadows L (sint now) (spec_op now x m k) (spec_op now' (forwarded x) m' k)"
  unfolding spec_forwarded [OF x(1)]
proof (cases x)
  case (OpSet k' v d)
  with x(2) later_deadline [OF _ _ lag, of d] sh [of k]
  show "shadows L (sint now) (spec_op now x m k) (spec_op now' x m' k)" by (simp add: shadows_def)
next
  case (OpDelete k')
  with sh [of k] show "shadows L (sint now) (spec_op now x m k) (spec_op now' x m' k)" by (simp add: shadows_def)
next
  case (OpExpire k' d)
  from live [OF this] obtain v d0 where m: "m k' = Some (v, d0)" "\<not> passed d0 now" "d0 \<noteq> 0 \<longrightarrow> L < sint d0 - sint now" by blast
  then obtain d1 where m': "m' k' = Some (v, d1)" "later L d0 d1" using sh [of k'] by (auto simp: shadows_def split: option.splits)
  with m later_live [OF m'(2) _ lag(2)] have "\<not> passed d1 now'" by blast
  with m m' OpExpire x(2) later_deadline [OF _ _ lag, of d] sh [of k]
  show "shadows L (sint now) (spec_op now x m k) (spec_op now' x m' k)" by (simp add: shadows_def)
qed (use x(3) in \<open>simp_all add: is_write_def\<close>)

lemma shadows_unsent:
  assumes sh: "\<And>k. shadows L (sint now) (m k) (m' k)" and "\<And>k v d. x \<noteq> OpSet k v d"
    and "\<And>k d. x = OpDelete k \<or> x = OpExpire k d \<Longrightarrow> live_at now m k = None"
  shows "shadows L (sint now) (spec_op now x m k) (m' k)"
proof (cases x)
  case (OpSet k' v d)
  with assms(2) show ?thesis by blast
next
  case (OpDelete k')
  with assms(3) have "live_at now m k' = None" by blast
  with OpDelete sh [of k] show ?thesis
    by (auto simp: shadows_def live_at_def live_def passed_def later_def signed_simps split: option.splits if_splits)
next
  case (OpExpire k' d)
  with assms(3) have "live_at now m k' = None" by blast
  then have "spec_op now x m = m" using OpExpire by (auto simp: live_at_def live_def split: option.splits if_splits)
  with sh [of k] show ?thesis by simp
qed (use sh in simp_all)

text \<open>
  The conditions on a run: each command is applied at most \<open>L\<close> after the master sent it, by
  the two clocks, and the master sends no \<open>EXPIRE\<close> for a key that has no more than \<open>L\<close> left.
\<close>

fun applied_within :: "int \<Rightarrow> (nat \<Rightarrow> int64) \<Rightarrow> nat \<Rightarrow> (int64 \<times> map_op) list \<Rightarrow> bool" where
  "applied_within L clk n [] \<longleftrightarrow> True"
| "applied_within L clk n (y # ys) \<longleftrightarrow>
     sint (fst y) \<le> sint (clk (n + 1)) \<and> sint (clk (n + 1)) \<le> sint (fst y) + L \<and> applied_within L clk (n + 2) ys"

fun expires_early :: "int \<Rightarrow> (int64 \<times> map_op) list \<Rightarrow> (lruPolicy, 'e) Store \<times> 'e \<Rightarrow> bool" where
  "expires_early L [] st \<longleftrightarrow> True"
| "expires_early L ((now, x) # xs) st \<longleftrightarrow>
     (case x of
        OpExpire k d \<Rightarrow>
          (case store_view (fst st) now k of
             None \<Rightarrow> True
           | Some (v, d0) \<Rightarrow> d0 = 0 \<or> L < sint d0 - sint now)
      | _ \<Rightarrow> True) \<and>
     expires_early L xs (store_apply lruPolicy_methods now x st)"

lemma shadows_step:
  assumes st: "lossless st" and v: "\<And>t. now \<le>s t \<Longrightarrow> store_view (fst st) t = live_at t m"
    and sh: "\<And>k. shadows L (sint now) (m k) (m' k)" and x: "replicable x" "deadlines_fit L (now, x)"
    and ex: "expires_early L ((now, x) # xs) st"
  shows "notified lruPolicy_methods now x st = None \<Longrightarrow> shadows L (sint now) (spec_op now x m k) (m' k)"
    and "notified lruPolicy_methods now x st \<noteq> None \<Longrightarrow> sint now \<le> sint now' \<Longrightarrow> sint now' \<le> sint now + L \<Longrightarrow>
      shadows L (sint now) (spec_op now x m k) (spec_op now' (forwarded x) m' k)"
proof -
  have v0: "store_view (fst st) now = live_at now m" by (simp add: v)
  show "shadows L (sint now) (spec_op now x m k) (m' k)" if n: "notified lruPolicy_methods now x st = None"
  proof (rule shadows_unsent [OF sh])
    fix k d assume "x = OpDelete k \<or> x = OpExpire k d"
    then show "live_at now m k = None"
      using n lru.plain.delete_result [OF st, of now k] lru.plain.expire_result [OF st, of k d now] v0
      by (cases "live_at now m k") (auto split: if_splits)
  qed (use n in auto)
  assume n: "notified lruPolicy_methods now x st \<noteq> None" and lag: "sint now \<le> sint now'" "sint now' \<le> sint now + L"
  show "shadows L (sint now) (spec_op now x m k) (spec_op now' (forwarded x) m' k)"
  proof (rule shadows_sent [OF sh x _ lag])
    show "is_write x" using n by (cases x) (simp_all add: is_write_def)
    fix k d assume xe: "x = OpExpire k d"
    then have "live_at now m k \<noteq> None" using n lru.plain.expire_result [OF st, of k d now] v0 by (auto split: if_splits)
    with ex xe v0 show "\<exists>v d0. m k = Some (v, d0) \<and> \<not> passed d0 now \<and> (d0 \<noteq> 0 \<longrightarrow> L < sint d0 - sint now)"
      by (auto simp: live_at_def live_def split: option.splits if_splits)
  qed
qed

lemma shadows_run:
  assumes "lossless st" and "times_ok t0 xs t" and "\<And>t. t0 \<le>s t \<Longrightarrow> store_view (fst st) t = live_at t m"
    and "\<And>k. shadows L (sint t0) (m k) (m' k)" and "list_all (\<lambda>y. replicable (snd y) \<and> deadlines_fit L y) xs"
    and "expires_early L xs st" and "applied_within L clk n (sent_ops lruPolicy_methods xs st)"
  shows "shadows L (sint t) (spec_run xs m k)
    (spec_run (replica_ops clk n (sent_ops lruPolicy_methods xs st)) m' k)"
  using assms
proof (induction xs arbitrary: st t0 m m' n)
  case Nil
  then show ?case using shadows_mono [of L "sint t0" "m k" "m' k" "sint t"] by (simp add: signed_simps)
next
  case (Cons y xs)
  obtain now x where y: "y = (now, x)" by fastforce
  let ?st = "store_apply lruPolicy_methods now x st"
  have le: "t0 \<le>s now" "times_ok now xs t" and x: "replicable x" "deadlines_fit L (now, x)"
    and xs: "list_all (\<lambda>y. replicable (snd y) \<and> deadlines_fit L y) xs" "expires_early L xs ?st"
    using Cons.prems(2,5,6) y by simp_all
  have v: "store_view (fst st) t = live_at t m" if "now \<le>s t" for t
    using Cons.prems(3) le(1) that by (auto simp: signed_simps)
  have sh: "shadows L (sint now) (m k) (m' k)" for k
    using shadows_mono [OF Cons.prems(4)] le(1) by (simp add: signed_simps)
  have v': "store_view (fst ?st) t = live_at t (spec_op now x m)" if "now \<le>s t" for t
    unfolding store_apply_step by (rule lru.plain.view_step [OF Cons.prems(1) that v])
  have l: "lossless ?st" unfolding store_apply_step by (rule lru.plain.inv_step [OF Cons.prems(1)])
  note step = shadows_step [OF Cons.prems(1) v sh x Cons.prems(6) [unfolded y]]
  note ih = Cons.IH [OF l le(2) v' _ xs]
  show ?case
  proof (cases "notified lruPolicy_methods now x st = None")
    case True
    then have "shadows L (sint now) (spec_op now x m k) (m' k)" for k by (intro step(1))
    from ih [OF _ this] True Cons.prems(7) y show ?thesis by simp
  next
    case False
    with Cons.prems(7) y have lag: "sint now \<le> sint (clk (n + 1))" "sint (clk (n + 1)) \<le> sint now + L"
      and w: "applied_within L clk (n + 2) (sent_ops lruPolicy_methods xs ?st)" by simp_all
    have "shadows L (sint now) (spec_op now x m k) (spec_op (clk (n + 1)) (forwarded x) m' k)" for k
      using False lag by (intro step(2))
    from ih [OF _ this w] False y show ?thesis by auto
  qed
qed

text \<open>The replica's own clock does not go backwards.\<close>

lemma replica_ops_times:
  assumes "\<And>i. clk i \<le>s clk (Suc i)" and "\<And>i. clk i \<le>s t" and "r \<le>s clk n"
  shows "times_ok r (replica_ops clk n ys) t"
  using assms(3)
proof (induction ys arbitrary: n r)
  case Nil
  then show ?case using assms(2) [of n] by (auto simp: signed_simps)
next
  case (Cons y ys)
  have "r \<le>s clk (n + 1)" using Cons.prems assms(1) [of n] by (auto simp: signed_simps)
  moreover have "clk (n + 1) \<le>s clk (n + 2)" using assms(1) [of "n + 1"] by simp
  ultimately show ?case using Cons.IH [of "clk (n + 1)" "n + 2"] by simp
qed

lemma replica_views:
  assumes "lossless (cache nd)" and "\<not> rm_cancelled (rm nd)" and "list_all (\<lambda>y. replicable (snd y) \<and> is_write (snd y)) ys"
    and "\<And>i. clk i \<le>s clk (Suc i)" and "\<And>i. clk i \<le>s t" and "r0 \<le>s clk 0"
    and "\<And>t. r0 \<le>s t \<Longrightarrow> store_view (fst (cache nd)) t = live_at t m"
  shows "\<exists>nd'. sync_stream up lruPolicy_methods clk 0 EOF (concat (map (encode \<circ> command_of \<circ> notification \<circ> snd) ys)) nd =
      (None, nd') \<and> store_view (fst (cache nd')) t = live_at t (spec_run (replica_ops clk 0 ys) m)"
proof -
  obtain nd' where nd': "sync_stream up lruPolicy_methods clk 0 EOF (concat (map (encode \<circ> command_of \<circ> notification \<circ> snd) ys)) nd =
      (None, nd')" "cache nd' = store_run lruPolicy_methods (replica_ops clk 0 ys) (cache nd)"
    using sync_stream_ops [OF assms(2,3)] by blast
  have "times_ok r0 (replica_ops clk 0 ys) t" using assms(4-6) by (rule replica_ops_times)
  from lru.plain.view_run [OF assms(1) this assms(7)] nd' show ?thesis by (auto simp: store_run_run)
qed

end
