(* ===== verification/Cache_Invariant.thy ===== *)
theory Cache_Invariant
  imports Server_Handler Replica_Sync
begin

text \<open>
  The interface between the store and everything that uses it: whoever only calls the
  store's operations keeps every property of the store and its listeners that each single
  operation keeps. The locale \<open>cache_invariant\<close> takes such a property and proves it for
  the commands of the replication stream and for all client commands; it is interpreted
  for the invariant of the server process and for the silence of a connection.
\<close>

locale cache_invariant =
  fixes P :: "'p EvictionPolicy" and Q :: "('p, env) Store \<times> env \<Rightarrow> bool"
  assumes store_apply_keeps: "Q st \<Longrightarrow> Q (store_apply P now x st)"
begin

lemma store_ops_keep [simp]:
  "Q st \<Longrightarrow> Q (snd (Store_Set P k v d now st))" "Q st \<Longrightarrow> Q (snd (Store_Get P k now st))"
  "Q st \<Longrightarrow> Q (snd (Store_Delete P k st))" "Q st \<Longrightarrow> Q (snd (Store_Exists P k now st))"
  "Q st \<Longrightarrow> Q (snd (Store_TTL P k now st))" "Q st \<Longrightarrow> Q (snd (Store_Expire P k d now st))"
  by (metis store_apply.simps store_apply_keeps)+

lemma store_results_keep:
  "Store_Set P k v d now st = (e, st') \<Longrightarrow> Q st \<Longrightarrow> Q st'" "Store_Get P k now st = (r, st') \<Longrightarrow> Q st \<Longrightarrow> Q st'"
  "Store_Delete P k st = (b, st') \<Longrightarrow> Q st \<Longrightarrow> Q st'" "Store_Exists P k now st = (b, st') \<Longrightarrow> Q st \<Longrightarrow> Q st'"
  "Store_TTL P k now st = (x, st') \<Longrightarrow> Q st \<Longrightarrow> Q st'" "Store_Expire P k d now st = (b, st') \<Longrightarrow> Q st \<Longrightarrow> Q st'"
  by (metis snd_conv store_ops_keep)+

text \<open>The replication stream.\<close>

lemma fold_delete_keeps: "Q st \<Longrightarrow> Q (fold (\<lambda>arg st. snd (Store_Delete P (extractString arg) st)) args st)"
  by (induction args arbitrary: st) simp_all

lemma applyMasterCommand_keeps: "Q st \<Longrightarrow> Q (applyMasterCommand up P now v st)"
  by (auto simp: applyMasterCommand_def Let_def fold_delete_keeps split: list.split prod.split option.split)

text \<open>The client commands.\<close>

lemma del_loop_keeps: "del_loop P args n st = (m, st') \<Longrightarrow> Q st \<Longrightarrow> Q st'"
  by (induction args arbitrary: n st) (auto dest: store_results_keep split: prod.splits)

lemma exists_loop_keeps: "exists_loop P clk i args n st = (m, st') \<Longrightarrow> Q st \<Longrightarrow> Q st'"
  by (induction args arbitrary: i n st) (auto dest: store_results_keep split: prod.splits)

lemmas results_keep = store_results_keep del_loop_keeps exists_loop_keeps

lemma handleGet_keeps: "handleGet P clk args p = (v, p') \<Longrightarrow> Q (proc_cache p) \<Longrightarrow> Q (proc_cache p')"
  by (auto simp: handleGet_def dest: results_keep split: list.splits prod.splits option.splits)

lemma handleSet_keeps: "handleSet G P clk h args p = (v, p') \<Longrightarrow> Q (proc_cache p) \<Longrightarrow> Q (proc_cache p')"
  by (auto simp: handleSet_def Let_def dest: results_keep
      split: if_splits list.splits sum.splits prod.splits option.splits)

lemma handleDel_keeps: "handleDel P h args p = (v, p') \<Longrightarrow> Q (proc_cache p) \<Longrightarrow> Q (proc_cache p')"
  by (auto simp: handleDel_def dest: results_keep split: if_splits prod.splits)

lemma handleExists_keeps: "handleExists P clk args p = (v, p') \<Longrightarrow> Q (proc_cache p) \<Longrightarrow> Q (proc_cache p')"
  by (auto simp: handleExists_def dest: results_keep split: if_splits prod.splits)

lemma handleExpire_keeps: "handleExpire P clk h args p = (v, p') \<Longrightarrow> Q (proc_cache p) \<Longrightarrow> Q (proc_cache p')"
  by (auto simp: handleExpire_def dest: results_keep split: if_splits list.splits prod.splits option.splits)

lemma handleTTL_keeps: "handleTTL P clk args p = (v, p') \<Longrightarrow> Q (proc_cache p) \<Longrightarrow> Q (proc_cache p')"
  by (auto simp: handleTTL_def Let_def dest: results_keep split: list.splits prod.splits)

lemma handleSlaveOf_keeps: "handleSlaveOf G h args p = Some (v, p') \<Longrightarrow> proc_cache p' = proc_cache p"
  by (auto simp: handleSlaveOf_def SlaveOf_cache split: list.splits if_splits)

lemma handlePSync_keeps: "handlePSync h p = (v, p') \<Longrightarrow> proc_cache p' = proc_cache p"
  by (auto simp: handlePSync_def split: option.splits)

lemma Dispatch_keeps:
  assumes "Dispatch G P clk h cmd p = Some (v, p')" and "Q (proc_cache p)"
  shows "Q (proc_cache p')"
  using assms handleGet_keeps [of clk _ p v p'] handleSet_keeps [of G clk h _ p v p'] handleDel_keeps [of h _ p v p']
    handleExists_keeps [of clk _ p v p'] handleExpire_keeps [of clk h _ p v p'] handleTTL_keeps [of clk _ p v p']
    handleSlaveOf_keeps [of G h _ p v p'] handlePSync_keeps [of h p v p']
  by (auto simp: Dispatch_def Let_def split: if_splits)

end

subsection \<open>The role of the node\<close>

text \<open>All commands but one leave everything except the store as it is.\<close>

definition same_node :: "'p proc \<Rightarrow> 'p proc \<Rightarrow> bool" where
  "same_node p p' \<longleftrightarrow> node p' = (node p)\<lparr>cache := proc_cache p'\<rparr>"

lemma same_node_intros [simp, intro]: "same_node p p" "same_node p (set_cache st p)" "same_node p (p\<lparr>registering := cs\<rparr>)"
  by (simp_all add: same_node_def set_cache_def)

lemma role_inv_cache [simp]: "role_inv (nd\<lparr>cache := st\<rparr>) = role_inv nd"
  by (simp add: role_inv_def split: option.split)

lemma same_node_role_inv: "same_node p p' \<Longrightarrow> role_inv (node p) \<Longrightarrow> role_inv (node p')"
  unfolding same_node_def by (metis role_inv_cache)

lemma handleSlaveOf_role_inv: "handleSlaveOf G h args p = Some (v, p') \<Longrightarrow> role_inv (node p) \<Longrightarrow> role_inv (node p')"
  by (auto simp: handleSlaveOf_def SlaveOf_role_inv split: list.splits if_splits)

lemma handlers_same_node:
  "same_node p (snd (handleGet P clk args p))" "same_node p (snd (handleSet G P clk h args p))"
  "same_node p (snd (handleDel P h args p))" "same_node p (snd (handleExists P clk args p))"
  "same_node p (snd (handleExpire P clk h args p))" "same_node p (snd (handleTTL P clk args p))"
  "same_node p (snd (handlePSync h p))"
  by (auto simp: handleGet_def handleSet_def handleDel_def handleExists_def handleExpire_def handleTTL_def
      handlePSync_def Let_def split: list.split prod.split option.split sum.split)

lemma Dispatch_role_inv:
  assumes "Dispatch G P clk h cmd p = Some (v, p')" and "role_inv (node p)"
  shows "role_inv (node p')"
proof (cases "\<exists>args. handleSlaveOf G h args p = Some (v, p')")
  case True
  then show ?thesis using assms(2) handleSlaveOf_role_inv by blast
next
  case False
  with assms(1) have "same_node p p'"
    using handlers_same_node [of p] by (auto simp: Dispatch_def Let_def split: if_splits) (metis snd_conv)+
  then show ?thesis using assms(2) by (rule same_node_role_inv)
qed

end
