(* ===== verification/Server_System.thy ===== *)
theory Server_System
  imports Server_Conn Cache_Invariant
begin

text \<open>
  The server process as a whole: client connections, the registration of replicas, the
  replication goroutines and the active sweeper, interleaved. A client connection advances
  one command at a time; a registration takes its snapshot in one step and transmits it in
  another. A connection that \<open>Accept\<close> returned before \<open>Close\<close> may be counted after it, so
  accepting is not tied to an open listener. The invariant of the process holds in every
  reachable state.
\<close>

subsection \<open>The store with its listener\<close>

definition st_ok :: "(lruPolicy, env) Store \<times> env \<Rightarrow> bool" where
  "st_ok st \<longleftrightarrow> lru_open st \<and> hooked (fst st) \<and> wf_map (replicas (mgr (snd st)))"

lemma store_apply_ok: "st_ok st \<Longrightarrow> st_ok (store_apply lruPolicy_methods now x st)"
proof -
  assume ok: "st_ok st"
  then have "\<not> closed (fst st)" "hooked (fst st)" by (simp_all add: st_ok_def open_store_def)
  with ok store_apply_inv [of st now x] store_apply_env [of st lruPolicy_methods now x] show ?thesis
    by (auto simp: st_ok_def handleStoreWrite_wf split: option.splits)
qed

interpretation ok: cache_invariant lruPolicy_methods st_ok
  by unfold_locales (rule store_apply_ok)

subsection \<open>The process\<close>

definition proc_ok :: "lruPolicy proc \<Rightarrow> bool" where
  "proc_ok p \<longleftrightarrow> st_ok (proc_cache p) \<and> role_inv (node p)"

lemma proc_ok_set_cache: "proc_ok p \<Longrightarrow> st_ok st \<Longrightarrow> proc_ok (set_cache st p)"
  by (simp add: proc_ok_def)

lemma proc_ok_cache: "proc_ok p \<Longrightarrow> st_ok (proc_cache p)"
  by (simp add: proc_ok_def)

lemma Dispatch_ok:
  assumes "Dispatch G lruPolicy_methods clk h cmd p = Some (v, p')" and "proc_ok p"
  shows "proc_ok p'"
  using ok.Dispatch_keeps [OF assms(1)] Dispatch_role_inv [OF assms(1)] assms(2) by (simp add: proc_ok_def)

lemma proc_net_op_ok: "proc_net_op c f w p = (e, w', p') \<Longrightarrow> proc_ok p \<Longrightarrow> proc_ok p'"
  by (auto simp: proc_net_op_def Let_def proc_ok_def st_ok_def open_store_def split: prod.splits)

lemma conn_round_ok: "conn_round G lruPolicy_methods clk x h c fin s w p = (r, p') \<Longrightarrow> proc_ok p \<Longrightarrow> proc_ok p'"
  by (auto simp: conn_round_def dest!: proc_net_op_ok Dispatch_ok
      split: if_splits read.splits option.splits prod.splits)

subsection \<open>All goroutines\<close>

record session =
  input :: bytes
  input_end :: IOErr
  writer :: bufWriter

text \<open>\<open>transfers\<close> are the registrations that have taken their snapshot and not yet sent it.\<close>

record 'p system =
  srv :: "'p Server"
  sessions :: "connid \<rightharpoonup> session"
  transfers :: "(connid \<times> SnapshotEntry list) list"

abbreviation sys_cache :: "'p system \<Rightarrow> ('p, env) Store \<times> env" where
  "sys_cache y \<equiv> proc_cache (proc (srv y))"

definition set_proc :: "'p proc \<Rightarrow> 'p system \<Rightarrow> 'p system" where
  "set_proc p y = y\<lparr>srv := (srv y)\<lparr>proc := p\<rparr>\<rparr>"

definition session_handler :: "connid \<Rightarrow> 'p system \<Rightarrow> Handler" where
  "session_handler c y = NewHandler True True (srv_startTime (srv y)) (Some c)"

inductive sys_step :: "goenv \<Rightarrow> 'p EvictionPolicy \<Rightarrow> 'p system \<Rightarrow> 'p system \<Rightarrow> bool" for G P where
  accept: "sessions y c = None \<Longrightarrow> c \<notin> closed_conns (node (proc (srv y))) \<Longrightarrow>
    sys_step G P y (y\<lparr>srv := conn_opened (srv y),
      sessions := (sessions y)(c \<mapsto> \<lparr>input = s, input_end = fin, writer = NewWriter (net (snd (sys_cache y)) c)\<rparr>)\<rparr>)"
| round: "sessions y c = Some z \<Longrightarrow>
    (stop \<longrightarrow> srv_cancelled (srv y)) \<Longrightarrow>
    conn_round G P clk stop (session_handler c y) c (input_end z) (input z) (writer z) (proc (srv y)) =
      (Next w rest, p) \<Longrightarrow>
    sys_step G P y ((set_proc p y)\<lparr>sessions := (sessions y)(c \<mapsto> z\<lparr>input := rest, writer := w\<rparr>)\<rparr>)"
| finish: "sessions y c = Some z \<Longrightarrow>
    (stop \<longrightarrow> srv_cancelled (srv y)) \<Longrightarrow>
    conn_round G P clk stop (session_handler c y) c (input_end z) (input z) (writer z) (proc (srv y)) =
      (Finished None, p) \<Longrightarrow>
    sys_step G P y (y\<lparr>srv := conn_done c ((srv y)\<lparr>proc := p\<rparr>), sessions := (sessions y)(c := None)\<rparr>)"
| snapshot: "registering (proc (srv y)) = c # cs \<Longrightarrow>
    sys_step G P y ((set_proc ((proc (srv y))\<lparr>registering := cs\<rparr>) y)
      \<lparr>transfers := transfers y @ [(c, Snapshot now orders (fst (sys_cache y)))]\<rparr>)"
| transmit: "transfers y = us @ (c, snap) # vs \<Longrightarrow>
    sys_step G P y ((set_proc (set_cache (fst (sys_cache y), snd (register_with c snap (snd (sys_cache y)))) (proc (srv y))) y)
      \<lparr>transfers := us @ vs\<rparr>)"
| unregister: "sys_step G P y
    (set_proc (set_cache (fst (sys_cache y), run_unregister c (snd (sys_cache y))) (proc (srv y))) y)"
| replication: "node_step (unicode_upper G) P l (node (proc (srv y))) nd \<Longrightarrow>
    sys_step G P y (set_proc ((proc (srv y))\<lparr>node := nd\<rparr>) y)"
| sweep: "sys_step G P y
    (set_proc (set_cache (snd (runActiveSweepCycle P E n (fst (sys_cache y))), snd (sys_cache y)) (proc (srv y))) y)"
| close: "sys_step G P y (y\<lparr>srv := Server_Close (srv y)\<rparr>)"

inductive sys_reach :: "goenv \<Rightarrow> 'p EvictionPolicy \<Rightarrow> 'p system \<Rightarrow> 'p system \<Rightarrow> bool" for G P where
  reach_refl: "sys_reach G P y y"
| reach_step: "sys_reach G P y y' \<Longrightarrow> sys_step G P y' y'' \<Longrightarrow> sys_reach G P y y''"

definition sys_init :: "'p Server \<Rightarrow> 'p system" where
  "sys_init s = \<lparr>srv = s, sessions = Map.empty, transfers = []\<rparr>"

definition sys_ok :: "lruPolicy system \<Rightarrow> bool" where
  "sys_ok y \<longleftrightarrow> proc_ok (proc (srv y)) \<and> finite (dom (sessions y)) \<and>
     activeConns (srv y) = word_of_nat (card (dom (sessions y))) \<and> wg (srv y) = int (card (dom (sessions y)))"

lemma set_proc_sel [simp]:
  "proc (srv (set_proc p y)) = p" "sessions (set_proc p y) = sessions y" "transfers (set_proc p y) = transfers y"
  "activeConns (srv (set_proc p y)) = activeConns (srv y)" "wg (srv (set_proc p y)) = wg (srv y)"
  by (simp_all add: set_proc_def)

lemma register_with_wf:
  "wf_map (replicas (mgr E)) \<Longrightarrow> wf_map (replicas (mgr (snd (register_with c snap E))))"
  by (auto simp: register_with_def split: prod.split option.split)

lemma run_unregister_wf:
  "wf_map (replicas (mgr E)) \<Longrightarrow> wf_map (replicas (mgr (run_unregister c E)))"
  by (simp add: run_unregister_def UnregisterReplica_def wf_map_delete)

lemma node_step_st_ok:
  "node_step up lruPolicy_methods l nd nd' \<Longrightarrow> st_ok (cache nd) \<Longrightarrow> st_ok (cache nd')"
  by (induction rule: node_step.induct)
    (auto simp: SlaveOf_cache Failover.beat_ok_def Failover.beat_missed_def Let_def sync_dialed_def sync_acked_def
      sync_command_def Failover.sync_end_def ok.applyMasterCommand_keeps)

lemma set_cache_env_ok:
  "proc_ok p \<Longrightarrow> wf_map (replicas (mgr E)) \<Longrightarrow> proc_ok (set_cache (fst (proc_cache p), E) p)"
  by (simp add: proc_ok_def st_ok_def open_store_def)

lemma sweep_ok:
  "st_ok st \<Longrightarrow> st_ok (snd (runActiveSweepCycle lruPolicy_methods E n (fst st)), snd st)"
  using lru.runActiveSweepCycle_inv [of "fst st" E n]
  by (simp add: st_ok_def open_store_def runActiveSweepCycle_def Let_def split: prod.splits)

lemma sys_ok_set_proc: "sys_ok y \<Longrightarrow> proc_ok p \<Longrightarrow> sys_ok (set_proc p y)"
  by (simp add: sys_ok_def)

lemma sys_ok_transfers [simp]: "sys_ok (y\<lparr>transfers := ts\<rparr>) = sys_ok y"
  by (simp add: sys_ok_def)

lemma sys_ok_proc: "sys_ok y \<Longrightarrow> proc_ok (proc (srv y))"
  by (simp add: sys_ok_def)

lemma sys_ok_wf: "sys_ok y \<Longrightarrow> wf_map (replicas (mgr (snd (sys_cache y))))"
  by (simp add: sys_ok_def proc_ok_def st_ok_def)

lemma proc_ok_close_conn: "proc_ok p \<Longrightarrow> proc_ok (close_conn c p)"
  by (auto simp: close_conn_def Let_def proc_ok_def st_ok_def open_store_def role_inv_def split: option.splits)

lemma card_dom_remove:
  assumes "finite (dom m)" and "m c = Some z"
  shows "card (dom (m(c := None))) = card (dom m) - 1" "0 < card (dom m)"
proof -
  have "c \<in> dom m" using assms(2) by blast
  with assms(1) show "card (dom (m(c := None))) = card (dom m) - 1" "0 < card (dom m)"
    by (auto simp: card_Diff_singleton card_gt_0_iff)
qed

lemma role_inv_close: "role_inv nd \<Longrightarrow> role_inv (rm_Close nd)"
  by (rule role_inv_step [OF node_step.close])

lemma sys_ok_step:
  assumes "sys_step G lruPolicy_methods y y'" and "sys_ok y"
  shows "sys_ok y'"
  using assms
proof (induction rule: sys_step.induct)
  case (accept y c s fin)
  then have "c \<notin> dom (sessions y)" by auto
  with accept show ?case by (simp add: sys_ok_def conn_opened_def)
next
  case (round y c z stop clk w rest p)
  then have "proc_ok p" using conn_round_ok sys_ok_proc by blast
  moreover have "dom ((sessions y)(c \<mapsto> z\<lparr>input := rest, writer := w\<rparr>)) = dom (sessions y)" using round(1) by auto
  ultimately show ?case using round(4) by (simp add: sys_ok_def)
next
  case (finish y c z stop clk p)
  then have "proc_ok p" using conn_round_ok sys_ok_proc by blast
  moreover have "finite (dom (sessions y))" using finish(4) by (simp add: sys_ok_def)
  ultimately show ?case
    using finish(4) card_dom_remove [of "sessions y" c z, OF _ finish(1)]
    by (simp add: sys_ok_def conn_done_def of_nat_diff proc_ok_close_conn)
next
  case (snapshot y c cs now orders)
  then show ?case using sys_ok_proc [OF snapshot(2)] by (simp add: sys_ok_set_proc proc_ok_def)
next
  case (transmit y us c snap vs)
  then show ?case
    by (simp add: sys_ok_set_proc set_cache_env_ok sys_ok_proc register_with_wf sys_ok_wf)
next
  case (unregister y c)
  then show ?case by (simp add: sys_ok_set_proc set_cache_env_ok sys_ok_proc run_unregister_wf sys_ok_wf)
next
  case (replication l y nd)
  then have "proc_ok ((proc (srv y))\<lparr>node := nd\<rparr>)"
    using node_step_st_ok role_inv_step sys_ok_proc [OF replication(2)] by (simp add: proc_ok_def) blast
  with replication show ?case by (simp add: sys_ok_set_proc)
next
  case (sweep y E n)
  then show ?case
    by (simp add: sys_ok_set_proc proc_ok_set_cache sweep_ok sys_ok_proc proc_ok_cache)
next
  case (close y)
  then have "proc_ok ((proc (srv y))\<lparr>node := rm_Close (node (proc (srv y)))\<rparr>)"
    using sys_ok_proc [OF close] by (simp add: proc_ok_def role_inv_close)
  with close show ?case by (simp add: sys_ok_def Server_Close_def Let_def)
qed

lemma sys_ok_reach: "sys_reach G lruPolicy_methods y y' \<Longrightarrow> sys_ok y \<Longrightarrow> sys_ok y'"
  by (induction rule: sys_reach.induct) (auto intro: sys_ok_step)

lemma sys_ok_init:
  assumes "lru_open (st, E)" and "onWriteHooks st = []"
  shows "sys_ok (sys_init (NewServer a now conns st))"
proof -
  have "cache (node_init st') = st'" for st' :: "(lruPolicy, env) Store \<times> env" by (simp add: node_init_def)
  with assms show ?thesis
    by (simp add: sys_ok_def sys_init_def NewServer_def NewMasterManager_def proc_ok_def st_ok_def
        open_store_def role_inv_init)
qed

end
