(* ===== verification/Server_Replies.thy ===== *)
theory Server_Replies
  imports Server_System
begin

text \<open>
  What a client reads from its connection: the responses of \<open>Dispatch\<close> to its commands, one
  for each command, in the order of the commands and encoded without gaps. The commands may
  write to the connections of replicas, but not to the client's own: that is an instance
  of \<open>cache_invariant\<close>.
\<close>

definition quiet_st :: "connid \<Rightarrow> Conn \<Rightarrow> ('p, env) Store \<times> env \<Rightarrow> bool" where
  "quiet_st c C st \<longleftrightarrow> hooked (fst st) \<and> net (snd st) c = C \<and> map_of (replicas (mgr (snd st))) c = None"

lemma store_apply_closed: "closed (fst st) \<Longrightarrow> store_apply P now x st = st"
  by (cases st; cases x) (simp_all add: store_ops_closed)

lemma store_apply_quiet:
  assumes "quiet_st c C st"
  shows "quiet_st c C (store_apply P now x st)"
proof (cases "closed (fst st)")
  case True
  with assms show ?thesis by (simp add: store_apply_closed)
next
  case False
  with assms show ?thesis
    using store_apply_env [of st P now x] by (auto simp: quiet_st_def handleStoreWrite_other split: option.splits)
qed

interpretation quiet: cache_invariant P "quiet_st c C" for P c C
  by unfold_locales (rule store_apply_quiet)

subsection \<open>A conversation\<close>

text \<open>
  \<open>answered\<close> relates a list of commands to the list of their responses: each response is
  that of \<open>Dispatch\<close> in the state that the commands before it left, where only the client's
  own connection has moved on.
\<close>

definition moved_conn :: "connid \<Rightarrow> 'p proc \<Rightarrow> 'p proc \<Rightarrow> bool" where
  "moved_conn c p p' \<longleftrightarrow>
     (\<exists>C. p' = set_cache (fst (proc_cache p), (snd (proc_cache p))\<lparr>net := (net (snd (proc_cache p)))(c := C)\<rparr>) p)"

inductive answered :: "goenv \<Rightarrow> 'p EvictionPolicy \<Rightarrow> (nat \<Rightarrow> nat \<Rightarrow> int64) \<Rightarrow> Handler \<Rightarrow> connid \<Rightarrow> nat \<Rightarrow>
    Value list \<Rightarrow> 'p proc \<Rightarrow> Value list \<Rightarrow> 'p proc \<Rightarrow> bool" for G P clk h c where
  answered_nil: "answered G P clk h c n [] p [] p"
| answered_cons: "Dispatch G P (clk n) h cmd p = Some (r, p1) \<Longrightarrow> moved_conn c p1 p2 \<Longrightarrow>
    answered G P clk h c (Suc n) cmds p2 rs p' \<Longrightarrow> answered G P clk h c n (cmd # cmds) p (r # rs) p'"

lemma proc_net_op_moved: "proc_net_op c f w p = (e, w', p') \<Longrightarrow> moved_conn c p p'"
  by (auto simp: proc_net_op_def net_op_def moved_conn_def Let_def split: prod.splits)

lemma moved_conn_trans: "moved_conn c p p' \<Longrightarrow> moved_conn c p' p'' \<Longrightarrow> moved_conn c p p''"
  by (auto simp: moved_conn_def set_cache_def)

text \<open>On a connection that does not fail, a round delivers the response and goes on.\<close>

lemma reply_delivered:
  assumes "limit (net (snd (proc_cache p)) c) = None" and "err w = None" and "buf w = []"
  obtains w2 w3 p2 p3 where "proc_net_op c (WriteValue r) w p = (None, w2, p2)"
    "proc_net_op c Writer_Flush w2 p2 = (None, w3, p3)" "err w3 = None" "buf w3 = []"
    "wire (net (snd (proc_cache p3)) c) = wire (net (snd (proc_cache p)) c) @ encode r"
    "limit (net (snd (proc_cache p3)) c) = None"
proof -
  obtain s E where se: "proc_cache p = (s, E)" by fastforce
  have l: "limit (net E c) = None" using assms(1) se by simp
  obtain w2 where w2: "WriteValue r (w\<lparr>wr := net E c\<rparr>) = (None, w2)"
    "appended (encode r) (w\<lparr>wr := net E c\<rparr>) w2" "limit (wr w2) = None"
    using writes_unlimited [OF writes_WriteValue(1), of "w\<lparr>wr := net E c\<rparr>" r] l assms(2) by auto
  have e2: "err w2 = None" using w2(2) by (simp add: appended_def)
  obtain w3 where w3: "bufio_Flush w2 = (None, w3)" "appended [] w2 w3" "limit (wr w3) = None"
    using writes_unlimited [OF writes_Flush e2 w2(3)] by blast
  note b3 = Flush_None_buf [OF w3(1)]
  have "wire (wr w3) = wire (net E c) @ encode r"
    using w2(2) w3(2) b3 assms(3) by (simp add: appended_def out_def)
  with that [of w2 "set_cache (s, E\<lparr>net := (net E)(c := wr w2)\<rparr>) p" w3
      "set_cache (s, E\<lparr>net := (net E)(c := wr w3)\<rparr>) p"] show thesis
    using w2 w3 b3 by (simp add: proc_net_op_def net_op_def se Writer_Flush_def set_cache_def)
qed

definition client_conn :: "connid \<Rightarrow> 'p proc \<Rightarrow> bool" where
  "client_conn c p \<longleftrightarrow> limit (net (snd (proc_cache p)) c) = None \<and> hooked (fst (proc_cache p)) \<and>
     map_of (replicas (mgr (snd (proc_cache p)))) c = None"

lemma Dispatch_client_conn:
  assumes "client_conn c p" and "Dispatch G P clk h cmd p = Some (r, p1)"
  shows "client_conn c p1" "net (snd (proc_cache p1)) c = net (snd (proc_cache p)) c"
proof -
  have "quiet_st c (net (snd (proc_cache p)) c) (proc_cache p)" using assms(1) by (simp add: quiet_st_def client_conn_def)
  from quiet.Dispatch_keeps [OF assms(2) this] assms(1)
  show "client_conn c p1" "net (snd (proc_cache p1)) c = net (snd (proc_cache p)) c"
    by (simp_all add: quiet_st_def client_conn_def)
qed

lemma moved_conn_client:
  "moved_conn c p p' \<Longrightarrow> client_conn c p \<Longrightarrow> limit (net (snd (proc_cache p')) c) = None \<Longrightarrow> client_conn c p'"
  by (auto simp: moved_conn_def client_conn_def)

lemma conn_loop_answers:
  assumes "list_all wire_ok cmds" and "has_repl h" and "\<And>n. \<not> stop n" and "client_conn c p"
    and "err w = None" and "buf w = []"
  shows "\<exists>rs p'. conn_loop G P clk stop n h c EOF (concat (map encode cmds)) w p = (None, p') \<and>
    answered G P clk h c n cmds p rs p' \<and>
    wire (net (snd (proc_cache p')) c) = wire (net (snd (proc_cache p)) c) @ concat (map encode rs)"
  using assms
proof (induction cmds arbitrary: n p w)
  case Nil
  have "conn_loop G P clk stop n h c EOF [] w p = (None, p)"
    by (subst conn_loop.simps) (simp add: conn_round_def Nil ReadValue.simps)
  then show ?case using answered_nil [of G P clk h c n p] by auto
next
  case (Cons cmd cmds)
  let ?rest = "concat (map encode cmds)"
  have rd: "ReadValue EOF (encode cmd @ ?rest) = Got cmd ?rest"
    using Cons.prems(1) by (simp add: ReadValue_encode)
  obtain r p1 where d: "Dispatch G P (clk n) h cmd p = Some (r, p1)"
    using Dispatch_total [OF Cons.prems(2)] by fast
  note cc = Dispatch_client_conn [OF Cons.prems(4) d]
  obtain w2 w3 p2 p3 where n2: "proc_net_op c (WriteValue r) w p1 = (None, w2, p2)"
    and n3: "proc_net_op c Writer_Flush w2 p2 = (None, w3, p3)" and w3: "err w3 = None" "buf w3 = []"
    and p3: "wire (net (snd (proc_cache p3)) c) = wire (net (snd (proc_cache p1)) c) @ encode r"
      "limit (net (snd (proc_cache p3)) c) = None"
    using reply_delivered [OF _ Cons.prems(5,6)] cc(1) unfolding client_conn_def by metis
  have mv: "moved_conn c p1 p3"
    by (rule moved_conn_trans [OF proc_net_op_moved [OF n2] proc_net_op_moved [OF n3]])
  have "client_conn c p3" by (rule moved_conn_client [OF mv cc(1) p3(2)])
  from Cons.IH [OF _ Cons.prems(2,3) this w3, of "Suc n"] Cons.prems(1)
  obtain rs p' where ih: "conn_loop G P clk stop (Suc n) h c EOF ?rest w3 p3 = (None, p')"
    "answered G P clk h c (Suc n) cmds p3 rs p'"
    "wire (net (snd (proc_cache p')) c) = wire (net (snd (proc_cache p3)) c) @ concat (map encode rs)" by auto
  have "conn_loop G P clk stop n h c EOF (concat (map encode (cmd # cmds))) w p = (None, p')"
    by (subst conn_loop.simps) (simp add: conn_round_def Cons.prems(3) rd d n2 n3 ih(1))
  moreover have "answered G P clk h c n (cmd # cmds) p (r # rs) p'" by (rule answered_cons [OF d mv ih(2)])
  moreover have "wire (net (snd (proc_cache p')) c) = wire (net (snd (proc_cache p)) c) @ concat (map encode (r # rs))"
    using ih(3) p3(1) cc(2) by simp
  ultimately show ?case by blast
qed

lemma answered_length: "answered G P clk h c n cmds p rs p' \<Longrightarrow> length rs = length cmds"
  by (induction rule: answered.induct) simp_all

end
