(* ===== verification/Replica_Resync.thy ===== *)
theory Replica_Resync
  imports Replica_Sync
begin

text \<open>
  Full resynchronisation from end to end: the snapshot that \<open>RegisterReplica\<close> takes and
  writes (\<open>internal/replication/master.go\<close>), the bytes on the connection, and what
  \<open>connectAndSync\<close> (\<open>replica.go\<close>) makes of them. The replica's store after the snapshot is
  determined key by key; keys that the snapshot does not name keep what they had.
\<close>

subsection \<open>The replica's loop on a stream of commands\<close>

definition entry_ok :: "SnapshotEntry \<Rightarrow> bool" where
  "entry_ok e \<longleftrightarrow> length (snap_Key e) \<le> maxAlloc \<and> length (snap_Value e) \<le> maxAlloc"

lemma snapshot_args_wire_ok: "entry_ok e \<Longrightarrow> wire_ok (NewArray (Some (snapshot_args e)))"
  using command_of_wire_ok [of "(''SET'', snap_Key e, Some (snap_Value e), snap_TTL e)"]
  by (simp add: entry_ok_def notification_ok_def command_of_def mutation_args_def snapshot_args_def)

text \<open>The deadline that an entry of a snapshot gets when it is applied at time \<open>now\<close>.\<close>

definition resynced :: "SnapshotEntry \<Rightarrow> int64 \<Rightarrow> int64 \<Rightarrow> (bytes \<times> int64) option" where
  "resynced e now t = live (snap_Value e) (deadline (trunc_ms (snap_TTL e)) now) t"

lemma sync_entry:
  assumes "lossless (cache nd)"
  shows "lossless (cache (sync_command up lruPolicy_methods ack now (NewArray (Some (snapshot_args e))) nd))"
    and "store_view (fst (cache (sync_command up lruPolicy_methods ack now (NewArray (Some (snapshot_args e))) nd))) t =
      (store_view (fst (cache nd)) t)(snap_Key e := resynced e now t)"
  using lru.plain.inv_set [OF assms] lru.plain.view_set [OF assms] lru.plain.view_set_keep [OF assms]
  by (auto simp: apply_snapshot_entry resynced_def fun_eq_iff)

lemma sync_snapshot:
  assumes "lossless (cache nd)" and "\<not> rm_cancelled (rm nd)" and "list_all entry_ok es"
    and "distinct (map snap_Key es)"
  shows "\<exists>nd'. sync_stream up lruPolicy_methods clk n EOF (concat (map encode (snapshot_commands es))) nd = (None, nd') \<and>
    lossless (cache nd') \<and> masterOffset (rm nd') = masterOffset (rm nd) + word_of_nat (length es) \<and>
    (\<forall>k. k \<notin> snap_Key ` set es \<longrightarrow> (\<forall>t. store_view (fst (cache nd')) t k = store_view (fst (cache nd)) t k)) \<and>
    (\<forall>e \<in> set es. \<exists>i. \<forall>t. store_view (fst (cache nd')) t (snap_Key e) = resynced e (clk i) t)"
  using assms
proof (induction es arbitrary: nd n)
  case Nil
  then show ?case by (auto simp: snapshot_commands_def sync_stream_end)
next
  case (Cons e es)
  let ?nd = "sync_command up lruPolicy_methods (clk n) (clk (n + 1)) (NewArray (Some (snapshot_args e))) nd"
  note e = sync_entry [OF Cons.prems(1), of up "clk n" "clk (n + 1)" e]
  have "sync_stream up lruPolicy_methods clk n EOF (concat (map encode (snapshot_commands (e # es)))) nd =
      sync_stream up lruPolicy_methods clk (n + 2) EOF (concat (map encode (snapshot_commands es))) ?nd"
    using Cons.prems by (simp add: snapshot_commands_def sync_stream_Cons snapshot_args_wire_ok)
  moreover have "masterOffset (rm ?nd) = masterOffset (rm nd) + 1" by (simp add: sync_command_def)
  ultimately show ?case
    using Cons.IH [OF e(1), of "n + 2"] Cons.prems e(2) by (fastforce simp: image_iff)
qed

subsection \<open>The whole handshake\<close>

lemma fullresync_wire_ok: "wire_ok (NewSimpleString fullresync)"
  by (simp add: wire_ok_New fullresync_def LF_def)

lemma sync_command_simple:
  "applyMasterCommand up P now (NewSimpleString s) st = st"
  by (simp add: applyMasterCommand_def)

lemma writes_NewWriter:
  assumes "writes f bs" and "limit c = None"
  shows "\<exists>w'. f (NewWriter c) = (None, w')"
  using writes_unlimited [OF assms(1), of "NewWriter c"] assms(2) by (auto simp: NewWriter_def bufio_NewWriter_def)

lemma psync_flush:
  assumes "limit cn = None"
  obtains w' where "Writer_Flush (snd (WriteArray psync (NewWriter cn))) = (None, w')"
proof -
  have "writes (and_then (WriteArray psync) Writer_Flush) (encode_array psync @ [])"
    unfolding Writer_Flush_def by (intro writes_and_then writes_WriteValue writes_Flush)
  then obtain w' where "and_then (WriteArray psync) Writer_Flush (NewWriter cn) = (None, w')"
    using writes_NewWriter assms by blast
  then show ?thesis using that by (auto simp: and_then_def split: prod.splits option.splits)
qed

text \<open>
  \<open>connectAndSync\<close> on a stream that starts with two header lines, that of the command's
  response and that of the registration: the second is counted as a command and ignored.
\<close>

lemma connectAndSync_headers:
  assumes "limit cn = None" and "\<not> rm_cancelled (rm nd)"
  obtains nd2 where "rm_cancelled (rm nd2) = rm_cancelled (rm nd)" "cache nd2 = cache nd"
    "masterOffset (rm nd2) = masterOffset (rm nd) + 1"
    "\<forall>s. connectAndSync up P clk i cid
        (Dialed cn (encode (NewSimpleString fullresync) @ encode (NewSimpleString fullresync) @ s) EOF) nd =
      (case sync_stream up P clk (1 + 2) EOF s nd2 of
         (Some p, nd3) \<Rightarrow> (Some p, nd3)
       | (None, nd3) \<Rightarrow> (None, sync_end i cid nd3))"
proof -
  let ?psync = "Some [NewBulkStringFromString ''PSYNC'', NewBulkStringFromString ''?'', NewBulkStringFromString ''-1'']"
  let ?nd1 = "sync_acked i cid (clk 0) (sync_dialed i cid nd)"
  let ?nd2 = "sync_command up P (clk 1) (clk (1 + 1)) (NewSimpleString fullresync) ?nd1"
  obtain w' where flush: "Writer_Flush (snd (WriteArray ?psync (NewWriter cn))) = (None, w')"
    using assms(1) by (rule psync_flush)
  have nc: "\<not> rm_cancelled (rm ?nd1)" using assms(2) by (simp add: sync_acked_def sync_dialed_def)
  show ?thesis
  proof (rule that [of ?nd2])
    show "\<forall>s. connectAndSync up P clk i cid
        (Dialed cn (encode (NewSimpleString fullresync) @ encode (NewSimpleString fullresync) @ s) EOF) nd =
      (case sync_stream up P clk (1 + 2) EOF s ?nd2 of
         (Some p, nd3) \<Rightarrow> (Some p, nd3)
       | (None, nd3) \<Rightarrow> (None, sync_end i cid nd3))"
      unfolding connectAndSync_def Let_def dial.case flush ReadValue_encode [OF fullresync_wire_ok]
        read.case prod.case option.case sync_stream_Cons [OF nc fullresync_wire_ok] by blast
  qed (simp_all add: sync_command_def sync_acked_def sync_dialed_def sync_command_simple)
qed

lemma sync_end_sel [simp]: "cache (sync_end i cid nd) = cache nd" "masterOffset (rm (sync_end i cid nd)) = masterOffset (rm nd)"
  by (simp_all add: sync_end_def)

lemma resync_views:
  assumes "limit cn = None" and "\<not> rm_cancelled (rm nd)" and "lossless (cache nd)" and "list_all entry_ok es"
    and "distinct (map snap_Key es)"
  shows "\<exists>nd'. connectAndSync up lruPolicy_methods clk i cid (Dialed cn (encode (NewSimpleString fullresync) @
        encode (NewSimpleString fullresync) @ concat (map encode (snapshot_commands es))) EOF) nd = (None, nd') \<and>
    lossless (cache nd') \<and> masterOffset (rm nd') = masterOffset (rm nd) + 1 + word_of_nat (length es) \<and>
    (\<forall>k. k \<notin> snap_Key ` set es \<longrightarrow> (\<forall>t. store_view (fst (cache nd')) t k = store_view (fst (cache nd)) t k)) \<and>
    (\<forall>e \<in> set es. \<exists>i. \<forall>t. store_view (fst (cache nd')) t (snap_Key e) = resynced e (clk i) t)"
proof -
  obtain nd2 where nd2: "rm_cancelled (rm nd2) = rm_cancelled (rm nd)" "cache nd2 = cache nd"
    "masterOffset (rm nd2) = masterOffset (rm nd) + 1"
    and run: "\<forall>s. connectAndSync up lruPolicy_methods clk i cid
        (Dialed cn (encode (NewSimpleString fullresync) @ encode (NewSimpleString fullresync) @ s) EOF) nd =
      (case sync_stream up lruPolicy_methods clk (1 + 2) EOF s nd2 of
         (Some p, nd3) \<Rightarrow> (Some p, nd3) | (None, nd3) \<Rightarrow> (None, sync_end i cid nd3))"
    by (rule connectAndSync_headers [OF assms(1,2), of up lruPolicy_methods clk i cid])
  obtain nd3 where "sync_stream up lruPolicy_methods clk (1 + 2) EOF (concat (map encode (snapshot_commands es))) nd2 = (None, nd3)"
    and "lossless (cache nd3)" "masterOffset (rm nd3) = masterOffset (rm nd) + 1 + word_of_nat (length es)"
    "\<forall>k. k \<notin> snap_Key ` set es \<longrightarrow> (\<forall>t. store_view (fst (cache nd3)) t k = store_view (fst (cache nd)) t k)"
    "\<forall>e \<in> set es. \<exists>i. \<forall>t. store_view (fst (cache nd3)) t (snap_Key e) = resynced e (clk i) t"
    using sync_snapshot [of nd2 es up clk "1 + 2", unfolded nd2, OF assms(3,2,4,5)] by auto
  then show ?thesis by (intro exI [of _ "sync_end i cid nd3"]) (simp only: run [rule_format] sync_end_sel option.case prod.case simp_thms)
qed

subsection \<open>The snapshot as a function of the master's view\<close>

lemma snapshot_view:
  assumes "lru_open (s, E)" and "orders_ok orders s"
  shows "k \<notin> snap_Key ` set (Snapshot now orders s) \<longleftrightarrow> store_view s now k = None"
    and "store_view s now k = Some (v, d) \<Longrightarrow>
      \<lparr>snap_Key = k, snap_Value = v, snap_TTL = remaining d now\<rparr> \<in> set (Snapshot now orders s)"
proof -
  have mem: "\<lparr>snap_Key = k, snap_Value = v, snap_TTL = r\<rparr> \<in> set (Snapshot now orders s) \<longleftrightarrow>
      (\<exists>d. store_view s now k = Some (v, d) \<and> r = remaining d now)" for v r
    using snapshot_mem [of lru_inv "\<lambda>p. set (lru_keys p)" s orders k v r now] assms by (simp add: open_store_def)
  show "store_view s now k = Some (v, d) \<Longrightarrow>
      \<lparr>snap_Key = k, snap_Value = v, snap_TTL = remaining d now\<rparr> \<in> set (Snapshot now orders s)"
    using mem by blast
  have "k \<in> snap_Key ` set (Snapshot now orders s) \<longleftrightarrow>
      (\<exists>v r. \<lparr>snap_Key = k, snap_Value = v, snap_TTL = r\<rparr> \<in> set (Snapshot now orders s))"
    by (auto simp: image_iff) (metis SnapshotEntry.surjective SnapshotEntry.cases SnapshotEntry.select_convs(1) old.unit.exhaust)+
  then show "k \<notin> snap_Key ` set (Snapshot now orders s) \<longleftrightarrow> store_view s now k = None"
    using mem by (cases "store_view s now k") auto
qed

text \<open>The keys and values of a store are within what the parser accepts.\<close>

definition sizes_ok :: "int64 \<Rightarrow> ('p, 'e) Store \<Rightarrow> bool" where
  "sizes_ok now s \<longleftrightarrow> (\<forall>k v d. store_view s now k = Some (v, d) \<longrightarrow> length k \<le> maxAlloc \<and> length v \<le> maxAlloc)"

lemma snapshot_entry_ok:
  assumes "lru_open (s, E)" and "orders_ok orders s" and "sizes_ok now s"
  shows "list_all entry_ok (Snapshot now orders s)"
proof -
  have "entry_ok e" if "e \<in> set (Snapshot now orders s)" for e
  proof (cases e)
    case (fields k v r)
    with that snapshot_mem [of lru_inv "\<lambda>p. set (lru_keys p)" s orders k v r now] assms
    show ?thesis by (auto simp: open_store_def entry_ok_def sizes_ok_def)
  qed
  then show ?thesis by (simp add: list_all_iff)
qed

text \<open>
  A registration with a snapshot of \<open>s\<close>, transmitted in the environment \<open>E\<close>, and the
  synchronisation of a replica on what arrives.
\<close>

lemma resync_from_snapshot:
  assumes s: "lru_open (s, E0)" "orders_ok orders s" "sizes_ok now s"
    and E: "wf_map (replicas (mgr E))" "limit (net E c) = None"
    and nd: "limit cn = None" "\<not> rm_cancelled (rm nd)" "lossless (cache nd)"
    and reg: "register_with c (Snapshot now orders s) E = (e, E')"
    and new: "new = drop (length (wire (net E c))) (wire (net E' c))"
  shows "e = None \<and> healthy c E' \<and>
    (\<exists>nd'. connectAndSync up lruPolicy_methods clk i cid
        (Dialed cn (encode (NewSimpleString fullresync) @ new) EOF) nd = (None, nd') \<and>
      (\<forall>k. case store_view s now k of
             None \<Rightarrow> \<forall>t. store_view (fst (cache nd')) t k = store_view (fst (cache nd)) t k
           | Some (v, d) \<Rightarrow> \<exists>i. \<forall>t. store_view (fst (cache nd')) t k =
               live v (deadline (trunc_ms (remaining d now)) (clk i)) t))"
proof -
  let ?es = "Snapshot now orders s"
  have dist: "distinct (map snap_Key ?es)"
    using snapshot_keys_distinct [of lru_inv "\<lambda>p. set (lru_keys p)" s orders now] s by (simp add: open_store_def)
  have r: "e = None" "healthy c E'"
    "new = encode (NewSimpleString fullresync) @ concat (map encode (snapshot_commands ?es))"
    using register_with_ok [OF E, of ?es] reg new by simp_all
  obtain nd' where run: "connectAndSync up lruPolicy_methods clk i cid
      (Dialed cn (encode (NewSimpleString fullresync) @ new) EOF) nd = (None, nd')"
    and keep: "\<forall>k. k \<notin> snap_Key ` set ?es \<longrightarrow>
      (\<forall>t. store_view (fst (cache nd')) t k = store_view (fst (cache nd)) t k)"
    and take: "\<forall>e \<in> set ?es. \<exists>i. \<forall>t. store_view (fst (cache nd')) t (snap_Key e) = resynced e (clk i) t"
    using resync_views [OF nd snapshot_entry_ok [OF s] dist, of up clk i cid] r(3) by auto
  have "case store_view s now k of
      None \<Rightarrow> \<forall>t. store_view (fst (cache nd')) t k = store_view (fst (cache nd)) t k
    | Some (v, d) \<Rightarrow> \<exists>i. \<forall>t. store_view (fst (cache nd')) t k =
        live v (deadline (trunc_ms (remaining d now)) (clk i)) t" for k
  proof (cases "store_view s now k")
    case None
    with keep snapshot_view(1) [OF s(1,2), where k = k and now = now] show ?thesis by simp
  next
    case (Some vd)
    obtain v d where vd: "vd = (v, d)" by (cases vd)
    from take [rule_format, OF snapshot_view(2) [OF s(1,2) Some [unfolded vd]]]
    have "\<exists>i. \<forall>t. store_view (fst (cache nd')) t k = live v (deadline (trunc_ms (remaining d now)) (clk i)) t"
      by (simp add: resynced_def)
    then show ?thesis by (simp add: Some vd)
  qed
  with r run show ?thesis by blast
qed

end
