(* ===== verification/Replication_Properties.thy ===== *)
theory Replication_Properties
  imports Replica_Resync
begin

text \<open>
  The properties of replication: what reaches a replica and what it makes of it, when a
  replica promotes itself, and which late goroutines can act on an outdated decision.
\<close>

subsection \<open>A small master and a small replica for the witnesses\<close>

definition demo_conn :: Conn where
  "demo_conn = \<lparr>wire = [], limit = None, write_err = []\<rparr>"

definition demo_env :: env where
  "demo_env = \<lparr>net = (\<lambda>_. demo_conn), mgr = \<lparr>replicas = [(7, NewWriter demo_conn)], totalOffset = 0\<rparr>,
     unregistering = []\<rparr>"

definition demo_base :: "(lruPolicy, env) Store" where
  "demo_base =
     \<lparr>cfg = DefaultConfig\<lparr>ShardCount := 2\<rparr>, shards = replicate 2 (newShard 0 None), shardMask = 1,
      seed = demo_hash, ctx_done = False, closed = False, onWriteHooks = []\<rparr>"

definition demo_master :: "(lruPolicy, env) Store" where
  "demo_master = OnWrite handleStoreWrite demo_base"

definition demo_replica :: "(lruPolicy, unit) node" where
  "demo_replica = node_init (plain_store, ())"

lemma demo_healthy: "healthy 7 demo_env"
  by (simp add: healthy_def demo_env_def demo_conn_def)

lemma demo_base_new: "NewStore (DefaultConfig\<lparr>ShardCount := 2\<rparr>) demo_hash = Inr demo_base"
  by (simp add: NewStore_def DefaultConfig_def demo_base_def make_ok_pointers signed_simps)

lemma demo_master_lossless: "lossless (demo_master, demo_env)" "hooked demo_master"
proof -
  have "lru_open (demo_base, demo_env)"
    by (rule NewStore_inv [OF demo_base_new]) (simp add: factory_ok_def DefaultConfig_def)
  moreover have "no_eviction demo_base"
    by (rule NewStore_no_eviction [OF demo_base_new]) (simp add: DefaultConfig_def)
  ultimately show "lossless (demo_master, demo_env)"
    by (simp add: open_lossless_def open_store_def demo_master_def)
  show "hooked demo_master" by (simp add: demo_master_def demo_base_def)
qed

lemma demo_views:
  "store_view demo_master t = live_at t Map.empty" "store_view plain_store t = live_at t Map.empty"
  using NewStore_view [OF demo_base_new, of t] NewStore_view [OF plain_store_new, of t]
  by (simp_all add: demo_master_def live_at_def fun_eq_iff)

subsection \<open>The replication stream\<close>

text \<open>
  C1. A replica follows its master, each by its own clock, when neither evicts and the
  connection does not fail. The two start in the relation stated at the end. The master
  runs any timed sequence of store operations whose times to live the stream can carry (whole
  milliseconds for a set, whole seconds below 97 days for an expire); the replica reads the
  bytes that the master's manager put on its connection and applies each command at most
  \<open>L\<close> after the master sent it, by a clock that does not go backwards. No \<open>EXPIRE\<close> is sent
  for a key with \<open>L\<close> or less left, and no deadline overflows. Then every key that the master
  shows is on the replica with the same value and a deadline that is at most \<open>L\<close> later, none
  for a key without one; and a key that the master does not show at time \<open>t\<close> is gone from the
  replica by \<open>t + L\<close>.
\<close>

theorem replica_mirrors_master:
  assumes "lossless st" and "hooked (fst st)" and "healthy c (snd st)" and "lossless (cache nd)" and "\<not> rm_cancelled (rm nd)"
    and "list_all (\<lambda>y. replicable (snd y) \<and> deadlines_fit L y) xs" and "expires_early L xs st" and "times_ok t0 xs t"
    and "applied_within L clk 0 (sent_ops lruPolicy_methods xs st)"
    and "\<And>i. clk i \<le>s clk (Suc i)" and "\<And>i. clk i \<le>s t'" and "r0 \<le>s clk 0"
    and "\<And>t. t0 \<le>s t \<Longrightarrow> store_view (fst st) t = live_at t m"
    and "\<And>t. r0 \<le>s t \<Longrightarrow> store_view (fst (cache nd)) t = live_at t m'"
    and "\<And>k. shadows L (sint t0) (m k) (m' k)"
    and "st' = store_run lruPolicy_methods xs st" and "new = drop (length (wire (net (snd st) c))) (wire (net (snd st') c))"
  shows "\<exists>nd'. sync_stream up lruPolicy_methods clk 0 EOF new nd = (None, nd') \<and>
    (case store_view (fst st') t k of
       Some (v, d) \<Rightarrow> \<exists>d'. later L d d' \<and> store_view (fst (cache nd')) t' k = live v d' t'
     | None \<Rightarrow> sint t + L \<le> sint t' \<longrightarrow> store_view (fst (cache nd')) t' k = None)"
proof -
  let ?ys = "sent_ops lruPolicy_methods xs st"
  let ?m = "spec_run xs m" and ?m' = "spec_run (replica_ops clk 0 ?ys) m'"
  have rep: "list_all (\<lambda>x. replicable (snd x)) xs" using assms(6) by (auto simp: list_all_iff)
  then have "list_all (\<lambda>y. replicable (snd y) \<and> is_write (snd y)) ?ys"
    using sent_ops_write [of lruPolicy_methods xs st] sent_ops_subset [of lruPolicy_methods xs st] by (auto simp: list_all_iff)
  from replica_views [OF assms(4,5) this assms(10-12,14)] obtain nd' where
    nd': "sync_stream up lruPolicy_methods clk 0 EOF (concat (map (encode \<circ> command_of \<circ> notification \<circ> snd) ?ys)) nd = (None, nd')"
      "store_view (fst (cache nd')) t' = live_at t' ?m'" by blast
  have new: "new = concat (map (encode \<circ> command_of \<circ> notification \<circ> snd) ?ys)"
    using store_run_stream [OF assms(1-3) rep] by (simp add: assms(16,17))
  have mv: "store_view (fst st') t = live_at t ?m"
    unfolding assms(16) store_run_run by (rule lru.plain.view_run [OF assms(1,8,13)])
  have "shadows L (sint t) (?m k) (?m' k)" by (rule shadows_run [OF assms(1,8,13,15,6,7,9)])
  then show ?thesis
    using nd' mv unfolding new
    by (auto simp: live_at_def live_def shadows_def passed_def later_def signed_simps split: option.splits if_splits)
qed

text \<open>
  The master sets two keys, deletes one and prolongs the other; the replica applies each
  command 10 nanoseconds later.
\<close>

definition demo_ops :: "(int64 \<times> map_op) list" where
  "demo_ops = [(1, OpSet ''a'' (Some ''x'') 5000000), (2, OpSet ''b'' None 0), (3, OpDelete ''b''), (4, OpExpire ''a'' 2000000000)]"

definition demo_clock :: "nat \<Rightarrow> int64" where
  "demo_clock i = (if i < 2 then 11 else if i < 4 then 12 else if i < 6 then 13 else 14)"

lemma demo_ops_ok: "list_all (\<lambda>y. replicable (snd y) \<and> deadlines_fit 10 y) demo_ops" "times_ok 0 demo_ops 5"
  by (simp_all add: demo_ops_def maxAlloc_def signed_simps)

lemma demo_run_view:
  "times_ok 0 xs t \<Longrightarrow> store_view (fst (store_run lruPolicy_methods xs (demo_master, demo_env))) t = live_at t (spec_run xs Map.empty)"
  unfolding store_run_run by (rule lru.plain.view_run [OF demo_master_lossless(1)]) (simp_all add: demo_views)

lemma demo_ops_sent:
  "sent_ops lruPolicy_methods demo_ops (demo_master, demo_env) = demo_ops" "expires_early 10 demo_ops (demo_master, demo_env)"
proof -
  let ?P = lruPolicy_methods and ?st = "\<lambda>n. store_run lruPolicy_methods (take n demo_ops) (demo_master, demo_env)"
  have l: "lossless (?st n)" for n
    unfolding store_run_run by (rule lru.plain.inv_run [OF demo_master_lossless(1)])
  have b: "store_view (fst (?st 2)) 3 ''b'' = Some ([], 0)" and a: "store_view (fst (?st 3)) 4 ''a'' = Some (''x'', 5000001)"
    by (subst demo_run_view; simp add: demo_ops_def live_at_def live_def passed_def deadline_def signed_simps)+
  have "fst (Store_Delete ?P ''b'' (?st 2))" using lru.plain.delete_result [OF l [of 2], of 3 "''b''"] b by simp
  moreover have "fst (Store_Expire ?P ''a'' 2000000000 4 (?st 3))"
    using lru.plain.expire_result [OF l [of 3], of "''a''" 2000000000 4] a by simp
  ultimately show "sent_ops ?P demo_ops (demo_master, demo_env) = demo_ops" by (simp add: demo_ops_def)
  show "expires_early 10 demo_ops (demo_master, demo_env)" using a by (simp add: demo_ops_def)
qed

theorem replica_mirrors_master_witness:
  "\<exists>nd' d'. sync_stream id lruPolicy_methods demo_clock 0 EOF
      (wire (net (snd (store_run lruPolicy_methods demo_ops (demo_master, demo_env))) 7)) demo_replica = (None, nd') \<and>
    later 10 2000000004 d' \<and> store_view (fst (cache nd')) 100 ''a'' = live ''x'' d' 100"
proof -
  have "store_view (fst (store_run lruPolicy_methods demo_ops (demo_master, demo_env))) 5 ''a'' = Some (''x'', 2000000004)"
    by (subst demo_run_view; simp add: demo_ops_def live_at_def live_def passed_def deadline_def signed_simps)
  moreover have "cache demo_replica = (plain_store, ())" "\<not> rm_cancelled (rm demo_replica)"
    by (simp_all add: demo_replica_def node_init_def NewReplicaManager_def)
  moreover have "applied_within 10 demo_clock 0 (sent_ops lruPolicy_methods demo_ops (demo_master, demo_env))"
    unfolding demo_ops_sent by (simp add: demo_ops_def demo_clock_def)
  moreover have "wire (net (snd (demo_master, demo_env)) 7) = []" by (simp add: demo_env_def demo_conn_def)
  ultimately show ?thesis
    using replica_mirrors_master [OF demo_master_lossless(1) _ _ _ _ demo_ops_ok(1) demo_ops_sent(2) demo_ops_ok(2) _ _ _ _ _ _ _ refl refl,
      where nd = demo_replica and c = 7 and clk = demo_clock and t' = 100 and ?r0.0 = 0 and m = Map.empty and m' = Map.empty
        and up = id and k = "''a''"] demo_healthy demo_views plain_lossless demo_master_lossless(2)
    by (auto simp: demo_clock_def signed_simps shadows_same)
qed

text \<open>
  C6. Full resynchronisation: a replica that connects and does not evict gets, when neither
  connection fails, every key that is live at the moment of the snapshot, with its value and
  with its remaining time to live in whole milliseconds counted from the moment the replica
  applies it (with less than a millisecond left: without expiry); a key the master does not
  have stays on the replica as it was, because a resynchronisation does not clear it.
\<close>

theorem full_resync_copies_live_keys:
  assumes "lru_open (s, E)" and "orders_ok orders s" and "sizes_ok now s"
    and "wf_map (replicas (mgr E))" and "limit (net E c) = None"
    and "limit cn = None" and "\<not> rm_cancelled (rm nd)" and "lossless (cache nd)"
    and "RegisterReplica c now orders (s, E) = (e, s', E')"
    and "new = drop (length (wire (net E c))) (wire (net E' c))"
  shows "e = None \<and> s' = s \<and> healthy c E' \<and>
    (\<exists>nd'. connectAndSync up lruPolicy_methods clk i cid
        (Dialed cn (encode (NewSimpleString fullresync) @ new) EOF) nd = (None, nd') \<and>
      (\<forall>k. case store_view s now k of
             None \<Rightarrow> \<forall>t. store_view (fst (cache nd')) t k = store_view (fst (cache nd)) t k
           | Some (v, d) \<Rightarrow> \<exists>i. \<forall>t. store_view (fst (cache nd')) t k =
               live v (deadline (trunc_ms (remaining d now)) (clk i)) t))"
proof -
  have "register_with c (Snapshot now orders s) E = (e, E')" "s' = s"
    using assms(9) by (auto simp: RegisterReplica_def Let_def split: prod.splits)
  with resync_from_snapshot [OF assms(1-8) _ assms(10)] show ?thesis by blast
qed

definition demo_unregistered :: env where
  "demo_unregistered = demo_env\<lparr>mgr := \<lparr>replicas = [], totalOffset = 0\<rparr>\<rparr>"

lemma demo_unregistered_ok: "wf_map (replicas (mgr demo_unregistered))" "limit (net demo_unregistered c) = None"
  "map_of (replicas (mgr demo_unregistered)) c = None"
  by (simp_all add: demo_unregistered_def demo_env_def demo_conn_def)

lemma demo_replica_ok: "\<not> rm_cancelled (rm demo_replica)" "lossless (cache demo_replica)" "cache demo_replica = (plain_store, ())"
  using plain_lossless by (simp_all add: demo_replica_def node_init_def NewReplicaManager_def)

definition demo_orders_of :: "(lruPolicy, 'e) Store \<Rightarrow> nat \<Rightarrow> string list" where
  "demo_orders_of s i = keys_of (items (shards s ! i))"

text \<open>The small master with one key that has no deadline.\<close>

definition demo_filled :: "(lruPolicy, env) Store" where
  "demo_filled = fst (snd (Store_Set lruPolicy_methods ''k'' (Some ''v'') 0 1 (demo_master, demo_unregistered)))"

lemma demo_filled_ok:
  "lru_open (demo_filled, E)" "orders_ok (demo_orders_of demo_filled) demo_filled" "hooked demo_filled"
  "store_view demo_filled t = [''k'' \<mapsto> (''v'', 0)]"
proof -
  have l: "lossless (demo_master, demo_unregistered)"
    using demo_master_lossless(1) by (simp add: open_lossless_def open_store_def)
  have "lossless (snd (Store_Set lruPolicy_methods ''k'' (Some ''v'') 0 1 (demo_master, demo_unregistered)))"
    by (rule lru.plain.inv_set [OF l])
  then show o: "lru_open (demo_filled, E)" by (simp add: demo_filled_def open_lossless_def open_store_def)
  show "orders_ok (demo_orders_of demo_filled) demo_filled"
    using demo_orders [OF o] by (simp add: demo_orders_of_def [abs_def])
  show "hooked demo_filled"
    using store_apply_env(2) [of "(demo_master, demo_unregistered)" lruPolicy_methods 1 "OpSet ''k'' (Some ''v'') 0"]
      demo_master_lossless by (simp add: demo_filled_def open_lossless_def open_store_def)
  show "store_view demo_filled t = [''k'' \<mapsto> (''v'', 0)]"
    using lru.plain.view_set [OF l, of "''k''" "Some ''v''" 0 1 t]
      lru.plain.view_set_keep [OF l, of _ "''k''" "Some ''v''" 0 1 t] demo_views(1) [of t]
    by (auto simp: demo_filled_def fun_eq_iff deadline_def live_at_def)
qed

lemma demo_filled_sizes: "sizes_ok now demo_filled"
  by (auto simp: sizes_ok_def demo_filled_ok(4) maxAlloc_def split: if_splits)

theorem full_resync_copies_live_keys_witness:
  "\<exists>e s' E' nd'. RegisterReplica 7 5 (demo_orders_of demo_filled) (demo_filled, demo_unregistered) = (e, s', E') \<and>
    connectAndSync id lruPolicy_methods (\<lambda>_. 6) 0 0
      (Dialed demo_conn (encode (NewSimpleString fullresync) @ drop (length (wire (net demo_unregistered 7))) (wire (net E' 7))) EOF)
      demo_replica = (None, nd') \<and>
    store_view (fst (cache nd')) 9 ''k'' = Some (''v'', 0)"
proof -
  obtain e s' E' where r: "RegisterReplica 7 5 (demo_orders_of demo_filled) (demo_filled, demo_unregistered) = (e, s', E')"
    by (metis prod.exhaust)
  have cn: "limit demo_conn = None" by (simp add: demo_conn_def)
  have "deadline (trunc_ms (remaining 0 5)) 6 = 0"
    by (simp add: remaining_def trunc_ms_def deadline_def signed_simps)
  with full_resync_copies_live_keys [OF demo_filled_ok(1,2) demo_filled_sizes demo_unregistered_ok(1,2) cn
      demo_replica_ok(1,2) r refl, of id "\<lambda>_. 6" 0 0] r demo_filled_ok(4) [of 5]
  show ?thesis by (fastforce dest: spec [where x = "''k''"])
qed

text \<open>
  C36. A set, between the snapshot and the registration, of a key that neither node has is
  lost to the new replica: it is
  not in the snapshot and it is not broadcast, so the replica, which the master from then on
  counts as in step, does not have the key.
\<close>

theorem registration_gap_loses_write:
  assumes "lru_open (s, E)" and "hooked s" and "orders_ok orders s" and "sizes_ok now s"
    and "wf_map (replicas (mgr E))" and "limit (net E c) = None" and "map_of (replicas (mgr E)) c = None"
    and "store_view s now k = None"
    and "limit cn = None" and "\<not> rm_cancelled (rm nd)" and "lossless (cache nd)"
    and "\<And>t. store_view (fst (cache nd)) t k = None"
    and "st1 = snd (Store_Set lruPolicy_methods k v d t1 (s, E))"
    and "register_with c (Snapshot now orders s) (snd st1) = (e, E')"
    and "new = drop (length (wire (net E c))) (wire (net E' c))"
  shows "healthy c E' \<and> store_view (fst st1) t k = live (elems v) (deadline d t1) t \<and>
    (\<exists>nd'. connectAndSync up lruPolicy_methods clk i cid
        (Dialed cn (encode (NewSimpleString fullresync) @ new) EOF) nd = (None, nd') \<and>
      (\<forall>t. store_view (fst (cache nd')) t k = None))"
proof -
  have E1: "snd st1 = handleStoreWrite ''SET'' k v d E"
    using store_apply_env(1) [of "(s, E)" lruPolicy_methods t1 "OpSet k v d"] assms(1,2)
    by (simp add: assms(13) open_store_def)
  have n: "net (snd st1) c = net E c" using handleStoreWrite_other(1) [OF assms(7)] E1 by simp
  have wf: "wf_map (replicas (mgr (snd st1)))" using handleStoreWrite_wf [OF assms(5)] E1 by simp
  from resync_from_snapshot [OF assms(1,3,4) wf _ assms(9-11,14), of new up clk i cid] assms(6,8,12,15) n
  have "healthy c E' \<and> (\<exists>nd'. connectAndSync up lruPolicy_methods clk i cid
        (Dialed cn (encode (NewSimpleString fullresync) @ new) EOF) nd = (None, nd') \<and>
      (\<forall>t. store_view (fst (cache nd')) t k = None))"
    by (fastforce dest: spec [where x = k])
  with lru.store.view_set [OF assms(1), of k v d t1 t] show ?thesis by (simp add: assms(13))
qed

theorem registration_gap_loses_write_witness:
  "\<exists>e E' nd'. register_with 7 (Snapshot 5 (demo_orders_of demo_filled) demo_filled)
      (snd (snd (Store_Set lruPolicy_methods ''new'' (Some ''x'') 0 5 (demo_filled, demo_unregistered)))) = (e, E') \<and>
    healthy 7 E' \<and> connectAndSync id lruPolicy_methods (\<lambda>_. 6) 0 0
      (Dialed demo_conn (encode (NewSimpleString fullresync) @ drop (length (wire (net demo_unregistered 7))) (wire (net E' 7))) EOF)
      demo_replica = (None, nd') \<and> store_view (fst (cache nd')) 9 ''new'' = None"
proof -
  obtain e E' where r: "register_with 7 (Snapshot 5 (demo_orders_of demo_filled) demo_filled)
      (snd (snd (Store_Set lruPolicy_methods ''new'' (Some ''x'') 0 5 (demo_filled, demo_unregistered)))) = (e, E')"
    by fastforce
  have cn: "limit demo_conn = None" by (simp add: demo_conn_def)
  have v: "store_view demo_filled 5 ''new'' = None" by (simp add: demo_filled_ok(4))
  have r0: "store_view (fst (cache demo_replica)) t ''new'' = None" for t
    using demo_views(2) [of t] by (simp add: demo_replica_ok(3) live_at_def)
  from registration_gap_loses_write [OF demo_filled_ok(1,3,2) demo_filled_sizes demo_unregistered_ok v cn
      demo_replica_ok(1,2) r0 refl r refl, of 9 id "\<lambda>_. 6" 0 0] r
  show ?thesis by blast
qed

text \<open>
  C15. What reaches a replica has no holes: after any sequence of broadcasts, either all
  commands are on the replica's connection in order, or the connection has refused a byte,
  the replica is marked for removal, and it holds an initial part of the stream, to which
  the manager will not add; the pending removal takes it out of the broadcast.
\<close>

theorem replica_stream_has_no_gaps:
  assumes "wf_map (replicas (mgr E))" and "map_of (replicas (mgr E)) c = Some w" and "err w = None" and "buf w = []"
    and "list_all notification_ok ns"
    and "E' = fold (\<lambda>(cmd, k, v, d). handleStoreWrite cmd k v d) ns E"
  shows "wire (net E' c) = wire (net E c) @ concat (map (encode \<circ> command_of) ns) \<or>
    prefix (wire (net E' c)) (wire (net E c) @ concat (map (encode \<circ> command_of) ns)) \<and> c \<in> set (unregistering E') \<and>
      (\<exists>w'. map_of (replicas (mgr E')) c = Some w' \<and> err w' \<noteq> None) \<and>
      map_of (replicas (mgr (run_unregister c E'))) c = None"
proof -
  have "in_step c (sent @ concat (map (encode \<circ> command_of) ns)) (fold (\<lambda>(cmd, k, v, d). handleStoreWrite cmd k v d) ns E)"
    if "in_step c sent E" for sent E
    using assms(5) that
  proof (induction ns arbitrary: sent E)
    case (Cons n ns)
    obtain cmd k v d where n: "n = (cmd, k, v, d)" by (cases n)
    with Cons.prems(1) obtain args where a: "mutation_args cmd k v d = Some args"
      using mutation_args_Some [of cmd k v d] by auto
    from Cons.IH [OF _ handleStoreWrite_in_step [OF Cons.prems(2) a]] Cons.prems(1) n a show ?case
      by (simp add: command_of_def)
  qed simp
  from this [of "wire (net E c)" E] assms
  have "in_step c (wire (net E c) @ concat (map (encode \<circ> command_of) ns)) E'" by (simp add: in_step_def)
  then show ?thesis
    by (auto simp: in_step_def run_unregister_def UnregisterReplica_def split: if_splits)
qed

definition demo_broken :: env where
  "demo_broken = demo_env\<lparr>net := \<lambda>_. demo_conn\<lparr>limit := Some 20\<rparr>\<rparr>"

theorem replica_stream_has_no_gaps_witness:
  "prefix (wire (net (handleStoreWrite ''DEL'' ''b'' None 0 (handleStoreWrite ''DEL'' ''a'' None 0 demo_broken)) 7))
    (concat (map (encode \<circ> command_of) [(''DEL'', ''a'', None, 0), (''DEL'', ''b'', None, 0)]))"
  using replica_stream_has_no_gaps [of demo_broken 7 "NewWriter demo_conn"
      "[(''DEL'', ''a'', None, 0), (''DEL'', ''b'', None, 0)]", OF _ _ _ _ _ refl]
  by (auto simp: demo_broken_def demo_env_def demo_conn_def NewWriter_def bufio_NewWriter_def notification_ok_def maxAlloc_def)

text \<open>
  A time to live below a millisecond is dropped from the stream: the replica stores
  the key without a deadline, so it keeps what the master soon expires.
\<close>

theorem sub_millisecond_ttl_lost:
  assumes "0 < sint ttl" and "sint ttl < 1000000"
  shows "applyMasterCommand up P now (command_of (''SET'', k, v, ttl)) st =
    snd (Store_Set P k (Some (elems v)) 0 now st)"
proof -
  have "sint (trunc_ms ttl) = 0" using sint_trunc_ms [OF assms(1)] assms by simp
  then have "trunc_ms ttl = 0" by (simp add: sint64_0_iff)
  then show ?thesis
    using apply_forwarded_set [of k v ttl _ up P now st] by (simp add: command_of_def mutation_args_def)
qed

theorem sub_millisecond_ttl_lost_witness:
  "applyMasterCommand id lruPolicy_methods 1 (command_of (''SET'', ''k'', Some ''v'', 999999)) (plain_store, ()) =
    snd (Store_Set lruPolicy_methods ''k'' (Some ''v'') 0 1 (plain_store, ()))"
  using sub_millisecond_ttl_lost [of 999999 id lruPolicy_methods 1 "''k''" "Some ''v''" "(plain_store, ())"] by simp

text \<open>
  C14. \<open>connectAndSync\<close>, run on whatever the dial and the master's connection deliver, refines
  the interleaved model: it is a run in which only its own goroutine takes steps, and the
  commands applied in that run are exactly the frames that the connection delivers after
  the master's answer, in their order and at the readings of its clock (none, if the manager
  is closed or the handshake fails). It panics just when the reader does. Otherwise it ends:
  its goroutine is over, and after a successful dial the connection is closed and the link
  reported as down.
\<close>

theorem connectAndSync_refines_steps:
  assumes "sync_at i (Dialing a) nd" and "connectAndSync up P clk i cid d nd = (r, nd')"
    and "delivered (rm_cancelled (rm nd)) d = (vs, p)"
  shows "r = p \<and>
    (\<exists>ls. node_run up P ls nd nd' \<and> list_all (\<lambda>l. sync_of l = Some i) ls \<and> applied ls = timed clk 1 vs) \<and>
    (p = None \<longrightarrow> (case d of
       DialErr e \<Rightarrow> sync_at i Ended nd'
     | Dialed c answer fin \<Rightarrow> sync_at i Ended nd' \<and> cid \<in> closed_conns nd' \<and> \<not> masterLinkUp (rm nd')))"
  using connectAndSync_runs [OF assms] by (cases d) (simp_all add: sync_runs_def sync_cleaned_def)

definition demo_follower :: "(lruPolicy, unit) node" where
  "demo_follower = follow ''m:1'' demo_replica"

lemma demo_psync_flush:
  "fst (Writer_Flush (snd (WriteArray (Some [NewBulkStringFromString ''PSYNC'', NewBulkStringFromString ''?'',
     NewBulkStringFromString ''-1'']) (NewWriter demo_conn)))) = None"
proof -
  let ?v = "Some [NewBulkStringFromString ''PSYNC'', NewBulkStringFromString ''?'', NewBulkStringFromString ''-1'']"
  have "limit demo_conn = None" by (simp add: demo_conn_def)
  then obtain w' where "Writer_Flush (snd (WriteArray ?v (NewWriter demo_conn))) = (None, w')" by (rule psync_flush)
  then show ?thesis by simp
qed

text \<open>An answer and one command, \<open>SET k v\<close>, then the end of the stream.\<close>

theorem connectAndSync_refines_steps_witness:
  "\<exists>nd' ls. connectAndSync id lruPolicy_methods (\<lambda>n. word_of_nat n) 0 7
      (Dialed demo_conn (encode (NewSimpleString fullresync) @ encode (command_of (''SET'', ''k'', Some ''v'', 0))) EOF)
      demo_follower = (None, nd') \<and> node_run id lruPolicy_methods ls demo_follower nd' \<and>
     applied ls = [(1, 2, command_of (''SET'', ''k'', Some ''v'', 0))] \<and> sync_at 0 Ended nd' \<and> 7 \<in> closed_conns nd'"
proof -
  let ?set = "command_of (''SET'', ''k'', Some ''v'', 0)"
  let ?d = "Dialed demo_conn (encode (NewSimpleString fullresync) @ encode ?set) EOF"
  have w: "wire_ok ?set" by (rule command_of_wire_ok) (simp add: notification_ok_def maxAlloc_def)
  have nc: "\<not> rm_cancelled (rm demo_follower)"
    by (simp add: demo_follower_def demo_replica_def node_init_def NewReplicaManager_def)
  have "read_all EOF (encode ?set) = ([?set], None)"
    using ReadValue_encode [OF w, of EOF "[]"] by (simp add: read_all.simps ReadValue.simps)
  then have d: "delivered (rm_cancelled (rm demo_follower)) ?d = ([?set], None)"
    using nc demo_psync_flush unfolding delivered_def dial.case ReadValue_encode [OF fullresync_wire_ok] by simp
  have at: "sync_at 0 (Dialing ''m:1'') demo_follower"
    by (simp add: sync_at_def demo_follower_def demo_replica_def node_init_def)
  obtain r nd' where run: "connectAndSync id lruPolicy_methods (\<lambda>n. word_of_nat n) 0 7 ?d demo_follower = (r, nd')"
    by (metis prod.exhaust)
  from connectAndSync_refines_steps [OF at run d] run show ?thesis by auto
qed

subsection \<open>Roles and failover\<close>

text \<open>
  C13. The role, the followed master and the monitor agree in every reachable state, however
  the goroutines interleave: a master has no monitor and no master address, a replica has
  exactly one current monitor, and it watches the master that the replica follows.
\<close>

theorem role_and_monitor_agree:
  assumes "node_run up P ls (node_init st) nd"
  shows "case monitor (rm nd) of
      None \<Rightarrow> role (rm nd) = RoleMaster \<and> masterAddr (rm nd) = []
    | Some m \<Rightarrow> IsReadOnly (rm nd) \<and> m < length (monitors nd) \<and>
        MasterAddr (fm_cfg (monitors nd ! m)) = masterAddr (rm nd)"
  using role_inv_run [OF assms role_inv_init]
  by (auto simp: role_inv_def IsReadOnly_def DefaultFailoverConfig_def split: option.splits)

lemma demo_follow_run: "node_run id lruPolicy_methods [SlaveOfCmd ''m'' ''1''] demo_replica demo_follower"
  using node_run.run_snoc [OF node_run.run_nil node_step.slave_of [of id lruPolicy_methods "''m''" "''1''" demo_replica]]
  by (simp add: SlaveOf_def demo_follower_def ToUpper_def is_ascii_def upper_ascii_def)

theorem role_and_monitor_agree_witness:
  "monitor (rm demo_follower) = Some 0 \<and> MasterAddr (fm_cfg (monitors demo_follower ! 0)) = ''m:1''"
  using role_and_monitor_agree [OF demo_follow_run [unfolded demo_replica_def]]
  by (simp add: demo_follower_def demo_replica_def node_init_def)

text \<open>
  C11. A replica that promotes itself has just seen its master fail three times in a row:
  whenever a monitor is about to promote the node, its last three checks failed with no
  success between them.
\<close>

theorem failover_needs_three_misses:
  assumes "node_run up P ls (node_init st) nd" and "node_step up P (Promote m) nd nd'"
  shows "misses m ls = 3 \<and> role (rm nd') = RoleMaster"
proof -
  have "monitor_at m Promoting nd" and "nd' = set_pc m Exited (promote nd)"
    using assms(2) by (auto elim: promoteE)
  with miss_inv_run [OF assms(1)] show ?thesis by (auto simp: miss_inv_def monitor_at_def)
qed

lemma demo_waiting: "monitor_at 0 AtSelect demo_follower"
  by (simp add: monitor_at_def demo_follower_def demo_replica_def node_init_def)

theorem failover_needs_three_misses_witness:
  "\<exists>ls nd nd'. node_run id lruPolicy_methods ls demo_replica nd \<and> node_step id lruPolicy_methods (Promote 0) nd nd' \<and>
     misses 0 ls = 3 \<and> role (rm nd') = RoleMaster"
proof -
  let ?ls = "[MonTick 0, Beat 0 (HbErr []) 1, MonTick 0, Beat 0 (HbErr []) 2, MonTick 0, Beat 0 (HbErr []) 3, Trigger 0 4]"
  have "misses 0 [SlaveOfCmd ''m'' ''1''] = 0" by (simp add: misses_def)
  with three_misses_schedule [OF demo_follow_run [unfolded demo_replica_def] demo_waiting, of "[]" 1 "[]" 2 "[]" 3 4]
  obtain nd' where "node_run id lruPolicy_methods (?ls @ [Promote 0]) demo_follower nd'" by auto
  then obtain nd where nd: "node_run id lruPolicy_methods ?ls demo_follower nd"
    and st: "node_step id lruPolicy_methods (Promote 0) nd nd'" using node_run_snocD by blast
  have run: "node_run id lruPolicy_methods ([SlaveOfCmd ''m'' ''1''] @ ?ls) demo_replica nd"
    by (rule node_run_append [OF demo_follow_run nd])
  from failover_needs_three_misses [OF run [unfolded demo_replica_def] st] run st show ?thesis by blast
qed

text \<open>
  Three failed checks in a row promote the replica: from a monitor that waits for its
  tick with no miss counted, three failed rounds lead to a node that is a master and
  accepts writes, and the recorded failover time runs from the first miss to the trigger.
\<close>

theorem three_misses_promote:
  assumes "node_run up P ls (node_init st) nd" and "monitor_at m AtSelect nd" and "misses m ls = 0"
  shows "\<exists>nd'. node_run up P [MonTick m, Beat m (HbErr e1) t1, MonTick m, Beat m (HbErr e2) t2,
      MonTick m, Beat m (HbErr e3) t3, Trigger m t4, Promote m] nd nd' \<and>
    role (rm nd') = RoleMaster \<and> \<not> IsReadOnly (rm nd') \<and>
    LastFailoverDurationMs (monitors nd' ! m) = millis_float (Microseconds (Since t4 t1))"
  using three_misses_schedule [OF assms, of e1 t1 e2 t2 e3 t3 t4] by (auto simp: IsReadOnly_def LastFailoverDurationMs_def)

lemma two_milliseconds: "millis_float (Microseconds (Since 3000000 1000000)) = (2 ^ 52, 51)"
proof -
  have "Since 3000000 1000000 = 2000000" by (simp add: Since_def)
  then have "Microseconds (Since 3000000 1000000) = 2000" by (simp add: Microseconds_def signed_divide_int_def)
  moreover have "ilog2 2 = 1" by (simp add: ilog2.simps)
  ultimately show ?thesis
    by (simp add: millis_float_def float_round_def float_places_def round_half_even_def)
qed

theorem three_misses_promote_witness:
  "\<exists>nd'. node_run id lruPolicy_methods [MonTick 0, Beat 0 (HbErr []) 1000000, MonTick 0, Beat 0 (HbErr []) 2000000,
      MonTick 0, Beat 0 (HbErr []) 3000000, Trigger 0 3000000, Promote 0] demo_follower nd' \<and>
    role (rm nd') = RoleMaster \<and> LastFailoverDurationMs (monitors nd' ! 0) = (2 ^ 52, 51)"
  using three_misses_promote [OF demo_follow_run [unfolded demo_replica_def] demo_waiting, of "[]" 1000000 "[]" 2000000
      "[]" 3000000 3000000]
  by (auto simp: misses_def two_milliseconds)

subsection \<open>Goroutines that outlive their purpose\<close>

text \<open>
  C37. Stopping a monitor does not stop a failover that has begun: if a monitor has counted
  its last miss and the node is then told to follow another master, the old monitor still
  promotes the node, and the new master is forgotten.
\<close>

theorem stale_monitor_overrides_slaveof:
  assumes "monitor_at m Triggering nd" and "ToUpper up host \<noteq> ''NO''"
  shows "\<exists>nd1 nd2. node_step up P (SlaveOfCmd host port) nd nd1 \<and> masterAddr (rm nd1) = host @ '':'' @ port \<and>
    node_run up P [Trigger m t, Promote m] nd1 nd2 \<and> role (rm nd2) = RoleMaster \<and> masterAddr (rm nd2) = []"
proof -
  let ?nd1 = "SlaveOf up host port nd"
  let ?nd2 = "set_pc m Promoting (on_monitor m (record_failover t) ?nd1)"
  let ?nd3 = "set_pc m Exited (SlaveOf up ''NO'' ''ONE'' ?nd2)"
  have nd1: "?nd1 = follow (host @ '':'' @ port) nd" using assms(2) by (simp add: SlaveOf_def)
  then have "monitor_at m Triggering ?nd1" using assms(1) by (simp add: monitor_at_def nth_append)
  then have 1: "node_step up P (Trigger m t) ?nd1 ?nd2" by (rule node_step.trigger)
  have "monitor_at m Promoting ?nd2" using \<open>monitor_at m Triggering ?nd1\<close> by (simp add: monitor_at_def)
  then have 2: "node_step up P (Promote m) ?nd2 ?nd3" by (rule node_step.promote)
  have run: "node_run up P [Trigger m t, Promote m] ?nd1 ?nd3"
    by (rule node_run_Cons [OF 1 node_run_Cons [OF 2 node_run.run_nil]])
  have "node_step up P (SlaveOfCmd host port) nd ?nd1" by (rule node_step.slave_of)
  moreover have "masterAddr (rm ?nd1) = host @ '':'' @ port" by (simp add: nd1)
  moreover have "role (rm ?nd3) = RoleMaster" "masterAddr (rm ?nd3) = []" by simp_all
  ultimately show ?thesis using run by blast
qed

theorem stale_monitor_overrides_slaveof_witness:
  "\<exists>nd1 nd2. node_step id lruPolicy_methods (SlaveOfCmd ''n'' ''2'') (set_pc 0 Triggering demo_follower) nd1 \<and>
     masterAddr (rm nd1) = ''n:2'' \<and> node_run id lruPolicy_methods [Trigger 0 5, Promote 0] nd1 nd2 \<and>
     role (rm nd2) = RoleMaster \<and> masterAddr (rm nd2) = []"
proof -
  have "monitor_at 0 Triggering (set_pc 0 Triggering demo_follower)"
    using demo_waiting by (simp add: monitor_at_def)
  from stale_monitor_overrides_slaveof [OF this, of id "''n''" lruPolicy_methods "''2''" 5] show ?thesis
    by (simp add: ToUpper_def is_ascii_def upper_ascii_def)
qed

text \<open>
  C38. Nor does a promotion stop a synchronisation that is still dialling: while its manager
  is not closed, a node that has become a master by \<open>SLAVEOF NO ONE\<close> takes the connection when the dial succeeds, reports
  the link as up and applies the old master's commands to its own store.
\<close>

theorem stale_sync_applies_commands:
  assumes "sync_at i (Dialing a) nd" and "\<not> rm_cancelled (rm nd)"
  shows "\<exists>nd'. node_run up P [SlaveOfCmd ''NO'' ''ONE'', DialOk i c, Acked i t1, SyncNext i, Command i t2 t3 v] nd nd' \<and>
    role (rm nd') = RoleMaster \<and> masterLinkUp (rm nd') \<and> cache nd' = applyMasterCommand up P t3 v (cache nd)"
proof -
  let ?nd1 = "SlaveOf up ''NO'' ''ONE'' nd"
  let ?nd2 = "sync_dialed i c ?nd1"
  let ?nd3 = "sync_acked i c t1 ?nd2"
  let ?nd4 = "sync_command up P t2 t3 v ?nd3"
  have 1: "node_step up P (SlaveOfCmd ''NO'' ''ONE'') nd ?nd1" by (rule node_step.slave_of)
  have "sync_at i (Dialing a) ?nd1" using assms(1) by (simp add: sync_at_def)
  then have 2: "node_step up P (DialOk i c) ?nd1 ?nd2" by (rule node_step.dial_ok)
  have "sync_at i (Handshake c) ?nd2" using assms by (simp add: sync_at_def sync_dialed_def)
  then have 3: "node_step up P (Acked i t1) ?nd2 ?nd3" by (rule node_step.acked)
  have "sync_at i (Streaming c) ?nd3" "\<not> rm_cancelled (rm ?nd3)"
    using assms by (simp_all add: sync_at_def sync_dialed_def sync_acked_def)
  then have 4: "node_run up P [SyncNext i, Command i t2 t3 v] ?nd3 ?nd4" by (rule sync_round)
  have "node_run up P [SlaveOfCmd ''NO'' ''ONE'', DialOk i c, Acked i t1, SyncNext i, Command i t2 t3 v] nd ?nd4"
    by (intro node_run_Cons [OF 1] node_run_Cons [OF 2] node_run_Cons [OF 3] 4)
  moreover have "role (rm ?nd4) = RoleMaster" "masterLinkUp (rm ?nd4)" "cache ?nd4 = applyMasterCommand up P t3 v (cache nd)"
    by (simp_all add: sync_command_def sync_acked_def sync_dialed_def)
  ultimately show ?thesis by blast
qed

theorem stale_sync_applies_commands_witness:
  "\<exists>nd'. node_run id lruPolicy_methods [SlaveOfCmd ''NO'' ''ONE'', DialOk 0 7, Acked 0 1,
       SyncNext 0, Command 0 2 3 (command_of (''DEL'', ''k'', None, 0))] demo_follower nd' \<and>
     role (rm nd') = RoleMaster \<and> masterLinkUp (rm nd') \<and>
     cache nd' = snd (Store_Delete lruPolicy_methods ''k'' (plain_store, ()))"
proof -
  have "sync_at 0 (Dialing ''m:1'') demo_follower" "\<not> rm_cancelled (rm demo_follower)"
    "cache demo_follower = (plain_store, ())"
    by (simp_all add: sync_at_def demo_follower_def demo_replica_def node_init_def NewReplicaManager_def)
  with stale_sync_applies_commands [OF this(1,2), of id lruPolicy_methods 7 1 2 3 "command_of (''DEL'', ''k'', None, 0)"]
  show ?thesis by (simp add: command_of_def apply_forwarded_delete mutation_args_def)
qed

text \<open>
  Closing the manager does stop its synchronisations, those still dialling included: however
  the goroutines interleave after it, each applies at most the one command that it was
  already reading.
\<close>

theorem closed_manager_applies_at_most_one:
  assumes "node_run up P ls (rm_Close nd) nd'"
  shows "commands i ls \<le> 1"
  using drained_run [OF assms, of i] by (simp add: drained_def)

end
