(* ===== verification/Server_Properties.thy ===== *)
theory Server_Properties
  imports Server_Replies Replication_Properties
begin

text \<open>
  The properties of the server: its commands as a client sees them, what a replica refuses,
  the responses on a connection, and the invariant of the whole process.
\<close>

subsection \<open>A small process for the witnesses\<close>

definition demo_G :: goenv where
  "demo_G = \<lparr>unicode_upper = id, go_version = ''go1.22'', pid = 1\<rparr>"

definition demo_server :: "lruPolicy Server" where
  "demo_server = NewServer '':6379'' 0 (\<lambda>_. demo_conn) demo_base"

definition demo_proc :: "lruPolicy proc" where
  "demo_proc = proc demo_server"

definition demo_handler :: Handler where
  "demo_handler = NewHandler True True 0 (Some 1)"

lemma demo_sys_ok: "sys_ok (sys_init demo_server)"
  unfolding demo_server_def
proof (rule sys_ok_init)
  show "lru_open (demo_base, demo_env)"
    by (rule NewStore_inv [OF demo_base_new]) (simp add: factory_ok_def DefaultConfig_def)
qed (simp add: demo_base_def)

lemma demo_proc_ok: "proc_ok demo_proc"
  using demo_sys_ok by (simp add: sys_ok_def sys_init_def demo_proc_def)

lemma demo_role: "rm (node demo_proc) = NewReplicaManager"
  by (simp add: demo_proc_def demo_server_def NewServer_def NewMasterManager_def node_init_def)

lemma demo_writes: "\<not> refuses_writes demo_handler demo_proc"
  by (simp add: refuses_writes_def demo_role IsReadOnly_def NewReplicaManager_def)

subsection \<open>Commands\<close>

lemma Dispatch_cmd:
  "Dispatch G P clk h (cmd_value (''SET'' # ws)) p = Some (handleSet G P clk h (map NewBulkStringFromString ws) p)"
  "Dispatch G P clk h (cmd_value (''GET'' # ws)) p = Some (handleGet P clk (map NewBulkStringFromString ws) p)"
  "Dispatch G P clk h (cmd_value (''TTL'' # ws)) p = Some (handleTTL P clk (map NewBulkStringFromString ws) p)"
  "Dispatch G P clk h (cmd_value (''PING'' # ws)) p = Some (handlePing (map NewBulkStringFromString ws), p)"
  by (simp_all add: Dispatch_def)

lemma set_options_EX:
  "set_options up (map NewBulkStringFromString [''EX'', FormatInt n]) 0 =
     (if n \<le>s 0 then Inl not_integer_error else Inr (n * Second))"
  by simp

lemma proc_ok_open: "proc_ok p \<Longrightarrow> lru_open (proc_cache p)"
  by (simp add: proc_ok_def st_ok_def)

lemma Store_Set_ok: "lru_open st \<Longrightarrow> fst (Store_Set P k v d now st) = None"
  by (cases st) (simp add: open_store_def store_ops_open Let_def)

text \<open>\<open>SET key value EX n\<close> on a node that accepts writes.\<close>

lemma Dispatch_SET_EX:
  assumes "proc_ok p" and "\<not> refuses_writes h p" and "0 < sint n"
  shows "Dispatch G lruPolicy_methods clk h (cmd_value [''SET'', k, v, ''EX'', FormatInt n]) p =
    Some (NewSimpleString ''OK'', set_cache (snd (Store_Set lruPolicy_methods k (Some v) (n * Second) (clk 0) (proc_cache p))) p)"
  using Store_Set_ok [OF proc_ok_open [OF assms(1)], of lruPolicy_methods k "Some v" "n * Second" "clk 0"] assms(2,3)
  by (cases "Store_Set lruPolicy_methods k (Some v) (n * Second) (clk 0) (proc_cache p)")
    (simp add: Dispatch_cmd handleSet_def signed_simps)

lemma Dispatch_GET:
  "Dispatch G P clk h (cmd_value [''GET'', k]) p =
    Some (case fst (Store_Get P k (clk 0) (proc_cache p)) of None \<Rightarrow> NewNullBulkString | Some b \<Rightarrow> NewBulkString (Some b),
      set_cache (snd (Store_Get P k (clk 0) (proc_cache p))) p)"
  by (cases "Store_Get P k (clk 0) (proc_cache p)") (simp add: Dispatch_cmd handleGet_def split: option.split)

lemma sint64_uint: "sint (x :: 64 word) = (if uint x < 2 ^ 63 then uint x else uint x - 2 ^ 64)"
proof -
  have u: "uint x = sint x mod 2 ^ 64" using uint_sint [of x] by (simp add: take_bit_eq_mod)
  show ?thesis
  proof (cases "0 \<le> sint x")
    case True
    then show ?thesis using u sint64_bounds(2) [of x] by simp
  next
    case False
    then have "(sint x + 2 ^ 64) mod 2 ^ 64 = sint x + 2 ^ 64"
      using sint64_bounds(1) [of x] by (intro mod_pos_pos_trivial) simp_all
    then have "sint x mod 2 ^ 64 = sint x + 2 ^ 64" by (simp only: mod_add_self2)
    then show ?thesis using u False sint64_bounds(1) [of x] by simp
  qed
qed

text \<open>
  C33. The number of seconds of \<open>SET key value EX n\<close> is multiplied by a billion without an
  overflow check. The command is answered with OK for every positive \<open>n\<close>; what counts is the
  product modulo \<open>2^64\<close>, in nanoseconds. If that is 0 or at least \<open>2^63\<close> (a negative number of
  64 bits), the key never expires; otherwise it expires after just that time. The product is
  the right one for \<open>n\<close> below about 9.2 billion only.
\<close>

theorem set_ex_wraps_around:
  assumes "proc_ok p" and "\<not> refuses_writes h p" and "0 < sint n" and "w = sint n * 1000000000 mod 2 ^ 64"
    and "0 < sint now" and "w < 2 ^ 63 \<Longrightarrow> sint now + w < 2 ^ 63"
  shows "\<exists>p1 p2. Dispatch G lruPolicy_methods (\<lambda>_. now) h (cmd_value [''SET'', k, v, ''EX'', FormatInt n]) p =
      Some (NewSimpleString ''OK'', p1) \<and>
    Dispatch G lruPolicy_methods (\<lambda>_. t) h (cmd_value [''GET'', k]) p1 =
      Some (if w = 0 \<or> 2 ^ 63 \<le> w \<or> sint t < sint now + w then NewBulkString (Some v) else NewNullBulkString, p2)"
proof -
  let ?d = "n * Second"
  have "uint n = sint n" using assms(3) sint64_uint [of n] uint_lt2p [of n] by (simp split: if_splits)
  then have "uint ?d = w" using assms(4) by (simp add: uint_word_ariths Second_def)
  then have d: "sint ?d = (if w < 2 ^ 63 then w else w - 2 ^ 64)" using sint64_uint [of ?d] by simp
  have w: "0 \<le> w" "w < 2 ^ 64" by (simp_all add: assms(4))
  then have pos: "0 < sint ?d \<longleftrightarrow> \<not> (w = 0 \<or> 2 ^ 63 \<le> w)" using d by auto
  have ok: "deadline_ok ?d now" using assms(5,6) d w(2) sint64_bounds(2) [of now] by (auto simp: deadline_ok_def split: if_splits)
  note open_st = proc_ok_open [OF assms(1)]
  let ?st = "snd (Store_Set lruPolicy_methods k (Some v) ?d now (proc_cache p))"
  have "fst (Store_Get lruPolicy_methods k t ?st) =
      (if w = 0 \<or> 2 ^ 63 \<le> w \<or> sint t < sint now + w then Some v else None)"
    using lru.store.get_after_set [OF open_st ok, of t k "Some v"]
      lru.store.get_after_deadline [OF open_st ok, of t k "Some v"] d pos by (auto split: if_splits)
  with Dispatch_SET_EX [OF assms(1-3), of G "\<lambda>_. now"] show ?thesis by (simp add: Dispatch_GET)
qed

text \<open>Two numbers of seconds above 290 years: one never expires, the other within 0.3 seconds.\<close>

theorem set_ex_wraps_around_witness:
  "(\<exists>p1 p2. Dispatch demo_G lruPolicy_methods (\<lambda>_. 1) demo_handler
      (cmd_value [''SET'', ''k'', ''v'', ''EX'', FormatInt 9223372037]) demo_proc = Some (NewSimpleString ''OK'', p1) \<and>
    Dispatch demo_G lruPolicy_methods (\<lambda>_. 9000000000000000000) demo_handler (cmd_value [''GET'', ''k'']) p1 =
      Some (NewBulkString (Some ''v''), p2)) \<and>
   (\<exists>p1 p2. Dispatch demo_G lruPolicy_methods (\<lambda>_. 1) demo_handler
      (cmd_value [''SET'', ''k'', ''v'', ''EX'', FormatInt 18446744074]) demo_proc = Some (NewSimpleString ''OK'', p1) \<and>
    Dispatch demo_G lruPolicy_methods (\<lambda>_. 300000000) demo_handler (cmd_value [''GET'', ''k'']) p1 =
      Some (NewNullBulkString, p2))"
  using set_ex_wraps_around [OF demo_proc_ok demo_writes, of 9223372037 9223372037000000000 1 demo_G "''k''" "''v''" 9000000000000000000]
    set_ex_wraps_around [OF demo_proc_ok demo_writes, of 18446744074 290448384 1 demo_G "''k''" "''v''" 300000000]
  by simp

lemma store_view_live: "store_view s t k = Some (v, d) \<Longrightarrow> \<not> passed d t"
  by (auto simp: store_view_def shard_view_def live_def split: option.splits if_splits)

lemma Seconds_int64_bounds:
  assumes "0 < sint d"
  shows "sint d div 1000000000 \<le> sint (Seconds_int64 d)" "sint (Seconds_int64 d) \<le> sint d div 1000000000 + 1"
proof -
  let ?m = "seconds_mag (nat (sint d))"
  have b: "sint d div 1000000000 \<le> int ?m" "int ?m \<le> sint d div 1000000000 + 1"
    using seconds_mag_bounds [of "nat (sint d)"] assms zdiv_int [of "nat (sint d)" 1000000000] by simp_all
  moreover have "sint d div 1000000000 + 1 < 2 ^ 63" using sint64_bounds(2) [of d] by simp
  ultimately have "sint (Seconds_int64 d) = int ?m"
    using assms sint64_of_int [of "int ?m"] by (simp add: Seconds_int64_def)
  with b show "sint d div 1000000000 \<le> sint (Seconds_int64 d)" "sint (Seconds_int64 d) \<le> sint d div 1000000000 + 1"
    by simp_all
qed

text \<open>
  C26. \<open>TTL\<close> answers -2 for an absent key and -1 for a key without expiry; for any other it
  answers a positive number of seconds that is the remaining time rounded down or one more
  (a fraction of a second counts as one, and the conversion goes through floating point).
\<close>

theorem ttl_reply:
  assumes "proc_ok p" and "0 \<le> sint t"
  shows "\<exists>s p'. Dispatch G lruPolicy_methods (\<lambda>_. t) h (cmd_value [''TTL'', k]) p = Some (NewInteger s, p') \<and>
    (case store_view (fst (proc_cache p)) t k of
       None \<Rightarrow> s = - 2
     | Some (v, d) \<Rightarrow>
         if d = 0 then s = - 1
         else 0 < sint s \<and> (sint d - sint t) div 1000000000 \<le> sint s \<and> sint s \<le> (sint d - sint t) div 1000000000 + 1)"
proof -
  let ?r = "Store_TTL lruPolicy_methods k t (proc_cache p)"
  note res = lru.store.ttl_result [OF proc_ok_open [OF assms(1)], of k t]
  have disp: "Dispatch G lruPolicy_methods (\<lambda>_. t) h (cmd_value [''TTL'', k]) p =
      Some (handleTTL lruPolicy_methods (\<lambda>_. t) [NewBulkStringFromString k] p)" by (simp add: Dispatch_cmd)
  obtain l f st where r: "?r = ((l, f), st)" by (metis prod.exhaust)
  show ?thesis
  proof (cases "store_view (fst (proc_cache p)) t k")
    case None
    with res r show ?thesis unfolding disp by (auto simp: handleTTL_def Let_def)
  next
    case (Some vd)
    obtain v d where vd: "vd = (v, d)" by fastforce
    with Some res r have l: "l = remaining d t" "f" by auto
    show ?thesis
    proof (cases "d = 0")
      case True
      with l r Some vd show ?thesis unfolding disp by (auto simp: handleTTL_def Let_def remaining_def)
    next
      case False
      then have lt: "sint t < sint d"
        using store_view_live [of "fst (proc_cache p)" t k v d] Some vd by (simp add: passed_def signed_simps)
      then have sl: "sint l = sint d - sint t"
        using False l assms(2) sint64_bounds(2) [of d] by (simp add: remaining_def signed_simps sint64_diff)
      with lt have "l \<noteq> - 2" "l \<noteq> - 1" "0 <s l" by (auto simp: signed_simps)
      moreover note Seconds_int64_bounds [of l]
      moreover have "sint (Seconds_int64 l) = 0 \<longleftrightarrow> Seconds_int64 l = 0" by (simp add: sint64_0_iff)
      moreover have "0 \<le> sint l div 1000000000" using sl lt by simp
      ultimately show ?thesis
        using l r Some vd False sl lt unfolding disp
        by (auto simp: handleTTL_def Let_def pos_imp_zdiv_nonneg_iff)
    qed
  qed
qed

theorem ttl_reply_witness:
  "\<exists>p'. Dispatch demo_G lruPolicy_methods (\<lambda>_. 5) demo_handler (cmd_value [''TTL'', ''none'']) demo_proc =
     Some (NewInteger (- 2), p')"
proof -
  have "proc_cache demo_proc = (OnWrite handleStoreWrite demo_base, snd (proc_cache demo_proc))"
    by (simp add: demo_proc_def demo_server_def NewServer_def NewMasterManager_def node_init_def)
  then have "store_view (fst (proc_cache demo_proc)) 5 ''none'' = None"
    using NewStore_view [OF demo_base_new, of 5] by (metis OnWrite_frame(2) fst_conv)
  with ttl_reply [OF demo_proc_ok, of 5 demo_G demo_handler "''none''"] show ?thesis by auto
qed

text \<open>
  C17. A replica refuses every direct write: \<open>SET\<close>, \<open>DEL\<close> and \<open>EXPIRE\<close>, with any
  arguments, are answered with the READONLY error and change nothing.
\<close>

theorem replica_refuses_writes:
  assumes "has_repl h" and "IsReadOnly (rm (node p))" and "Type cmd = TypeArray" and "elems (Array cmd) = name # args"
    and "ToUpper (unicode_upper G) (h_extractString name) \<in> {''SET'', ''DEL'', ''EXPIRE''}"
  shows "Dispatch G P clk h cmd p = Some (readonly_error, p)"
proof -
  have "refuses_writes h p" using assms(1,2) by (simp add: refuses_writes_def)
  with assms(3-5) show ?thesis by (auto simp: Dispatch_def handleSet_def handleDel_def handleExpire_def)
qed

definition demo_replica_proc :: "lruPolicy proc" where
  "demo_replica_proc = demo_proc\<lparr>node := follow ''m:1'' (node demo_proc)\<rparr>"

theorem replica_refuses_writes_witness:
  "Dispatch demo_G lruPolicy_methods (\<lambda>_. 1) demo_handler (cmd_value [''set'', ''k'', ''v'']) demo_replica_proc =
     Some (readonly_error, demo_replica_proc)"
proof (rule replica_refuses_writes)
  show "elems (Array (cmd_value [''set'', ''k'', ''v''])) =
      NewBulkStringFromString ''set'' # map NewBulkStringFromString [''k'', ''v'']" by simp
  show "ToUpper (unicode_upper demo_G) (h_extractString (NewBulkStringFromString ''set'')) \<in> {''SET'', ''DEL'', ''EXPIRE''}"
    by (simp add: ToUpper_def is_ascii_def upper_ascii_def) code_simp
qed (simp_all add: demo_handler_def NewHandler_def demo_replica_proc_def IsReadOnly_def)

text \<open>
  C18. An error response means that nothing happened: whatever the command, if the response
  is an error, the process (store, listeners, roles, goroutines) is exactly as before.
\<close>

theorem error_reply_changes_nothing:
  assumes "Dispatch G P clk h cmd p = Some (v, p')" and "Type v = TypeError"
  shows "p' = p"
  by (rule Dispatch_error [OF assms])

theorem error_reply_changes_nothing_witness:
  "\<exists>p'. Dispatch demo_G lruPolicy_methods (\<lambda>_. 1) demo_handler (cmd_value [''SET'', ''k'']) demo_proc =
     Some (wrong_args ''set'', p') \<and> p' = demo_proc"
proof -
  obtain p' where "Dispatch demo_G lruPolicy_methods (\<lambda>_. 1) demo_handler (cmd_value [''SET'', ''k'']) demo_proc =
      Some (wrong_args ''set'', p')"
    using demo_writes by (simp add: Dispatch_cmd handleSet_def)
  with error_reply_changes_nothing [OF this] show ?thesis by (simp add: wrong_args_def)
qed

subsection \<open>Connections\<close>

text \<open>
  C10. A client gets one response for each command it sends, in order: on a connection that
  does not fail and does not belong to a replica, the server answers a pipeline of
  commands with the encodings of exactly the responses of \<open>Dispatch\<close>, and then ends
  without a panic.
\<close>

theorem pipeline_answered_in_order:
  assumes "list_all wire_ok cmds" and "has_repl h" and "client_conn c p" and "\<And>n. \<not> stop n"
  shows "\<exists>rs p'. conn_loop G P clk stop 0 h c EOF (concat (map encode cmds)) (NewWriter (net (snd (proc_cache p)) c)) p =
      (None, p') \<and> answered G P clk h c 0 cmds p rs p' \<and> length rs = length cmds \<and>
    wire (net (snd (proc_cache p')) c) = wire (net (snd (proc_cache p)) c) @ concat (map encode rs)"
proof -
  let ?w = "NewWriter (net (snd (proc_cache p)) c)"
  obtain rs p' where "conn_loop G P clk stop 0 h c EOF (concat (map encode cmds)) ?w p = (None, p')"
    "answered G P clk h c 0 cmds p rs p'"
    "wire (net (snd (proc_cache p')) c) = wire (net (snd (proc_cache p)) c) @ concat (map encode rs)"
    using conn_loop_answers [of cmds h stop c p ?w G P clk 0] assms by auto
  with answered_length show ?thesis by blast
qed

lemma demo_client: "client_conn 1 demo_proc"
  by (simp add: client_conn_def demo_proc_def demo_server_def NewServer_def NewMasterManager_def node_init_def
      demo_conn_def demo_base_def)

lemma demo_has_repl: "has_repl demo_handler"
  by (simp add: demo_handler_def NewHandler_def)

theorem pipeline_answered_in_order_witness:
  "\<exists>rs p'. conn_loop demo_G lruPolicy_methods (\<lambda>_ _. 1) (\<lambda>_. False) 0 demo_handler 1 EOF
      (encode (cmd_value [''PING'']) @ encode (cmd_value [''GET'', ''k''])) (NewWriter (net (snd (proc_cache demo_proc)) 1)) demo_proc =
      (None, p') \<and> length rs = Suc (Suc 0) \<and>
    wire (net (snd (proc_cache p')) 1) = wire (net (snd (proc_cache demo_proc)) 1) @ concat (map encode rs)"
proof -
  have "list_all wire_ok [cmd_value [''PING''], cmd_value [''GET'', ''k'']]"
    by (simp add: cmd_value_def wire_ok_New wire_ok_FromString sizeof_Value_def maxAlloc_def)
  from pipeline_answered_in_order [OF this demo_has_repl demo_client, of "\<lambda>_. False" demo_G lruPolicy_methods "\<lambda>_ _. 1"]
  show ?thesis by auto
qed

text \<open>
  A live server passes the failover monitor's check: what it answers to the monitor's
  \<open>PING\<close> is accepted as a heartbeat, whatever else is on the stream.
\<close>

theorem live_server_passes_heartbeat:
  assumes "limit c = None"
  shows "\<exists>r. Dispatch G P clk h (NewArray (Some [NewBulkStringFromString ''PING''])) p = Some (r, p) \<and>
    checkHeartbeat (Dialed c (encode r @ rest) fin) = HbOk"
proof -
  have d: "Dispatch G P clk h (NewArray (Some [NewBulkStringFromString ''PING''])) p = Some (NewSimpleString ''PONG'', p)"
    using Dispatch_cmd(4) [of G P clk h "[]" p] by (simp add: cmd_value_def handlePing_def)
  obtain w where w: "WriteArray (Some [NewBulkStringFromString ''PING'']) (NewWriter c) = (None, w)"
    "appended (encode_array (Some [NewBulkStringFromString ''PING''])) (NewWriter c) w" "limit (wr w) = None"
    using writes_unlimited [OF writes_WriteValue(2) [of "Some [NewBulkStringFromString ''PING'']"], of "NewWriter c"]
      assms NewWriter_simps by metis
  have "err w = None" using w(2) by (simp add: appended_def)
  then obtain w' where fl: "Writer_Flush w = (None, w')"
    using writes_unlimited [OF writes_Flush _ w(3)] by (auto simp: Writer_Flush_def)
  have rd: "ReadValue fin (encode (NewSimpleString ''PONG'') @ rest) = Got (NewSimpleString ''PONG'') rest"
    by (rule ReadValue_encode) (simp add: wire_ok_New LF_def)
  have "checkHeartbeat (Dialed c (encode (NewSimpleString ''PONG'') @ rest) fin) = HbOk"
    unfolding checkHeartbeat_def dial.case w(1) prod.case option.case fl rd read.case by simp
  with d show ?thesis by blast
qed

theorem live_server_passes_heartbeat_witness:
  "\<exists>r. Dispatch demo_G lruPolicy_methods (\<lambda>_. 1) demo_handler (NewArray (Some [NewBulkStringFromString ''PING''])) demo_proc =
       Some (r, demo_proc) \<and> checkHeartbeat (Dialed demo_conn (encode r @ ''x'') EOF) = HbOk"
  by (rule live_server_passes_heartbeat) (simp add: demo_conn_def)

text \<open>
  C40. The name of an unknown command is echoed unchecked: a command whose upper-cased name
  holds a line break is answered with bytes that the client parses as an error followed by
  a second response of the sender's choice.
\<close>

theorem unknown_command_forges_reply:
  assumes "list_all is_ascii s" and "map upper_ascii s = a @ crlf @ b" and "LF \<notin> set a"
  shows "\<exists>r. Dispatch G P clk h (cmd_value [s]) p = Some (r, p) \<and>
    ReadValue fin (encode r @ rest) = Got (NewError (''ERR unknown command '' @ [CHR 0x27] @ a)) (b @ [CHR 0x27] @ crlf @ rest)"
proof -
  have up: "ToUpper (unicode_upper G) s = a @ crlf @ b" using assms(1,2) by (simp add: ToUpper_def)
  have ne: "a @ crlf @ b \<noteq> x" if "LF \<notin> set x" for x using that by (auto simp: crlf_CR_LF)
  have "Dispatch G P clk h (cmd_value [s]) p = Some (NewError (''ERR unknown command '' @ quoted (a @ crlf @ b)), p)"
    by (simp add: Dispatch_def Let_def up ne LF_def)
  moreover have "LF \<notin> set (''ERR unknown command '' @ [CHR 0x27] @ a)" using assms(3) by (simp add: LF_def)
  from readLine_crlf [OF this, of fin "b @ [CHR 0x27] @ crlf @ rest"]
  have "ReadValue fin (encode (NewError (''ERR unknown command '' @ quoted (a @ crlf @ b))) @ rest) =
      Got (NewError (''ERR unknown command '' @ [CHR 0x27] @ a)) (b @ [CHR 0x27] @ crlf @ rest)"
    by (simp add: encode_New ReadValue_Cons quoted_def)
  ultimately show ?thesis by blast
qed

theorem unknown_command_forges_reply_witness:
  "\<exists>r. Dispatch demo_G lruPolicy_methods (\<lambda>_. 1) demo_handler (cmd_value [''X'' @ crlf @ ''+OK'' @ crlf]) demo_proc = Some (r, demo_proc) \<and>
    ReadValue EOF (encode r @ []) = Got (NewError (''ERR unknown command '' @ [CHR 0x27] @ ''X'')) ((''+OK'' @ crlf) @ [CHR 0x27] @ crlf @ [])"
  by (rule unknown_command_forges_reply) (simp_all add: is_ascii_def upper_ascii_def crlf_def LF_def)

subsection \<open>The whole process\<close>

text \<open>
  C2. However client connections, replica registrations, replication goroutines, failover
  monitors and the sweeper interleave, from a new server on: the store keeps its
  invariant (every shard's policy tracks exactly its keys, within its capacity, every key
  in its own shard), the role agrees with the monitor, each connection has at most one
  replica writer, and \<open>ActiveConns\<close> and the wait group that \<open>Close\<close> waits for count the
  open connections.
\<close>

theorem process_invariant:
  assumes "NewStore cfg0 hash = Inr st" and "factory_ok lru_inv (\<lambda>p. set (lru_keys p)) cfg0"
    and "sys_reach G lruPolicy_methods (sys_init (NewServer a now conns st)) y"
  shows "lru_open (sys_cache y) \<and> role_inv (node (proc (srv y))) \<and>
    wf_map (replicas (mgr (snd (sys_cache y)))) \<and> finite (dom (sessions y)) \<and>
    ActiveConns (srv y) = word_of_nat (card (dom (sessions y))) \<and> wg (srv y) = int (card (dom (sessions y)))"
proof -
  have "onWriteHooks st = []" using assms(1) by (auto simp: NewStore_def Let_def split: if_splits)
  then have "sys_ok (sys_init (NewServer a now conns st))"
    by (intro sys_ok_init [OF NewStore_inv [OF assms(1,2)]])
  from sys_ok_reach [OF assms(3) this] show ?thesis
    by (simp add: sys_ok_def proc_ok_def st_ok_def ActiveConns_def)
qed

theorem process_invariant_witness:
  "\<exists>y. sys_reach demo_G lruPolicy_methods (sys_init (NewServer '':6379'' 0 (\<lambda>_. demo_conn) demo_base)) y \<and>
     ActiveConns (srv y) = 1 \<and> lru_open (sys_cache y)"
proof -
  let ?y0 = "sys_init (NewServer '':6379'' 0 (\<lambda>_. demo_conn) demo_base)"
  obtain y where st: "sys_step demo_G lruPolicy_methods ?y0 y" and dom: "dom (sessions y) = {1}"
  proof
    have "closed_conns (node (proc (srv ?y0))) = {}"
      by (simp add: sys_init_def NewServer_def NewMasterManager_def node_init_def)
    then show "sys_step demo_G lruPolicy_methods ?y0 (?y0\<lparr>srv := conn_opened (srv ?y0),
        sessions := (sessions ?y0)(1 \<mapsto> \<lparr>input = [], input_end = EOF, writer = NewWriter (net (snd (sys_cache ?y0)) 1)\<rparr>)\<rparr>)"
      by (intro sys_step.accept) (simp_all add: sys_init_def)
  qed (simp add: sys_init_def)
  have r: "sys_reach demo_G lruPolicy_methods ?y0 y" by (rule reach_step [OF reach_refl st])
  have f: "factory_ok lru_inv (\<lambda>p. set (lru_keys p)) (DefaultConfig\<lparr>ShardCount := 2\<rparr>)"
    by (simp add: factory_ok_def DefaultConfig_def)
  from process_invariant [OF demo_base_new f r] r dom show ?thesis by auto
qed

end
