(* ===== verification/Cluster_Properties.thy ===== *)
theory Cluster_Properties
  imports Server_Properties
begin

text \<open>
  Properties that span two nodes or the failover of one: a client's write on the master
  read back on a replica through the wire, and the first write that a promoted replica
  accepts.
\<close>

subsection \<open>From a client of the master to a client of the replica\<close>

lemma trunc_ms_seconds:
  assumes "0 < sint n" and "sint n * 1000000000 < 2 ^ 63"
  shows "trunc_ms (n * Second) = n * Second"
proof -
  have d: "sint (n * Second) = sint n * 1000000000"
    using assms sint64_mult [of n Second] by (simp add: Second_def)
  then have "sint (n * Second) div 1000000 * 1000000 = sint (n * Second)" by simp
  with d assms(1) sint_trunc_ms [of "n * Second"] show ?thesis by (simp add: sint64_eq_iff)
qed

lemma proc_ok_hooked: "proc_ok p \<Longrightarrow> hooked (fst (proc_cache p))" "proc_ok p \<Longrightarrow> \<not> closed (fst (proc_cache p))"
  by (simp_all add: proc_ok_def st_ok_def open_store_def)

text \<open>What a replica's stream holds after \<open>SET key value EX n\<close> on the master, and what it does.\<close>

lemma forwarded_set_applied:
  assumes "proc_ok p" and "healthy c (snd (proc_cache p))" and "length k \<le> maxAlloc" and "length v \<le> maxAlloc"
    and "0 < sint n" and "sint n * 1000000000 < 2 ^ 63" and "\<not> rm_cancelled (rm nd)"
    and "st1 = snd (Store_Set lruPolicy_methods k (Some v) (n * Second) now (proc_cache p))"
    and "new = drop (length (wire (net (snd (proc_cache p)) c))) (wire (net (snd st1) c))"
  obtains cmd where "sync_stream up lruPolicy_methods clk i EOF new nd = (None, sync_command up lruPolicy_methods (clk i) (clk (i + 1)) cmd nd)"
    "\<And>st. applyMasterCommand up lruPolicy_methods (clk (i + 1)) cmd st =
      snd (Store_Set lruPolicy_methods k (Some v) (n * Second) (clk (i + 1)) st)"
proof -
  let ?x = "OpSet k (Some v) (n * Second)" and ?n = "(''SET'', k, Some v, n * Second)"
  have ok: "notification_ok ?n" using assms(3,4) by (simp add: notification_ok_def)
  have "wire (net (snd st1) c) = wire (net (snd (proc_cache p)) c) @ encode (command_of ?n)"
    using store_apply_stream [OF proc_ok_hooked [OF assms(1)] assms(2), of lruPolicy_methods now ?x] ok
    by (simp add: assms(8))
  then have "new = encode (command_of ?n)" by (simp add: assms(9))
  then have "sync_stream up lruPolicy_methods clk i EOF new nd =
      (None, sync_command up lruPolicy_methods (clk i) (clk (i + 1)) (command_of ?n) nd)"
    using sync_stream_one [OF assms(7) command_of_wire_ok [OF ok]] by simp
  moreover have "applyMasterCommand up lruPolicy_methods (clk (i + 1)) (command_of ?n) st =
      snd (Store_Set lruPolicy_methods k (Some v) (n * Second) (clk (i + 1)) st)" for st
    using apply_notification [of ?x up lruPolicy_methods "clk (i + 1)" st] trunc_ms_seconds [OF assms(5,6)] by (simp add: is_write_def)
  ultimately show ?thesis by (rule that)
qed

text \<open>
  C9. A client's write reaches the clients of a replica: after \<open>SET key value EX n\<close> on the
  master was answered with OK, and the replica has read what the master's manager put on
  its connection, \<open>GET key\<close> on the replica returns the value until \<open>n\<close> seconds after the
  replica applied it and nil afterwards, while the replica still refuses direct writes.
\<close>

theorem client_write_reaches_replica:
  assumes "proc_ok p" and "\<not> refuses_writes h p" and "healthy c (snd (proc_cache p))"
    and "length k \<le> maxAlloc" and "length v \<le> maxAlloc"
    and "0 < sint n" and "0 < sint now'" and "sint now' + sint n * 1000000000 < 2 ^ 63"
    and "proc_ok q" and "has_repl h'" and "IsReadOnly (rm (node q))" and "\<not> rm_cancelled (rm (node q))"
  shows "\<exists>p1 q1 q2. Dispatch G lruPolicy_methods (\<lambda>_. now) h (cmd_value [''SET'', k, v, ''EX'', FormatInt n]) p =
      Some (NewSimpleString ''OK'', p1) \<and>
    q1 = q\<lparr>node := snd (sync_stream (unicode_upper G') lruPolicy_methods (\<lambda>_. now') 0 EOF
      (drop (length (wire (net (snd (proc_cache p)) c))) (wire (net (snd (proc_cache p1)) c))) (node q))\<rparr> \<and>
    Dispatch G' lruPolicy_methods (\<lambda>_. t) h' (cmd_value [''GET'', k]) q1 =
      Some (if sint t < sint now' + sint n * 1000000000 then NewBulkString (Some v) else NewNullBulkString, q2) \<and>
    Dispatch G' lruPolicy_methods clk h' (cmd_value (''SET'' # ws)) q1 = Some (readonly_error, q1)"
proof -
  let ?st1 = "snd (Store_Set lruPolicy_methods k (Some v) (n * Second) now (proc_cache p))"
  let ?new = "drop (length (wire (net (snd (proc_cache p)) c))) (wire (net (snd ?st1) c))"
  have n: "sint n * 1000000000 < 2 ^ 63" using assms(7,8) by simp
  obtain cmd where run: "sync_stream (unicode_upper G') lruPolicy_methods (\<lambda>_. now') 0 EOF ?new (node q) =
      (None, sync_command (unicode_upper G') lruPolicy_methods now' now' cmd (node q))"
    and cmd: "\<And>st :: (lruPolicy, env) Store \<times> env. applyMasterCommand (unicode_upper G') lruPolicy_methods now' cmd st =
      snd (Store_Set lruPolicy_methods k (Some v) (n * Second) now' st)"
    using forwarded_set_applied [OF assms(1,3-6) n assms(12) refl refl, of "unicode_upper G'" "\<lambda>_. now'" 0 now] by auto
  have d: "sint (n * Second) = sint n * 1000000000"
    using assms(6) n sint64_mult [of n Second] by (simp add: Second_def)
  then have ok: "deadline_ok (n * Second) now'" using assms(7,8) by (simp add: deadline_ok_def)
  let ?q1 = "q\<lparr>node := sync_command (unicode_upper G') lruPolicy_methods now' now' cmd (node q)\<rparr>"
  note open_q = proc_ok_open [OF assms(9)]
  have "fst (Store_Get lruPolicy_methods k t (proc_cache ?q1)) =
      (if sint t < sint now' + sint n * 1000000000 then Some v else None)"
    using lru.store.get_after_set [OF open_q ok, of t k "Some v"]
      lru.store.get_after_deadline [OF open_q ok, of t k "Some v"] d assms(6) by (simp add: cmd)
  moreover have "IsReadOnly (rm (node ?q1))" using assms(11) by (simp add: sync_command_def IsReadOnly_def)
  then have "Dispatch G' lruPolicy_methods clk h' (cmd_value (''SET'' # ws)) ?q1 = Some (readonly_error, ?q1)"
    using assms(10) by (simp add: Dispatch_cmd handleSet_def refuses_writes_def)
  ultimately show ?thesis
    using Dispatch_SET_EX [OF assms(1,2,6), of G "\<lambda>_. now" k v] run by (simp add: Dispatch_GET)
qed

text \<open>A small master that serves one replica, and that replica.\<close>

definition demo_serving :: "lruPolicy proc" where
  "demo_serving = set_cache (demo_master, demo_env) demo_proc"

lemma demo_serving_ok: "proc_ok demo_serving" "\<not> refuses_writes demo_handler demo_serving"
  "healthy 7 (snd (proc_cache demo_serving))"
proof -
  have "st_ok (demo_master, demo_env)"
    using demo_master_lossless demo_healthy by (simp add: st_ok_def open_lossless_def healthy_def)
  then show "proc_ok demo_serving" unfolding demo_serving_def by (rule proc_ok_set_cache [OF demo_proc_ok])
  show "\<not> refuses_writes demo_handler demo_serving" using demo_writes by (simp add: demo_serving_def refuses_writes_def)
  show "healthy 7 (snd (proc_cache demo_serving))" using demo_healthy by (simp add: demo_serving_def)
qed

definition demo_slave :: "lruPolicy proc" where
  "demo_slave = demo_proc\<lparr>node := follow ''m:1'' (node demo_proc)\<rparr>"

lemma demo_slave_ok: "proc_ok demo_slave" "IsReadOnly (rm (node demo_slave))" "\<not> rm_cancelled (rm (node demo_slave))"
  using demo_proc_ok role_inv_follow [of "node demo_proc" "''m:1''"]
  by (simp_all add: demo_slave_def proc_ok_def IsReadOnly_def)
    (simp add: follow_def Let_def fm_Start_def demo_role NewReplicaManager_def)

theorem client_write_reaches_replica_witness:
  "\<exists>p1 q1 q2. Dispatch demo_G lruPolicy_methods (\<lambda>_. 1) demo_handler (cmd_value [''SET'', ''k'', ''v'', ''EX'', FormatInt 60]) demo_serving =
      Some (NewSimpleString ''OK'', p1) \<and>
    q1 = demo_slave\<lparr>node := snd (sync_stream id lruPolicy_methods (\<lambda>_. 2) 0 EOF
      (drop (length (wire (net (snd (proc_cache demo_serving)) 7))) (wire (net (snd (proc_cache p1)) 7))) (node demo_slave))\<rparr> \<and>
    Dispatch demo_G lruPolicy_methods (\<lambda>_. 3) demo_handler (cmd_value [''GET'', ''k'']) q1 = Some (NewBulkString (Some ''v''), q2)"
  using client_write_reaches_replica [OF demo_serving_ok(1,2,3) _ _ _ _ _ demo_slave_ok(1) demo_has_repl demo_slave_ok(2,3),
      of "''k''" "''v''" 60 2 demo_G 1 demo_G 3 "\<lambda>_. 0" "[]"]
  by (auto simp: maxAlloc_def demo_G_def)

subsection \<open>The first write after a failover\<close>

lemma node_run_st_ok:
  "node_run up lruPolicy_methods ls nd nd' \<Longrightarrow> st_ok (cache nd) \<Longrightarrow> st_ok (cache nd')"
  by (induction rule: node_run.induct) (auto intro: node_step_st_ok)

lemma Dispatch_SET:
  assumes "proc_ok p" and "\<not> refuses_writes h p"
  shows "Dispatch G lruPolicy_methods clk h (cmd_value [''SET'', k, v]) p =
    Some (NewSimpleString ''OK'', set_cache (snd (Store_Set lruPolicy_methods k (Some v) 0 (clk 0) (proc_cache p))) p)"
  using Store_Set_ok [OF proc_ok_open [OF assms(1)], of lruPolicy_methods k "Some v" 0 "clk 0"] assms(2)
  by (cases "Store_Set lruPolicy_methods k (Some v) 0 (clk 0) (proc_cache p)")
    (simp add: Dispatch_cmd handleSet_def)

text \<open>
  C12. Recovery from a failed master: when a monitor that waits for its tick, with no miss
  counted, sees three checks in a row fail, the node becomes a master, the failover time it
  reports runs from the first miss to the trigger, and the next \<open>SET\<close> of a client is
  answered with OK and can be read back.
\<close>

theorem failover_restores_writes:
  assumes "node_run up lruPolicy_methods ls (node_init st) nd" and "st_ok st"
    and "monitor_at m AtSelect nd" and "misses m ls = 0"
  shows "\<exists>nd' p1 p2. node_run up lruPolicy_methods [MonTick m, Beat m (HbErr e1) t1, MonTick m, Beat m (HbErr e2) t2,
      MonTick m, Beat m (HbErr e3) t3, Trigger m t4, Promote m] nd nd' \<and>
    LastFailoverDurationMs (monitors nd' ! m) = millis_float (Microseconds (Since t4 t1)) \<and>
    Dispatch G lruPolicy_methods (\<lambda>_. t5) h (cmd_value [''SET'', k, v]) \<lparr>node = nd', registering = cs\<rparr> =
      Some (NewSimpleString ''OK'', p1) \<and>
    Dispatch G lruPolicy_methods (\<lambda>_. t6) h (cmd_value [''GET'', k]) p1 = Some (NewBulkString (Some v), p2)"
proof -
  obtain nd' where run: "node_run up lruPolicy_methods [MonTick m, Beat m (HbErr e1) t1, MonTick m, Beat m (HbErr e2) t2,
      MonTick m, Beat m (HbErr e3) t3, Trigger m t4, Promote m] nd nd'"
    and nd': "role (rm nd') = RoleMaster" "lastFailoverMs (monitors nd' ! m) = millis_float (Microseconds (Since t4 t1))"
    using three_misses_schedule [OF assms(1,3,4)] by blast
  let ?p = "\<lparr>node = nd', registering = cs\<rparr>"
  have all: "node_run up lruPolicy_methods (ls @ [MonTick m, Beat m (HbErr e1) t1, MonTick m, Beat m (HbErr e2) t2,
      MonTick m, Beat m (HbErr e3) t3, Trigger m t4, Promote m]) (node_init st) nd'"
    by (rule node_run_append [OF assms(1) run])
  have "st_ok (cache nd')" using node_run_st_ok [OF all] assms(2) by (simp add: node_init_def)
  moreover have "role_inv nd'" using role_inv_run [OF all role_inv_init] .
  ultimately have ok: "proc_ok ?p" by (simp add: proc_ok_def)
  have w: "\<not> refuses_writes h ?p" using nd'(1) by (simp add: refuses_writes_def IsReadOnly_def)
  have "fst (Store_Get lruPolicy_methods k t6
      (snd (Store_Set lruPolicy_methods k (Some v) 0 t5 (cache nd')))) = Some v"
    using proc_ok_open [OF ok] by (simp add: lru.store.get_result lru.store.view_set deadline_def)
  with Dispatch_SET [OF ok w, of G "\<lambda>_. t5" k v] run nd'(2) show ?thesis
    by (auto simp: Dispatch_GET LastFailoverDurationMs_def)
qed

theorem failover_restores_writes_witness:
  "\<exists>nd' p1 p2. node_run id lruPolicy_methods [MonTick 0, Beat 0 (HbErr []) 1000000, MonTick 0, Beat 0 (HbErr []) 2000000,
      MonTick 0, Beat 0 (HbErr []) 3000000, Trigger 0 3000000, Promote 0] (node demo_slave) nd' \<and>
    LastFailoverDurationMs (monitors nd' ! 0) = (2 ^ 52, 51) \<and>
    Dispatch demo_G lruPolicy_methods (\<lambda>_. 4000000) demo_handler (cmd_value [''SET'', ''k'', ''v'']) \<lparr>node = nd', registering = []\<rparr> =
      Some (NewSimpleString ''OK'', p1) \<and>
    Dispatch demo_G lruPolicy_methods (\<lambda>_. 5000000) demo_handler (cmd_value [''GET'', ''k'']) p1 = Some (NewBulkString (Some ''v''), p2)"
proof -
  have init: "node demo_proc = node_init (proc_cache demo_proc)"
    by (simp add: demo_proc_def demo_server_def NewServer_def NewMasterManager_def node_init_def)
  have run: "node_run id lruPolicy_methods [SlaveOfCmd ''m'' ''1''] (node_init (proc_cache demo_proc)) (node demo_slave)"
    using node_run.run_snoc [OF node_run.run_nil node_step.slave_of [of id lruPolicy_methods "''m''" "''1''" "node demo_proc"]]
    unfolding demo_slave_def by (simp add: SlaveOf_def ToUpper_def is_ascii_def upper_ascii_def flip: init)
  have at: "monitor_at 0 AtSelect (node demo_slave)"
    using arg_cong [OF init, of loops] by (simp add: monitor_at_def demo_slave_def node_init_def)
  have ok: "st_ok (proc_cache demo_proc)" using demo_proc_ok by (simp add: proc_ok_def)
  from failover_restores_writes [OF run ok at, of "[]" 1000000 "[]" 2000000 "[]" 3000000 3000000 demo_G 4000000 demo_handler
      "''k''" "''v''" "[]" 5000000]
  show ?thesis by (simp add: misses_def two_milliseconds)
qed

end
