(* ===== verification/Broadcast_Race.thy ===== *)
theory Broadcast_Race
  imports Replication_Properties
begin

text \<open>
  Two broadcasts at the same time. \<open>handleStoreWrite\<close> holds only the read lock of the
  replica map while it uses the replicas' writers, so the goroutines of two clients may
  write to the same \<open>bufio.Writer\<close>. Here the methods of the RESP writer
  (\<open>internal/resp/writer.go\<close>) are split into the calls they make on the buffered writer, and
  the calls of two broadcasts (\<open>internal/replication/master.go\<close>) are interleaved. Each call is
  taken as one step; the unsynchronised accesses inside a call can only add to the harm.
\<close>

subsection \<open>The calls on the buffered writer\<close>

datatype prim = WByte byte | WString string | WBytes bytes | WFlush

fun exec :: "prim \<Rightarrow> write_op" where
  "exec (WByte c) = bufio_WriteByte c"
| "exec (WString s) = bufio_WriteString s"
| "exec (WBytes b) = bufio_Write b"
| "exec WFlush = Writer_Flush"

fun prim_bytes :: "prim \<Rightarrow> bytes" where
  "prim_bytes (WByte c) = [c]"
| "prim_bytes (WString s) = s"
| "prim_bytes (WBytes b) = b"
| "prim_bytes WFlush = []"

fun run_prims :: "prim list \<Rightarrow> write_op" where
  "run_prims [] = (\<lambda>w. (None, w))"
| "run_prims (p # ps) = and_then (exec p) (run_prims ps)"

fun value_prims :: "Value \<Rightarrow> prim list" and array_prims :: "Value slice \<Rightarrow> prim list" where
  "value_prims (MkValue ty str num bulk arr nil) =
     (if ty = TypeSimpleString then [WByte TypeSimpleString, WString str, WBytes crlf]
      else if ty = TypeError then [WByte TypeError, WString str, WBytes crlf]
      else if ty = TypeInteger then [WByte TypeInteger, WString (FormatInt num), WBytes crlf]
      else if ty = TypeBulkString then
        (case bulk of
           Some bs \<Rightarrow> if nil then [WString (''$-1'' @ crlf)]
             else [WByte TypeBulkString, WString (Itoa (length bs)), WBytes crlf, WBytes bs, WBytes crlf]
         | None \<Rightarrow> [WString (''$-1'' @ crlf)])
      else if ty = TypeArray then (if nil then [WString (''*-1'' @ crlf)] else array_prims arr)
      else [WByte TypeError, WString ''ERR unknown RESP type'', WBytes crlf])"
| "array_prims None = [WString (''*-1'' @ crlf)]"
| "array_prims (Some vs) =
     [WByte TypeArray, WString (Itoa (length vs)), WBytes crlf] @ concat (map value_prims vs)"

text \<open>The calls of one broadcast to one replica: the value, then the flush.\<close>

definition send_prims :: "Value \<Rightarrow> prim list" where
  "send_prims v = value_prims v @ [WFlush]"

subsection \<open>Without interference\<close>

lemma and_then_assoc: "and_then (and_then f g) h = and_then f (and_then g h)"
  by (auto simp: and_then_def fun_eq_iff split: prod.split option.split)

lemma and_then_done [simp]: "and_then f (\<lambda>w. (None, w)) = f"
  by (auto simp: and_then_def fun_eq_iff split: prod.split option.split)

lemma done_and_then [simp]: "and_then (\<lambda>w. (None, w)) f = f"
  by (simp add: and_then_def fun_eq_iff)

lemma run_prims_append: "run_prims (ps @ qs) = and_then (run_prims ps) (run_prims qs)"
  by (induction ps) (simp_all add: and_then_assoc)

lemma WriteValue_prims:
  "WriteValue v = run_prims (value_prims v)"
  "WriteArray a = run_prims (array_prims a)"
  "write_elements vs = run_prims (concat (map value_prims vs))"
proof (induction v and a and vs rule: WriteValue_WriteArray_write_elements.induct)
  case (1 ty str num bulk arr nil)
  then show ?case
    by (simp add: WriteSimpleString_def WriteError_def WriteInteger_def WriteBulkString_def WriteNull_def
        WriteNullArray_def split: option.split)
qed (simp_all add: WriteNullArray_def run_prims_append)

lemma send_prims_ok: "send v = run_prims (send_prims v)"
  by (simp add: send_def send_prims_def WriteValue_prims run_prims_append)

lemma writes_prims: "writes (run_prims ps) (concat (map prim_bytes ps))"
proof (induction ps)
  case (Cons p ps)
  have "writes (exec p) (prim_bytes p)"
    by (cases p) (simp_all add: writes_WriteByte writes_WriteString writes_Write writes_Flush Writer_Flush_def)
  from writes_and_then [OF this Cons] show ?case by simp
qed (simp add: writes_nothing)

lemma run_prims_flushed:
  assumes "run_prims (ps @ [WFlush]) w = (None, w')"
  shows "buf w' = []"
  using assms Flush_None_buf
  by (auto simp: run_prims_append and_then_def Writer_Flush_def split: prod.splits option.splits)

lemma prims_encode: "concat (map prim_bytes (value_prims v)) = encode v"
  "concat (map prim_bytes (array_prims a)) = encode_array a"
proof (induction v and a rule: value_prims_array_prims.induct)
  case (1 ty str num bulk arr nil)
  then show ?case by (auto simp: Type_defs split: option.split)
next
  case (3 vs)
  then have "concat (map prim_bytes (concat (map value_prims vs))) = concat (map encode vs)"
    by (induction vs) auto
  then show ?case by (simp add: TypeArray_def)
qed simp

subsection \<open>With interference\<close>

lemma shuffles_around: "(p # ys @ ps) \<in> shuffles (p # ps) ys"
proof -
  have "ys @ ps \<in> shuffles ps ys"
    by (induction ys) (auto simp: Cons_in_shuffles_iff shuffles_commutes)
  then show ?thesis by (auto simp: Cons_in_shuffles_iff)
qed

lemma array_in_header:
  assumes "v = NewArray (Some vs)"
  shows "ReadValue fin (CHR ''*'' # encode v @ rest) = Fail (ErrInvalidSyntax ''invalid array count'')"
proof -
  have line: "readLine fin ((CHR ''*'' # Itoa (length vs)) @ crlf @ t) = Got (CHR ''*'' # Itoa (length vs)) t" for t
    by (rule readLine_crlf) (simp add: LF_def)
  have "Atoi (CHR ''*'' # Itoa (length vs)) = (0, Some ErrSyntax)"
    by (simp add: Atoi_def ParseInt_def ParseUint_def is_digit_def)
  with line [of "concat (map encode vs) @ rest"] show ?thesis
    by (simp add: assms encode_New ReadValue_Cons readArray.simps)
qed

text \<open>
  C34. Two broadcasts at the same time can break the stream: for every two commands there is
  an interleaving of the calls that the two goroutines make on the shared writer, with no
  error on the master's side, after which the replica rejects the stream and applies
  neither.
\<close>

theorem concurrent_broadcasts_break_stream:
  assumes "err w = None" and "limit (wr w) = None" and "buf w = []"
    and "mutation_args cmd1 k1 v1 d1 = Some a1" and "mutation_args cmd2 k2 v2 d2 = Some a2"
  shows "\<exists>ps w' new. ps \<in> shuffles (send_prims (NewArray (Some a1))) (send_prims (NewArray (Some a2))) \<and>
    run_prims ps w = (None, w') \<and> wire (wr w') = wire (wr w) @ new \<and>
    ReadValue fin new = Fail (ErrInvalidSyntax ''invalid array count'') \<and>
    sync_stream up P clk n fin new nd = (None, nd)"
proof -
  let ?v1 = "NewArray (Some a1)" and ?v2 = "NewArray (Some a2)"
  obtain qs where p1: "send_prims ?v1 = WByte (CHR ''*'') # qs @ [WFlush]"
    by (simp add: send_prims_def New_defs Type_defs)
  define ps1 where "ps1 = qs @ [WFlush]"
  let ?ps = "WByte (CHR ''*'') # send_prims ?v2 @ ps1"
  let ?new = "CHR ''*'' # encode ?v2 @ concat (map prim_bytes ps1)"
  have sh: "?ps \<in> shuffles (send_prims ?v1) (send_prims ?v2)" unfolding p1 ps1_def by (rule shuffles_around)
  have bytes: "concat (map prim_bytes ?ps) = ?new" by (simp add: send_prims_def prims_encode)
  obtain w' where w': "run_prims ?ps w = (None, w')" "appended ?new w w'"
    using writes_unlimited [OF writes_prims assms(1,2), of ?ps] bytes by metis
  have r: "ReadValue fin ?new = Fail (ErrInvalidSyntax ''invalid array count'')" by (rule array_in_header [OF refl])
  then have "sync_stream up P clk n fin ?new nd = (None, nd)" by (subst sync_stream.simps) simp
  moreover have "buf w' = []"
    using run_prims_flushed [of "WByte (CHR ''*'') # send_prims ?v2 @ qs" w w'] w'(1) by (simp add: ps1_def)
  then have "wire (wr w') = wire (wr w) @ ?new" using w'(2) assms(3) by (simp add: appended_def out_def)
  ultimately show ?thesis using sh w'(1) r by blast
qed

theorem concurrent_broadcasts_break_stream_witness:
  "\<exists>ps w' new. ps \<in> shuffles
      (send_prims (NewArray (mutation_args ''DEL'' ''a'' None 0))) (send_prims (NewArray (mutation_args ''DEL'' ''b'' None 0))) \<and>
    run_prims ps (NewWriter demo_conn) = (None, w') \<and> wire (wr w') = new \<and>
    sync_stream id lruPolicy_methods (\<lambda>_. 0) 0 EOF new demo_replica = (None, demo_replica)"
proof -
  obtain a1 a2 where a: "mutation_args ''DEL'' ''a'' None 0 = Some a1" "mutation_args ''DEL'' ''b'' None 0 = Some a2"
    by (simp add: mutation_args_def)
  have w: "err (NewWriter demo_conn) = None" "limit (wr (NewWriter demo_conn)) = None" "buf (NewWriter demo_conn) = []"
    by (simp_all add: NewWriter_def bufio_NewWriter_def demo_conn_def)
  from concurrent_broadcasts_break_stream [OF w a, of EOF id lruPolicy_methods "\<lambda>_. 0" 0 demo_replica]
  show ?thesis by (auto simp: a NewWriter_def bufio_NewWriter_def demo_conn_def)
qed

end
