(* ===== verification/Psync_Race.thy ===== *)
theory Psync_Race
  imports Broadcast_Race Server_Handler
begin

text \<open>
  The answer to \<open>PSYNC\<close> and the snapshot at the same time. \<open>handlePSync\<close>
  (\<open>internal/server/handler.go\<close>) starts \<open>RegisterReplica\<close> (\<open>internal/replication/master.go\<close>)
  in a goroutine and returns its own response; \<open>handleConn\<close> writes that response with the
  connection's writer while the goroutine writes the snapshot with a writer of its own. Here
  the calls of the two goroutines on their buffered writers are interleaved on the one
  connection they share. A snapshot that does not fit into the buffer reaches the connection
  in several writes, and the response can come between two of them.
\<close>

subsection \<open>Two writers on one connection\<close>

text \<open>
  The calls of \<open>RegisterReplica\<close>. Those with which \<open>handleConn\<close> sends a response \<open>r\<close> are
  \<open>send_prims r\<close>.
\<close>

definition register_prims :: "SnapshotEntry list \<Rightarrow> prim list" where
  "register_prims snapshot =
     value_prims (NewSimpleString fullresync) @ [WFlush] @
     concat (map (\<lambda>entry. array_prims (Some (snapshot_args entry))) snapshot) @ [WFlush]"

text \<open>
  \<open>Inl\<close> is a call of the registration on its writer \<open>w\<close>, \<open>Inr\<close> a call of the handler on its
  writer \<open>u\<close>; both write to the connection \<open>c\<close>. The run stops at the first error.
\<close>

fun run_duo :: "(prim + prim) list \<Rightarrow> Conn \<Rightarrow> bufWriter \<Rightarrow> bufWriter \<Rightarrow>
    string option \<times> Conn \<times> bufWriter \<times> bufWriter" where
  "run_duo [] c w u = (None, c, w\<lparr>wr := c\<rparr>, u\<lparr>wr := c\<rparr>)"
| "run_duo (Inl p # ps) c w u =
     (case exec p (w\<lparr>wr := c\<rparr>) of
        (Some e, w') \<Rightarrow> (Some e, wr w', w', u\<lparr>wr := wr w'\<rparr>)
      | (None, w') \<Rightarrow> run_duo ps (wr w') w' u)"
| "run_duo (Inr p # ps) c w u =
     (case exec p (u\<lparr>wr := c\<rparr>) of
        (Some e, u') \<Rightarrow> (Some e, wr u', w\<lparr>wr := wr u'\<rparr>, u')
      | (None, u') \<Rightarrow> run_duo ps (wr u') w u')"

subsection \<open>Without interference\<close>

lemma run_duo_wr:
  "run_duo ps c (w\<lparr>wr := d\<rparr>) u = run_duo ps c w u" "run_duo ps c w (u\<lparr>wr := d\<rparr>) = run_duo ps c w u"
  by (induction ps c w u rule: run_duo.induct) (auto split: prod.split option.split)

lemma run_duo_Inl:
  assumes "run_prims ps (w\<lparr>wr := c\<rparr>) = (None, w')"
  shows "run_duo (map Inl ps @ qs) c w u = run_duo qs (wr w') w' u"
  using assms
proof (induction ps arbitrary: c w)
  case (Cons p ps)
  then obtain w1 where w1: "exec p (w\<lparr>wr := c\<rparr>) = (None, w1)" "run_prims ps w1 = (None, w')"
    by (auto simp: and_then_def split: prod.splits option.splits)
  with Cons.IH [where w = w1 and c = "wr w1"] show ?case by simp
qed (auto simp: run_duo_wr)

lemma run_duo_Inr:
  assumes "run_prims ps (u\<lparr>wr := c\<rparr>) = (None, u')"
  shows "run_duo (map Inr ps @ qs) c w u = run_duo qs (wr u') w u'"
  using assms
proof (induction ps arbitrary: c u)
  case (Cons p ps)
  then obtain u1 where u1: "exec p (u\<lparr>wr := c\<rparr>) = (None, u1)" "run_prims ps u1 = (None, u')"
    by (auto simp: and_then_def split: prod.splits option.splits)
  with Cons.IH [where u = u1 and c = "wr u1"] show ?case by simp
qed (auto simp: run_duo_wr)

text \<open>On a connection that does not fail, the calls are what \<open>transmit\<close> does.\<close>

lemma write_snapshot_prims:
  assumes "err w = None" and "limit (wr w) = None"
  shows "write_snapshot es w = run_prims (concat (map (\<lambda>e. array_prims (Some (snapshot_args e))) es)) w"
  using assms
proof (induction es arbitrary: w)
  case (Cons e es)
  let ?ps = "array_prims (Some (snapshot_args e))"
  obtain w1 where w1: "run_prims ?ps w = (None, w1)" "err w1 = None" "limit (wr w1) = None"
    using writes_unlimited [OF writes_prims Cons.prems, of ?ps] by (auto simp: appended_def)
  then have "WriteArray (Some (snapshot_args e)) w = (None, w1)" by (simp only: WriteValue_prims)
  with w1 Cons.IH [OF w1(2,3)] show ?case
    by (simp only: write_snapshot.simps list.map concat.simps run_prims_append) (simp add: and_then_def wrap_err_def)
qed simp

lemma transmit_prims:
  assumes "err w = None" and "limit (wr w) = None"
  shows "transmit es w = run_prims (register_prims es) w"
proof -
  let ?hello = "value_prims (NewSimpleString fullresync)"
  obtain w1 where w1: "run_prims ?hello w = (None, w1)" "err w1 = None" "limit (wr w1) = None"
    using writes_unlimited [OF writes_prims assms, of ?hello] by (auto simp: appended_def)
  obtain w2 where w2: "Writer_Flush w1 = (None, w2)" "err w2 = None" "limit (wr w2) = None"
    using writes_unlimited [OF writes_Flush w1(2,3)] by (auto simp: appended_def Writer_Flush_def)
  have "WriteSimpleString fullresync = run_prims ?hello"
    using WriteValue_prims(1) [of "NewSimpleString fullresync"] by (simp add: New_defs)
  moreover have "wrap_err msg f w = f w" if "fst (f w) = None" for msg f w
    using that by (cases "f w") (simp add: wrap_err_def)
  moreover obtain w3 where w3: "write_snapshot es w2 = (None, w3)" "err w3 = None" "limit (wr w3) = None"
    using writes_unlimited [OF writes_write_snapshot w2(2,3), of es] by (auto simp: appended_def)
  moreover obtain w4 where "Writer_Flush w3 = (None, w4)"
    using writes_unlimited [OF writes_Flush w3(2,3)] by (auto simp: Writer_Flush_def)
  ultimately show ?thesis
    using w1(1) w2(1) write_snapshot_prims [OF w2(2,3), of es]
    by (simp add: transmit_def register_prims_def run_prims_append and_then_def)
qed

subsection \<open>A value larger than the buffer\<close>

lemma run_prims_buffered:
  assumes "WFlush \<notin> set ps" and "err w = None" and "length (buf w) + length (concat (map prim_bytes ps)) \<le> bufSize"
  shows "run_prims ps w = (None, w\<lparr>buf := buf w @ concat (map prim_bytes ps)\<rparr>)"
  using assms
proof (induction ps arbitrary: w)
  case (Cons p ps)
  have "exec p w = (None, w\<lparr>buf := buf w @ prim_bytes p\<rparr>)"
    using Cons.prems
    by (cases p) (auto simp: bufio_WriteByte_def bufio_WriteString.simps bufio_Write_def Available_def)
  with Cons show ?case by (simp add: and_then_def)
qed simp

text \<open>
  A call of \<open>Write\<close> that overflows the buffer fills it and sends it; what is left of the data
  stays in the buffer if it fits, and goes to the connection at once if it does not.
\<close>

lemma bufio_Write_overflow:
  assumes "err w = None" and "limit (wr w) = None" and "buf w \<noteq> []" and "n = Available w" and "n < length v"
    and "pre = (if length v \<le> n + bufSize then take n v else v)" and "suf = (if length v \<le> n + bufSize then drop n v else [])"
  shows "bufio_Write v w = (None, w\<lparr>wr := (wr w)\<lparr>wire := wire (wr w) @ buf w @ pre\<rparr>, buf := suf\<rparr>)"
  using assms
  by (auto simp: bufio_Write_def bufio_Flush_def conn_Write_def write_direct_def Available_def Let_def)

lemma in_between: "xs @ zs @ ys \<in> shuffles (xs @ ys) zs"
proof (induction xs)
  case Nil
  show ?case by (induction zs) (auto simp: Cons_in_shuffles_iff)
qed (simp add: Cons_in_shuffles_rightI Cons_in_shuffles_iff)

text \<open>A reader that expects a value of the announced length meets the response in its middle.\<close>

lemma bulk_interrupted:
  assumes "pre @ suf = v" and "2 \<le> length l" and "length v \<le> maxAlloc"
    and "take 2 (drop (length v) (pre @ l @ suf)) \<noteq> crlf"
  shows "ReadValue fin (CHR ''$'' # Itoa (length v) @ crlf @ pre @ l @ suf @ rest) =
    Fail (ErrInvalidSyntax ''expected CRLF after bulk data'')"
proof -
  let ?x = "pre @ l @ suf"
  let ?b = "take 2 (drop (length v) ?x)" and ?t = "drop (length v + 2) ?x"
  have lx: "length ?x = length v + length l" using assms(1) by auto
  have "?x = take (length v) ?x @ ?b @ ?t" by (metis append_take_drop_id drop_drop add.commute)
  then have x: "pre @ l @ suf @ rest = take (length v) ?x @ ?b @ ?t @ rest" by (metis append.assoc)
  have len: "length (take (length v) ?x) = length v" "length ?b = 2" using lx assms(2) by simp_all
  have r1: "ReadFull fin (length v) (pre @ l @ suf @ rest) = Inr (take (length v) ?x, ?b @ ?t @ rest)"
    unfolding x using len(1) by (rule ReadFull_append)
  have r2: "ReadFull fin 2 (?b @ ?t @ rest) = Inr (?b, ?t @ rest)"
    using len(2) by (rule ReadFull_append)
  have "b ! 0 \<noteq> CR \<or> b ! 1 \<noteq> LF" if "length b = 2" "b \<noteq> crlf" for b
  proof -
    from that(1) obtain x y where "b = [x, y]" by (auto simp: length_Suc_conv numeral_2_eq_2)
    with that(2) show ?thesis by (auto simp: crlf_CR_LF)
  qed
  then have bad: "?b ! 0 \<noteq> CR \<or> ?b ! 1 \<noteq> LF" using len(2) assms(4) by blast
  show ?thesis
    using assms(3) r1 r2 bad by (simp add: ReadValue_Cons readBulk_def readLine_crlf Atoi_length)
qed

text \<open>The calls before the value of the first entry, from its array header on.\<close>

definition head_prims :: "SnapshotEntry \<Rightarrow> prim list" where
  "head_prims e =
     [WByte TypeArray, WString (Itoa (length (snapshot_args e))), WBytes crlf] @
     value_prims (NewBulkStringFromString ''SET'') @ value_prims (NewBulkStringFromString (snap_Key e)) @
     [WByte TypeBulkString, WString (Itoa (length (snap_Value e))), WBytes crlf]"

definition tail_prims :: "SnapshotEntry \<Rightarrow> SnapshotEntry list \<Rightarrow> prim list" where
  "tail_prims e es =
     WBytes crlf # concat (map value_prims (px_args (snap_TTL e))) @
     concat (map (\<lambda>entry. array_prims (Some (snapshot_args entry))) es) @ [WFlush]"

lemma register_prims_split:
  "register_prims (e # es) =
     (send_prims (NewSimpleString fullresync) @ head_prims e @ [WBytes (snap_Value e)]) @ tail_prims e es"
  by (simp add: register_prims_def send_prims_def head_prims_def tail_prims_def snapshot_args_def New_defs Type_defs)

lemma length_Itoa: "n < 10 ^ k \<Longrightarrow> 0 < k \<Longrightarrow> k < 19 \<Longrightarrow> length (Itoa n) \<le> k"
proof -
  assume a: "n < 10 ^ k" "0 < k" "k < 19"
  have "(10 :: nat) ^ k \<le> 10 ^ 18" using a(3) by (intro power_increasing) simp_all
  with a(1) have "n < 2 ^ 63" by simp
  then have "Itoa n = format_nat n" by (simp add: Itoa_def FormatInt_def sint_word_of_nat)
  with a(1,2) show ?thesis by (simp add: length_format_nat)
qed

lemma head_prims_bytes:
  "concat (map prim_bytes (head_prims e)) =
     CHR ''*'' # Itoa (length (snapshot_args e)) @ crlf @ encode (NewBulkStringFromString ''SET'') @
     encode (NewBulkStringFromString (snap_Key e)) @ CHR ''$'' # Itoa (length (snap_Value e)) @ crlf"
  by (simp add: head_prims_def prims_encode Type_defs)

definition head_bytes :: "SnapshotEntry \<Rightarrow> bytes" where
  "head_bytes e = concat (map prim_bytes (head_prims e))"

lemma head_prims_short:
  assumes "length (snap_Key e) \<le> 4000" and "length (snap_Value e) \<le> maxAlloc"
  shows "length (head_bytes e) < bufSize" "head_bytes e \<noteq> []" "WFlush \<notin> set (head_prims e)"
proof -
  have "length (snapshot_args e) < 10 ^ 1" by (simp add: snapshot_args_def px_args_def Let_def)
  then have "length (Itoa (length (snapshot_args e))) \<le> 1" by (rule length_Itoa) simp_all
  moreover have "length (Itoa (length (snap_Key e))) \<le> 4" "length (Itoa (length (snap_Value e))) \<le> 15"
    using assms by (auto simp: maxAlloc_def intro!: length_Itoa)
  moreover have "length (Itoa (Suc (Suc (Suc 0)))) \<le> 1" by (rule length_Itoa) simp_all
  ultimately show "length (head_bytes e) < bufSize"
    using assms(1) by (simp add: head_bytes_def head_prims_bytes NewBulkStringFromString_def encode_New crlf_def bufSize_def)
  show "head_bytes e \<noteq> []" by (simp add: head_bytes_def head_prims_bytes)
  show "WFlush \<notin> set (head_prims e)" by (auto simp: head_prims_def New_defs)
qed

lemma read_interrupted_command:
  assumes "pre @ suf = snap_Value e" and "2 \<le> length l" and "length (snap_Value e) \<le> maxAlloc"
    and "length (snap_Key e) \<le> 4000" and "take 2 (drop (length (snap_Value e)) (pre @ l @ suf)) \<noteq> crlf"
  shows "ReadValue fin (head_bytes e @ pre @ l @ suf @ rest) =
    Fail (ErrInvalidSyntax ''expected CRLF after bulk data'')"
proof -
  let ?v = "snap_Value e" and ?n = "length (snapshot_args e)"
  let ?in = "CHR ''$'' # Itoa (length ?v) @ crlf @ pre @ l @ suf @ rest"
  obtain m where n: "?n = Suc (Suc (Suc m))" "m \<le> 2" by (auto simp: snapshot_args_def px_args_def Let_def)
  then have line: "readLine fin (Itoa ?n @ crlf @ t) = Got (Itoa ?n) t" "Atoi (Itoa ?n) = (word_of_nat ?n, None)"
    "\<not> word_of_nat ?n <s (0 :: 64 word)" "nat (sint (word_of_nat ?n :: 64 word)) = ?n" for t
    using Atoi_length [of ?n] by (simp_all add: readLine_crlf maxAlloc_def)
  have strs: "ReadValue fin (encode (NewBulkStringFromString s) @ t) = Got (NewBulkStringFromString s) t"
    if "length s \<le> 4000" for s t
    using that by (intro ReadValue_encode) (simp add: wire_ok_FromString maxAlloc_def)
  have v: "ReadValue fin ?in = Fail (ErrInvalidSyntax ''expected CRLF after bulk data'')"
    by (rule bulk_interrupted [OF assms(1-3,5)])
  have "read_elements fin ?n (encode (NewBulkStringFromString ''SET'') @ encode (NewBulkStringFromString (snap_Key e)) @ ?in) =
      Fail (ErrInvalidSyntax ''expected CRLF after bulk data'')"
    using strs [of "''SET''"] strs [OF assms(4)] v unfolding n(1)
    by (simp add: read_elements.simps)
  moreover have "\<not> maxAlloc < sizeof_Value * ?n" using n by (simp add: maxAlloc_def sizeof_Value_def)
  ultimately show ?thesis
    using line by (simp add: head_bytes_def head_prims_bytes ReadValue_Cons readArray.simps)
qed

subsection \<open>Property\<close>

text \<open>
  The bytes of the first value with the response in the place where the first write of the
  value ends: after as much of it as the header leaves room for in the buffer.
\<close>

definition spliced :: "SnapshotEntry \<Rightarrow> bytes" where
  "spliced e =
     (let n = bufSize - length (head_bytes e)
      in take n (snap_Value e) @ encode (NewSimpleString fullresync) @ drop n (snap_Value e))"

text \<open>The state of the registration when it has handed the first value to its writer.\<close>

lemma half_transmitted:
  assumes "limit c = None" and "length (snap_Key e) \<le> 4000" and "bufSize \<le> length (snap_Value e)"
    and "length (snap_Value e) \<le> maxAlloc"
    and "length (snap_Value e) < 2 * bufSize \<Longrightarrow> take 2 (drop (length (snap_Value e)) (spliced e)) \<noteq> crlf"
  obtains w pre suf where
    "run_prims (send_prims (NewSimpleString fullresync) @ head_prims e @ [WBytes (snap_Value e)]) (NewWriter c) = (None, w)"
    "err w = None" "limit (wr w) = None" "pre @ suf = snap_Value e" "buf w = suf"
    "take 2 (drop (length (snap_Value e)) (pre @ encode (NewSimpleString fullresync) @ suf)) \<noteq> crlf"
    "wire (wr w) = wire c @ encode (NewSimpleString fullresync) @ head_bytes e @ pre"
proof -
  let ?line = "encode (NewSimpleString fullresync)" and ?hello = "send_prims (NewSimpleString fullresync)"
    and ?v = "snap_Value e" and ?h = "head_bytes e"
  define n where "n = bufSize - length ?h"
  define pre where "pre = (if length ?v \<le> n + bufSize then take n ?v else ?v)"
  define suf where "suf = (if length ?v \<le> n + bufSize then drop n ?v else [])"
  note h = head_prims_short [OF assms(2,4)]
  have new: "err (NewWriter c) = None" "limit (wr (NewWriter c)) = None" "out (NewWriter c) = wire c"
    using assms(1) by (simp_all add: NewWriter_def bufio_NewWriter_def out_def)
  obtain w1 where w1: "run_prims ?hello (NewWriter c) = (None, w1)" "err w1 = None" "limit (wr w1) = None"
      "out w1 = wire c @ ?line"
    using writes_unlimited [OF writes_prims new(1,2), of ?hello] new(3)
    by (auto simp: appended_def send_prims_def prims_encode)
  have b1: "buf w1 = []" using w1(1) run_prims_flushed by (simp add: send_prims_def)
  have w2: "run_prims (head_prims e) w1 = (None, w1\<lparr>buf := ?h\<rparr>)"
    using run_prims_buffered [OF h(3) w1(2)] h(1) b1 by (simp add: head_bytes_def)
  have nv: "n < length ?v" using h(2) assms(3) by (simp add: n_def bufSize_def) (cases ?h; simp)
  have w3: "bufio_Write ?v (w1\<lparr>buf := ?h\<rparr>) =
      (None, w1\<lparr>buf := ?h, wr := (wr w1)\<lparr>wire := wire (wr w1) @ ?h @ pre\<rparr>, buf := suf\<rparr>)" (is "_ = (None, ?w)")
    using bufio_Write_overflow [of "w1\<lparr>buf := ?h\<rparr>" n ?v pre suf] w1(2,3) h(2) nv
    by (simp add: Available_def n_def pre_def suf_def)
  show thesis
  proof (rule that [of ?w pre suf])
    show "run_prims (?hello @ head_prims e @ [WBytes ?v]) (NewWriter c) = (None, ?w)"
      using w1(1) w2 w3 by (simp add: run_prims_append and_then_def)
    show "wire (wr ?w) = wire c @ ?line @ ?h @ pre" using w1(4) b1 by (simp add: out_def)
    show "take 2 (drop (length ?v) (pre @ ?line @ suf)) \<noteq> crlf"
    proof (cases "length ?v \<le> n + bufSize")
      case True
      then have "length ?v < 2 * bufSize" using h(2) by (simp add: n_def bufSize_def) (cases ?h; simp)
      from assms(5) [OF this] True show ?thesis by (simp add: spliced_def Let_def pre_def suf_def n_def)
    next
      case False
      then show ?thesis by (simp add: pre_def suf_def encode_New crlf_def)
    qed
  qed (use w1 in \<open>simp_all add: pre_def suf_def\<close>)
qed

lemma Dispatch_PSYNC:
  "Dispatch G P clk h (cmd_value [''PSYNC'', ''?'', ''-1'']) p = Some (handlePSync h p)"
  by (simp add: Dispatch_def Let_def)

text \<open>
  C35. The answer to \<open>PSYNC\<close> can destroy the snapshot. The handler of the connection answers
  \<open>PSYNC\<close> and starts a registration on the same connection. For every snapshot whose first
  entry has a key of at most 4000 bytes and a value that fills the writer's buffer of 4096
  bytes, there is an interleaving of the calls of the registration and of those that send
  the answer, with no error on the master's side, after which the connection carries the
  answer's line inside the entry. The replica takes the first line for the acknowledgement,
  rejects what follows and applies nothing. (For a value shorter than two buffers this needs
  that the two bytes at which the reader then looks for the end of the value are not by
  chance a line break.)
\<close>

theorem psync_reply_breaks_snapshot:
  assumes "has_master h" and "conn h = Some cid" and "limit c = None"
    and "length (snap_Key e) \<le> 4000" and "bufSize \<le> length (snap_Value e)" and "length (snap_Value e) \<le> maxAlloc"
    and "length (snap_Value e) < 2 * bufSize \<Longrightarrow> take 2 (drop (length (snap_Value e)) (spliced e)) \<noteq> crlf"
  shows "\<exists>r p' ps c' w u new. Dispatch G P' clk' h (cmd_value [''PSYNC'', ''?'', ''-1'']) p = Some (r, p') \<and>
    registering p' = registering p @ [cid] \<and>
    ps \<in> shuffles (map Inl (register_prims (e # es))) (map Inr (send_prims r)) \<and>
    run_duo ps c (NewWriter c) (NewWriter c) = (None, c', w, u) \<and>
    wire c' = wire c @ encode (NewSimpleString fullresync) @ new \<and>
    ReadValue fin new = Fail (ErrInvalidSyntax ''expected CRLF after bulk data'') \<and>
    sync_stream up P clk n fin new nd = (None, nd)"
proof -
  let ?r = "NewSimpleString fullresync"
  let ?line = "encode ?r" and ?hello = "send_prims ?r"
  let ?A = "?hello @ head_prims e @ [WBytes (snap_Value e)]"
  let ?t = "concat (map prim_bytes (tail_prims e es))"
  obtain p' where disp: "Dispatch G P' clk' h (cmd_value [''PSYNC'', ''?'', ''-1'']) p = Some (?r, p')"
      "registering p' = registering p @ [cid]"
    unfolding Dispatch_PSYNC using assms(1,2) by (simp add: handlePSync_def)
  have self: "(NewWriter c)\<lparr>wr := c\<rparr> = NewWriter c" by (simp add: NewWriter_def bufio_NewWriter_def)
  obtain w1 pre suf where w1: "run_prims ?A (NewWriter c) = (None, w1)" "err w1 = None" "limit (wr w1) = None"
      "pre @ suf = snap_Value e" "buf w1 = suf" "take 2 (drop (length (snap_Value e)) (pre @ ?line @ suf)) \<noteq> crlf"
      "wire (wr w1) = wire c @ ?line @ head_bytes e @ pre"
    by (rule half_transmitted [OF assms(3-7)])
  have new: "err ((NewWriter c)\<lparr>wr := wr w1\<rparr>) = None" "limit (wr ((NewWriter c)\<lparr>wr := wr w1\<rparr>)) = None"
    using w1(3) by (simp_all add: NewWriter_def bufio_NewWriter_def)
  obtain u where u: "run_prims ?hello ((NewWriter c)\<lparr>wr := wr w1\<rparr>) = (None, u)" "limit (wr u) = None"
      "out u = wire (wr w1) @ ?line"
    using writes_unlimited [OF writes_prims new, of ?hello]
    by (auto simp: appended_def send_prims_def prims_encode NewWriter_def bufio_NewWriter_def out_def)
  have bu: "buf u = []" using u(1) run_prims_flushed by (simp add: send_prims_def)
  have w2: "err (w1\<lparr>wr := wr u\<rparr>) = None" "limit (wr (w1\<lparr>wr := wr u\<rparr>)) = None" using w1(2) u(2) by simp_all
  obtain w where w: "run_prims (tail_prims e es) (w1\<lparr>wr := wr u\<rparr>) = (None, w)" "out w = wire (wr u) @ suf @ ?t"
    using writes_unlimited [OF writes_prims w2, of "tail_prims e es"] w1(5) by (auto simp: appended_def out_def)
  have "tail_prims e es = butlast (tail_prims e es) @ [WFlush]" by (simp add: tail_prims_def butlast_append)
  then have bw: "buf w = []" using w(1) run_prims_flushed by metis
  let ?ps = "map Inl ?A @ map Inr ?hello @ map Inl (tail_prims e es)"
  let ?new = "head_bytes e @ pre @ ?line @ suf @ ?t"
  have "?ps \<in> shuffles (map Inl (register_prims (e # es))) (map Inr ?hello)"
    unfolding register_prims_split map_append [of _ ?A] by (rule in_between)
  moreover have "run_duo ?ps c (NewWriter c) (NewWriter c) = (None, wr w, w, u\<lparr>wr := wr w\<rparr>)"
    using run_duo_Inl [where ps = ?A and w = "NewWriter c" and c = c and w' = w1] run_duo_Inr [OF u(1)]
      run_duo_Inl [OF w(1), of "[]" u] w1(1) self by simp
  moreover have "wire (wr w) = wire c @ ?line @ ?new" using w(2) bw u(3) bu w1(7) by (simp add: out_def)
  moreover have r: "ReadValue fin ?new = Fail (ErrInvalidSyntax ''expected CRLF after bulk data'')"
    by (rule read_interrupted_command [OF w1(4) _ assms(6,4) w1(6)]) (simp add: encode_New fullresync_def)
  moreover from r have "sync_stream up P clk n fin ?new nd = (None, nd)" by (subst sync_stream.simps) simp
  ultimately show ?thesis using disp by blast
qed

definition demo_entry :: "nat \<Rightarrow> SnapshotEntry" where
  "demo_entry n = \<lparr>snap_Key = ''k'', snap_Value = replicate n (CHR ''v''), snap_TTL = 0\<rparr>"

text \<open>A value of more than two buffers.\<close>

theorem psync_reply_breaks_snapshot_witness:
  "\<exists>r p' ps c' w u new.
    Dispatch \<lparr>unicode_upper = id, go_version = [], pid = 1\<rparr> lruPolicy_methods (\<lambda>_. 1) (NewHandler True True 0 (Some 7))
      (cmd_value [''PSYNC'', ''?'', ''-1'']) \<lparr>node = node_init (demo_master, demo_env), registering = []\<rparr> = Some (r, p') \<and>
    registering p' = [7] \<and> ps \<in> shuffles (map Inl (register_prims [demo_entry 10000])) (map Inr (send_prims r)) \<and>
    run_duo ps demo_conn (NewWriter demo_conn) (NewWriter demo_conn) = (None, c', w, u) \<and>
    wire c' = encode (NewSimpleString fullresync) @ new \<and>
    sync_stream id lruPolicy_methods (\<lambda>_. 0) 0 EOF new demo_replica = (None, demo_replica)"
proof -
  let ?h = "NewHandler True True 0 (Some 7)" and ?e = "demo_entry 10000"
    and ?p = "\<lparr>node = node_init (demo_master, demo_env), registering = []\<rparr>"
  have v: "has_master ?h" "conn ?h = Some 7" "limit demo_conn = None" "length (snap_Key ?e) \<le> 4000"
    "bufSize \<le> length (snap_Value ?e)" "length (snap_Value ?e) \<le> maxAlloc" "\<not> length (snap_Value ?e) < 2 * bufSize"
    by (simp_all add: NewHandler_def demo_conn_def demo_entry_def bufSize_def maxAlloc_def)
  then have "length (snap_Value ?e) < 2 * bufSize \<Longrightarrow> take 2 (drop (length (snap_Value ?e)) (spliced ?e)) \<noteq> crlf" by blast
  from psync_reply_breaks_snapshot [OF v(1-6) this, where es = "[]" and fin = EOF and up = id and P = lruPolicy_methods
      and clk = "\<lambda>_. 0" and n = 0 and nd = demo_replica and p = ?p]
  show ?thesis by (simp add: demo_conn_def) blast
qed

end
