(* ===== verification/Go_Strings.thy ===== *)
theory Go_Strings
  imports Go_Text
begin

text \<open>
  The parts of Go's \<open>strings\<close> package that the dashboard uses: \<open>Split\<close> and \<open>SplitN\<close> with a
  separator of one byte, \<open>TrimSpace\<close>, \<open>HasPrefix\<close> and \<open>Index\<close>. The lemmas say that splitting
  undoes joining, and that trimming leaves a text alone that starts and ends with visible
  ASCII characters.

  \<open>TrimSpace\<close> works on ASCII; where it meets another byte it falls back on \<open>TrimFunc\<close> and
  \<open>TrimRightFunc\<close> with Unicode's tables. These are the fields of \<open>unicode_trim\<close>, and every
  theorem holds for each choice of them.
\<close>

record unicode_trim =
  trim_func :: "string \<Rightarrow> string"
  trim_right_func :: "string \<Rightarrow> string"

definition ascii_space :: "char \<Rightarrow> bool" where
  "ascii_space c \<longleftrightarrow> c \<in> {CHR 0x09, CHR 0x0A, CHR 0x0B, CHR 0x0C, CHR 0x0D, CHR '' ''}"

definition TrimSpace :: "unicode_trim \<Rightarrow> string \<Rightarrow> string" where
  "TrimSpace U s =
     (let s1 = dropWhile ascii_space s
      in if s1 = [] then []
         else if \<not> is_ascii (hd s1) then trim_func U s1
         else let s2 = rev (dropWhile ascii_space (rev s1))
              in if \<not> is_ascii (last s2) then trim_right_func U s2 else s2)"

text \<open>\<open>Split(s, sep)\<close>, and \<open>SplitN(s, sep, 2)\<close>.\<close>

fun Split :: "char \<Rightarrow> string \<Rightarrow> string list" where
  "Split sep [] = [[]]"
| "Split sep (c # s) =
     (if c = sep then [] # Split sep s
      else case Split sep s of [] \<Rightarrow> [[c]] | part # parts \<Rightarrow> (c # part) # parts)"

definition SplitN2 :: "char \<Rightarrow> string \<Rightarrow> string list" where
  "SplitN2 sep s =
     (if sep \<in> set s then [takeWhile (\<lambda>c. c \<noteq> sep) s, tl (dropWhile (\<lambda>c. c \<noteq> sep) s)] else [s])"

fun HasPrefix :: "string \<Rightarrow> string \<Rightarrow> bool" where
  "HasPrefix s [] = True"
| "HasPrefix [] (c # cs) = False"
| "HasPrefix (d # s) (c # cs) = (d = c \<and> HasPrefix s cs)"

text \<open>\<open>Index\<close>: the first position of a substring, \<open>None\<close> for -1.\<close>

fun Index :: "string \<Rightarrow> string \<Rightarrow> nat option" where
  "Index [] sub = (if sub = [] then Some 0 else None)"
| "Index (c # s) sub =
     (if HasPrefix (c # s) sub then Some 0 else map_option Suc (Index s sub))"

subsection \<open>Splitting\<close>

lemma Split_nonempty [simp]: "Split sep s \<noteq> []"
  by (induction s) (auto split: list.split)

lemma Split_append: "sep \<notin> set l \<Longrightarrow> Split sep (l @ sep # s) = l # Split sep s"
  by (induction l) auto

lemma Split_single: "sep \<notin> set l \<Longrightarrow> Split sep l = [l]"
  by (induction l) auto

lemma SplitN2_append: "sep \<notin> set k \<Longrightarrow> SplitN2 sep (k @ sep # v) = [k, v]"
  by (simp add: SplitN2_def takeWhile_append dropWhile_append)

fun join :: "char \<Rightarrow> string list \<Rightarrow> string" where
  "join sep [] = []"
| "join sep [s] = s"
| "join sep (s # t # ss) = s @ sep # join sep (t # ss)"

lemma Split_join:
  "ss \<noteq> [] \<Longrightarrow> list_all (\<lambda>s. sep \<notin> set s) ss \<Longrightarrow> Split sep (join sep ss) = ss"
  by (induction sep ss rule: join.induct) (simp_all add: Split_append Split_single)

lemma Split_lines:
  "list_all (\<lambda>l. sep \<notin> set l) ls \<Longrightarrow> Split sep (concat (map (\<lambda>l. l @ [sep]) ls)) = ls @ [[]]"
  by (induction ls) (simp_all add: Split_append)

subsection \<open>Trimming\<close>

definition visible :: "char \<Rightarrow> bool" where
  "visible c \<longleftrightarrow> is_ascii c \<and> \<not> ascii_space c"

definition solid :: "string \<Rightarrow> bool" where
  "solid s \<longleftrightarrow> s \<noteq> [] \<and> visible (hd s) \<and> visible (last s)"

lemma solid_nonempty: "solid s \<Longrightarrow> s \<noteq> []"
  by (simp add: solid_def)

lemma TrimSpace_trailing:
  assumes "solid s" and "list_all ascii_space t"
  shows "TrimSpace U (s @ t) = s"
proof -
  have "dropWhile ascii_space (s @ t) = s @ t"
    using assms(1) by (cases s) (auto simp: solid_def visible_def)
  moreover have "dropWhile ascii_space (rev t @ rev s) = rev s"
  proof -
    have "dropWhile ascii_space (rev s) = rev s"
      using assms(1) by (cases s rule: rev_cases) (auto simp: solid_def visible_def)
    moreover have "\<And>x. x \<in> set (rev t) \<Longrightarrow> ascii_space x" using assms(2) by (simp add: list_all_iff)
    ultimately show ?thesis using dropWhile_append2 [of "rev t" ascii_space "rev s"] by metis
  qed
  ultimately show ?thesis
    using assms(1) by (cases s) (auto simp: TrimSpace_def solid_def visible_def)
qed

lemma TrimSpace_solid: "solid s \<Longrightarrow> TrimSpace U s = s"
  using TrimSpace_trailing [of s "[]" U] by simp

lemma TrimSpace_blank: "list_all ascii_space t \<Longrightarrow> TrimSpace U t = []"
proof -
  assume "list_all ascii_space t"
  then have "dropWhile ascii_space t = []" by (simp add: list_all_iff)
  then show ?thesis by (simp add: TrimSpace_def)
qed

lemma solid_append: "solid s \<Longrightarrow> solid t \<Longrightarrow> solid (s @ m @ t)"
  by (cases t rule: rev_cases) (auto simp: solid_def)

lemma visible_number: "is_digit c \<or> c = CHR ''-'' \<Longrightarrow> visible c"
  by (auto simp: visible_def is_digit_def is_ascii_def ascii_space_def)

lemma solid_FormatInt [simp]: "solid (FormatInt n)"
proof -
  have "FormatInt n \<noteq> []" by (simp add: FormatInt_def)
  then show ?thesis
    using FormatInt_chars [of "hd (FormatInt n)" n] FormatInt_chars [of "last (FormatInt n)" n]
    by (auto simp: solid_def intro: visible_number)
qed

subsection \<open>Searching\<close>

lemma HasPrefix_append [simp]: "HasPrefix (p @ s) p"
  by (induction p) simp_all

lemma Index_here: "Index (p @ s) p = Some 0"
  using HasPrefix_append [of p s] by (cases "p @ s") auto

lemma Index_char:
  assumes "c \<notin> set d"
  shows "Index (d @ c # s) [c] = Some (length d)"
  using assms by (induction d) auto

lemma Index_None: "c \<notin> set d \<Longrightarrow> Index d [c] = None"
  by (induction d) auto

end
