(* ===== verification/Dashboard.thy ===== *)
theory Dashboard
  imports Server_Properties Go_Strings
begin

text \<open>
  \<open>cmd/vortex-dashboard/main.go\<close>: how the dashboard asks a node for its state and reads the
  answer, how it reads the list of nodes, and how it collects the answers of all nodes. What
  becomes of them is in \<open>Dashboard_Page\<close>.

  The main fact joins two programs: what \<open>pollNode\<close> reads from the text that the server's
  \<open>INFO\<close> command prints is the server's own state.
\<close>

subsection \<open>Polling a node\<close>

text \<open>No code sets the floating-point field \<open>LagMs\<close>; its zero value is written as an integer.\<close>

record NodeMetric =
  nm_Name :: string
  nm_Addr :: string
  nm_Status :: string
  nm_Role :: string
  nm_Keys :: int64
  nm_UptimeSec :: int64
  nm_MasterHost :: string
  nm_LinkStatus :: string
  nm_LagMs :: int
  nm_Offset :: int64
  nm_Error :: string

definition down_metric :: "string \<Rightarrow> string \<Rightarrow> NodeMetric" where
  "down_metric name a =
     \<lparr>nm_Name = name, nm_Addr = a, nm_Status = ''DOWN'', nm_Role = ''unknown'', nm_Keys = 0, nm_UptimeSec = 0,
      nm_MasterHost = [], nm_LinkStatus = [], nm_LagMs = 0, nm_Offset = 0, nm_Error = []\<rparr>"

definition set_keys :: "string \<Rightarrow> NodeMetric \<Rightarrow> NodeMetric" where
  "set_keys v m =
     (case Index v ''keys='' of
        None \<Rightarrow> m
      | Some idx \<Rightarrow>
          let sub = drop (idx + 5) v;
              sub = (case Index sub '','' of None \<Rightarrow> sub | Some i \<Rightarrow> take i sub)
          in m\<lparr>nm_Keys := fst (ParseInt sub)\<rparr>)"

definition set_field :: "string \<Rightarrow> string \<Rightarrow> NodeMetric \<Rightarrow> NodeMetric" where
  "set_field k v m =
     (if k = ''role'' then m\<lparr>nm_Role := v\<rparr>
      else if k = ''master_host'' then m\<lparr>nm_MasterHost := v\<rparr>
      else if k = ''master_link_status'' then m\<lparr>nm_LinkStatus := v\<rparr>
      else if k = ''uptime_in_seconds'' then m\<lparr>nm_UptimeSec := fst (ParseInt v)\<rparr>
      else if k = ''slave_repl_offset'' \<or> k = ''master_repl_offset'' then m\<lparr>nm_Offset := fst (ParseInt v)\<rparr>
      else if k = ''db0'' then set_keys v m
      else m)"

definition info_line :: "unicode_trim \<Rightarrow> string \<Rightarrow> NodeMetric \<Rightarrow> NodeMetric" where
  "info_line U line m =
     (let line = TrimSpace U line
      in if HasPrefix line ''#'' \<or> line = [] then m
         else case SplitN2 (CHR '':'') line of
                [k, v] \<Rightarrow> set_field (TrimSpace U k) (TrimSpace U v) m
              | _ \<Rightarrow> m)"

text \<open>
  \<open>pollNode\<close> as a function of what the dial gives; \<open>Inl\<close> is the panic of the reader.
\<close>

definition pollNode :: "unicode_trim \<Rightarrow> string \<Rightarrow> string \<Rightarrow> dial \<Rightarrow> string + NodeMetric" where
  "pollNode U name a d =
     (let metric = down_metric name a
      in case d of
           DialErr e \<Rightarrow> Inr (metric\<lparr>nm_Error := e\<rparr>)
         | Dialed c answer fin \<Rightarrow>
             case WriteArray (Some [NewBulkStringFromString ''INFO'']) (NewWriter c) of
               (Some e, w) \<Rightarrow> Inr (metric\<lparr>nm_Error := e\<rparr>)
             | (None, w) \<Rightarrow>
                 case Writer_Flush w of
                   (Some e, w') \<Rightarrow> Inr (metric\<lparr>nm_Error := e\<rparr>)
                 | (None, w') \<Rightarrow>
                     case ReadValue fin answer of
                       Panic p \<Rightarrow> Inl p
                     | Fail e \<Rightarrow> Inr (metric\<lparr>nm_Error := RespErr_Error e\<rparr>)
                     | Got res rest \<Rightarrow>
                         let metric = metric\<lparr>nm_Status := ''UP''\<rparr>;
                             infoStr = elems (Bulk res);
                             infoStr = (if infoStr = [] then Str res else infoStr)
                         in Inr (fold (info_line U) (Split LF infoStr) metric))"

subsection \<open>The list of nodes\<close>

record nodeTarget =
  target_name :: string
  target_addr :: string

fun parse_targets :: "unicode_trim \<Rightarrow> nat \<Rightarrow> string list \<Rightarrow> nodeTarget list" where
  "parse_targets U i [] = []"
| "parse_targets U i (part # parts) =
     (let p = TrimSpace U part
      in if p = [] then parse_targets U (Suc i) parts
         else if CHR ''='' \<in> set p
         then (let kv = SplitN2 (CHR ''='') p
               in \<lparr>target_name = kv ! 0, target_addr = kv ! 1\<rparr> # parse_targets U (Suc i) parts)
         else \<lparr>target_name = (if i = 0 then ''vortex-master'' else ''vortex-replica-'' @ Itoa i),
               target_addr = p\<rparr> # parse_targets U (Suc i) parts)"

definition parseNodeTargets :: "unicode_trim \<Rightarrow> string \<Rightarrow> nodeTarget list" where
  "parseNodeTargets U raw = parse_targets U 0 (Split (CHR '','') raw)"

text \<open>
  The handler of \<open>/api/topology\<close>: one goroutine for each node writes its own place of the
  result; \<open>order\<close> is the order in which they finish. \<open>poll\<close> is \<open>pollNode\<close> on what the
  nodes answer. A panic in a goroutine is not recovered: it ends the program (\<open>Inl\<close>).
\<close>

definition place_result :: "(nodeTarget \<Rightarrow> string + NodeMetric) \<Rightarrow> nodeTarget list \<Rightarrow> nat \<Rightarrow>
    string + NodeMetric list \<Rightarrow> string + NodeMetric list" where
  "place_result poll targets idx r =
     (case r of
        Inl p \<Rightarrow> Inl p
      | Inr results \<Rightarrow> (case poll (targets ! idx) of Inl p \<Rightarrow> Inl p | Inr m \<Rightarrow> Inr (results[idx := m])))"

definition topology :: "(nodeTarget \<Rightarrow> string + NodeMetric) \<Rightarrow> nat list \<Rightarrow> nodeTarget list \<Rightarrow> string + NodeMetric list" where
  "topology poll order targets =
     fold (place_result poll targets) order
       (Inr (replicate (length targets)
         \<lparr>nm_Name = [], nm_Addr = [], nm_Status = [], nm_Role = [], nm_Keys = 0, nm_UptimeSec = 0,
          nm_MasterHost = [], nm_LinkStatus = [], nm_LagMs = 0, nm_Offset = 0, nm_Error = []\<rparr>))"

subsection \<open>Reading what \<open>INFO\<close> prints\<close>

text \<open>A line of the answer: without line feeds, empty or with visible ends.\<close>

definition line_ok :: "string \<Rightarrow> bool" where
  "line_ok l \<longleftrightarrow> LF \<notin> set l \<and> (l = [] \<or> solid l)"

lemma space_CR [simp]: "ascii_space CR"
  by (simp add: ascii_space_def CR_def)

lemma info_line_blank: "info_line U [CR] m = m" "info_line U [] m = m"
  by (simp_all add: info_line_def TrimSpace_blank)

lemma info_line_comment: "solid (CHR ''#'' # s) \<Longrightarrow> info_line U ((CHR ''#'' # s) @ [CR]) m = m"
  using TrimSpace_trailing [of "CHR ''#'' # s" "[CR]" U] by (simp add: info_line_def)

text \<open>A field: its name has no colon, and name and value have visible ends.\<close>

lemma info_line_pair:
  assumes "solid k" and "solid (k @ CHR '':'' # v)" and "CHR '':'' \<notin> set k" and "hd k \<noteq> CHR ''#''"
  shows "info_line U (k @ CHR '':'' # v @ [CR]) m = set_field k (TrimSpace U v) m"
proof -
  have "TrimSpace U (k @ CHR '':'' # v @ [CR]) = k @ CHR '':'' # v"
    using TrimSpace_trailing [OF assms(2), of "[CR]" U] by simp
  moreover have "\<not> HasPrefix (k @ CHR '':'' # v) ''#''"
    using assms(1,4) by (cases k) (simp_all add: solid_def)
  ultimately show ?thesis
    using assms by (simp add: info_line_def SplitN2_append TrimSpace_solid)
qed

lemma info_line_field:
  assumes "solid k" and "solid v" and "CHR '':'' \<notin> set k" and "hd k \<noteq> CHR ''#''"
  shows "info_line U (k @ CHR '':'' # v @ [CR]) m = set_field k v m"
  using info_line_pair [OF assms(1) _ assms(3,4), of v U m] solid_append [OF assms(1,2), of "'':''"] assms(2)
  by (simp add: TrimSpace_solid)

lemma info_text_lines:
  assumes "list_all (\<lambda>l. LF \<notin> set l) ls"
  shows "fold (info_line U) (Split LF (concat (map (\<lambda>l. l @ nl) ls))) m = fold (\<lambda>l. info_line U (l @ [CR])) ls m"
proof -
  have "concat (map (\<lambda>l. l @ nl) ls) = concat (map (\<lambda>l. l @ [LF]) (map (\<lambda>l. l @ [CR]) ls))"
    by (induction ls) (simp_all add: nl_def CR_def LF_def)
  moreover have "list_all (\<lambda>l. LF \<notin> set l) (map (\<lambda>l. l @ [CR]) ls)"
    using assms by (auto simp: list_all_iff CR_def LF_def)
  ultimately have "Split LF (concat (map (\<lambda>l. l @ nl) ls)) = map (\<lambda>l. l @ [CR]) ls @ [[]]"
    by (simp only: Split_lines)
  then show ?thesis by (simp add: fold_map info_line_blank comp_def)
qed

lemma set_keys_printed: "set_keys (''keys='' @ FormatInt n @ '',expires=0'') m = m\<lparr>nm_Keys := n\<rparr>"
proof -
  have "CHR '','' \<notin> set (FormatInt n)" using FormatInt_chars [of "CHR '',''" n] by (auto simp: is_digit_def)
  then have "Index (FormatInt n @ '',expires=0'') '','' = Some (length (FormatInt n))"
    by (rule Index_char)
  then show ?thesis
    using Index_here [of "''keys=''" "FormatInt n @ '',expires=0''"] by (simp add: set_keys_def)
qed

lemmas text_eval = solid_def visible_def is_ascii_def ascii_space_def set_field_def

lemma known_fields:
  assumes "solid v"
  shows "info_line U (''role:'' @ v @ [CR]) m = m\<lparr>nm_Role := v\<rparr>"
    and "info_line U (''master_host:'' @ v @ [CR]) m = m\<lparr>nm_MasterHost := v\<rparr>"
    and "info_line U (''master_link_status:'' @ v @ [CR]) m = m\<lparr>nm_LinkStatus := v\<rparr>"
    and "info_line U (''go_version:'' @ v @ [CR]) m = m"
  using info_line_field [of "''role''" v U m, OF _ assms] info_line_field [of "''master_host''" v U m, OF _ assms]
    info_line_field [of "''master_link_status''" v U m, OF _ assms] info_line_field [of "''go_version''" v U m, OF _ assms]
  by (simp_all add: text_eval)

lemma number_fields:
  "info_line U (''process_id:'' @ FormatInt n @ [CR]) m = m"
  "info_line U (''uptime_in_seconds:'' @ FormatInt n @ [CR]) m = m\<lparr>nm_UptimeSec := n\<rparr>"
  "info_line U (''slave_repl_offset:'' @ FormatInt n @ [CR]) m = m\<lparr>nm_Offset := n\<rparr>"
  "info_line U (''master_repl_offset:'' @ FormatInt n @ [CR]) m = m\<lparr>nm_Offset := n\<rparr>"
  "info_line U (''master_last_io_seconds_ago:'' @ FormatInt n @ [CR]) m = m"
  using info_line_field [of "''process_id''" "FormatInt n" U m, OF _ solid_FormatInt] info_line_field [of "''uptime_in_seconds''" "FormatInt n" U m, OF _ solid_FormatInt]
    info_line_field [of "''slave_repl_offset''" "FormatInt n" U m, OF _ solid_FormatInt] info_line_field [of "''master_repl_offset''" "FormatInt n" U m, OF _ solid_FormatInt]
    info_line_field [of "''master_last_io_seconds_ago''" "FormatInt n" U m, OF _ solid_FormatInt]
  by (simp_all add: text_eval)

subsection \<open>The text of \<open>INFO\<close>, line by line\<close>

definition repl_lines :: "int64 \<Rightarrow> ReplicaManager \<Rightarrow> string list" where
  "repl_lines now r =
     (if role r = RoleMaster then
        [''role:'' @ role r, ''connected_slaves:0'', ''master_repl_offset:'' @ FormatInt (masterOffset r)]
      else
        [''role:'' @ role r, ''master_host:'' @ masterAddr r,
         ''master_link_status:'' @ (if masterLinkUp r then ''up'' else ''down''),
         ''master_last_io_seconds_ago:'' @
           FormatInt (if 0 <s lastMasterAck r then Seconds_int64 (Since now (lastMasterAck r)) else 0),
         ''slave_repl_offset:'' @ FormatInt (masterOffset r)])"

definition info_lines :: "goenv \<Rightarrow> (nat \<Rightarrow> int64) \<Rightarrow> Handler \<Rightarrow> 'p proc \<Rightarrow> string list" where
  "info_lines G clk h p =
     [''# Server'', ''vortex_version:0.1.0'', ''go_version:'' @ go_version G, ''process_id:'' @ FormatInt (pid G),
      ''uptime_in_seconds:'' @ FormatInt (Seconds_int64 (Since (clk 0) (startTime h))), [], ''# Replication''] @
     repl_lines (clk 2) (rm (node p)) @
     [[], ''# Keyspace'', Stats (clk 3) (fst (proc_cache p)),
      ''db0:keys='' @ FormatInt (Store_Len (clk 1) (fst (proc_cache p))) @ '',expires=0'']"

lemma handleInfo_lines:
  assumes "has_repl h"
  shows "handleInfo G clk h p = NewBulkStringFromString (concat (map (\<lambda>l. l @ nl) (info_lines G clk h p)))"
  using assms by (simp add: handleInfo_def info_lines_def repl_lines_def rm_Info_def Let_def)

lemma fixed_lines:
  "info_line U (''# Server'' @ [CR]) m = m" "info_line U (''# Replication'' @ [CR]) m = m"
  "info_line U (''# Keyspace'' @ [CR]) m = m"
  "info_line U (''vortex_version:0.1.0'' @ [CR]) m = m" "info_line U (''connected_slaves:0'' @ [CR]) m = m"
  using info_line_comment [of "'' Server''" U m] info_line_comment [of "'' Replication''" U m]
    info_line_comment [of "'' Keyspace''" U m] info_line_field [of "''vortex_version''" "''0.1.0''" U m]
    info_line_field [of "''connected_slaves''" "''0''" U m]
  by (simp_all add: text_eval)

lemma stats_line: "info_line U (Stats now s @ [CR]) m = m"
proof -
  let ?v = "'' '' @ FormatInt (ShardCount (cfg s)) @ '', MaxKeysPerShard: '' @
     FormatInt (MaxKeysPerShard (cfg s)) @ '', Keys: '' @ FormatInt (Store_Len now s)"
  have k: "solid ''Shards''" by (simp add: text_eval)
  have "solid (''Shards'' @ CHR '':'' # ?v)"
    using solid_append [OF k solid_FormatInt, of "'': '' @ FormatInt (ShardCount (cfg s)) @ '', MaxKeysPerShard: '' @
     FormatInt (MaxKeysPerShard (cfg s)) @ '', Keys: ''" "Store_Len now s"] by simp
  from info_line_pair [OF k this, of U m] show ?thesis by (simp add: Stats_def set_field_def)
qed

lemma db0_line: "info_line U (''db0:keys='' @ FormatInt n @ '',expires=0'' @ [CR]) m = m\<lparr>nm_Keys := n\<rparr>"
proof -
  have "solid (''keys='' @ FormatInt n @ '',expires=0'')"
    by (rule solid_append) (simp_all add: text_eval)
  from info_line_field [OF _ this, of "''db0''" U m] show ?thesis
    using set_keys_printed [of n m] by (simp add: text_eval)
qed

lemma info_lines_LF:
  assumes "LF \<notin> set (go_version G)" and "LF \<notin> set (masterAddr (rm (node p)))"
    and "role (rm (node p)) \<in> {RoleMaster, RoleReplica}"
  shows "list_all (\<lambda>l. LF \<notin> set l) (info_lines G clk h p)"
  using assms FormatInt_no_newline
  by (auto simp: info_lines_def repl_lines_def Stats_def LF_def RoleMaster_def RoleReplica_def)

definition poll_result :: "string \<Rightarrow> string \<Rightarrow> (nat \<Rightarrow> int64) \<Rightarrow> Handler \<Rightarrow> 'p proc \<Rightarrow> NodeMetric" where
  "poll_result name a clk h p =
     (let r = rm (node p); replica = IsReadOnly r
      in \<lparr>nm_Name = name, nm_Addr = a, nm_Status = ''UP'', nm_Role = role r,
          nm_Keys = Store_Len (clk 1) (fst (proc_cache p)),
          nm_UptimeSec = Seconds_int64 (Since (clk 0) (startTime h)),
          nm_MasterHost = (if replica then masterAddr r else []),
          nm_LinkStatus = (if replica then if masterLinkUp r then ''up'' else ''down'' else []),
          nm_LagMs = 0, nm_Offset = masterOffset r, nm_Error = []\<rparr>)"

lemma fold_info_lines:
  assumes "solid (go_version G)" and "IsReadOnly (rm (node p)) \<Longrightarrow> solid (masterAddr (rm (node p)))"
    and "role (rm (node p)) \<in> {RoleMaster, RoleReplica}"
  shows "fold (\<lambda>l. info_line U (l @ [CR])) (info_lines G clk h p) ((down_metric name a)\<lparr>nm_Status := ''UP''\<rparr>) =
    poll_result name a clk h p"
proof -
  have r: "solid RoleMaster" "solid RoleReplica" "solid ''up''" "solid ''down''"
    by (simp_all add: text_eval RoleMaster_def RoleReplica_def)
  note evals = info_lines_def repl_lines_def fixed_lines [simplified] number_fields [simplified] db0_line [simplified]
    stats_line info_line_blank known_fields(4) [OF assms(1), simplified]
    known_fields(1) [OF r(1), simplified] known_fields(1) [OF r(2), simplified]
    known_fields(3) [OF r(3), simplified] known_fields(3) [OF r(4), simplified]
  show ?thesis
  proof (cases "role (rm (node p)) = RoleMaster")
    case True
    then show ?thesis by (simp add: evals down_metric_def poll_result_def IsReadOnly_def Let_def)
  next
    case False
    then have "role (rm (node p)) = RoleReplica" using assms(3) by simp
    moreover from this have "solid (masterAddr (rm (node p)))" using assms(2) by (simp add: IsReadOnly_def)
    ultimately show ?thesis
      by (simp add: evals known_fields(2) [simplified] down_metric_def poll_result_def IsReadOnly_def Let_def)
  qed
qed

text \<open>Numbers have at most 20 characters, so the text is short unless the two free texts are long.\<close>

lemma length_info_text:
  assumes "role (rm (node p)) \<in> {RoleMaster, RoleReplica}"
  shows "length (concat (map (\<lambda>l. l @ nl) (info_lines G clk h p))) \<le>
    500 + length (go_version G) + length (masterAddr (rm (node p)))"
proof -
  let ?r = "rm (node p)" and ?s = "fst (proc_cache p)"
  note len = length_FormatInt [of "pid G"] length_FormatInt [of "Seconds_int64 (Since (clk 0) (startTime h))"]
    length_FormatInt [of "masterOffset ?r"] length_FormatInt [of "ShardCount (cfg ?s)"]
    length_FormatInt [of "MaxKeysPerShard (cfg ?s)"] length_FormatInt [of "Store_Len (clk 3) ?s"]
    length_FormatInt [of "Store_Len (clk 1) ?s"] length_FormatInt [of "Seconds_int64 (Since (clk 2) (lastMasterAck ?r))"]
    length_FormatInt [of 0]
  show ?thesis
    using assms len by (auto simp: info_lines_def repl_lines_def Stats_def nl_def RoleMaster_def RoleReplica_def)
qed

subsection \<open>Properties\<close>

text \<open>
  C16. The dashboard shows the state of the node: what \<open>pollNode\<close> extracts from the bytes with
  which a server answers its \<open>INFO\<close> request is the server's role, key count, uptime, master,
  link status and offset, as long as the Go version and the master's address have visible
  ends and hold no line break.
\<close>

theorem dashboard_reads_info:
  assumes "has_repl h" and "role_inv (node p)" and "limit c = None"
    and "solid (go_version G)" and "LF \<notin> set (go_version G)" and "LF \<notin> set (masterAddr (rm (node p)))"
    and "IsReadOnly (rm (node p)) \<Longrightarrow> solid (masterAddr (rm (node p)))"
    and "Dispatch G P clk h (cmd_value [''INFO'']) p = Some (r, p')"
    and "length (go_version G) + length (masterAddr (rm (node p))) < 2 ^ 47"
  shows "p' = p \<and> pollNode U name a (Dialed c (encode r @ rest) fin) = Inr (poll_result name a clk h p)"
proof -
  let ?req = "Some [NewBulkStringFromString ''INFO'']"
  let ?text = "concat (map (\<lambda>l. l @ nl) (info_lines G clk h p))"
  have roles: "role (rm (node p)) \<in> {RoleMaster, RoleReplica}"
    using assms(2) by (auto simp: role_inv_def split: option.splits)
  have r: "r = NewBulkStringFromString ?text" "p' = p"
    using assms(8) handleInfo_lines [OF assms(1)]
    by (auto simp: Dispatch_def ToUpper_def is_ascii_def upper_ascii_def)
  have ok: "wire_ok r"
    using length_info_text [OF roles, of G clk h] assms(9) by (simp add: r wire_ok_FromString maxAlloc_def)
  have "writes (and_then (WriteArray ?req) Writer_Flush) (encode (NewArray ?req) @ [])"
    using writes_WriteValue(2) [of ?req] unfolding Writer_Flush_def
    by (intro writes_and_then writes_Flush) (simp add: New_defs)
  then obtain w' where "and_then (WriteArray ?req) Writer_Flush (NewWriter c) = (None, w')"
    using writes_NewWriter assms(3) by blast
  then obtain w where w: "WriteArray ?req (NewWriter c) = (None, w)" "Writer_Flush w = (None, w')"
    by (auto simp: and_then_def split: prod.splits option.splits)
  have b: "elems (Bulk r) = ?text" "?text \<noteq> []" by (simp_all add: r info_lines_def)
  have "pollNode U name a (Dialed c (encode r @ rest) fin) =
      Inr (fold (info_line U) (Split LF ?text) ((down_metric name a)\<lparr>nm_Status := ''UP''\<rparr>))"
    unfolding pollNode_def Let_def dial.case w ReadValue_encode [OF ok] prod.case option.case read.case b(1)
    by (simp only: b(2) if_False)
  also have "\<dots> = Inr (poll_result name a clk h p)"
    using info_text_lines [OF info_lines_LF [OF assms(5,6) roles]] fold_info_lines [OF assms(4,7) roles] by simp
  finally show ?thesis using r(2) by simp
qed

definition demo_trim :: unicode_trim where
  "demo_trim = \<lparr>trim_func = id, trim_right_func = id\<rparr>"

theorem dashboard_reads_info_witness:
  "\<exists>r. Dispatch demo_G lruPolicy_methods (\<lambda>_. 1) demo_handler (cmd_value [''INFO'']) demo_proc = Some (r, demo_proc) \<and>
    pollNode demo_trim ''n'' '':6379'' (Dialed demo_conn (encode r @ []) EOF) =
      Inr (poll_result ''n'' '':6379'' (\<lambda>_. 1) demo_handler demo_proc)"
proof -
  obtain r p' where d: "Dispatch demo_G lruPolicy_methods (\<lambda>_. 1) demo_handler (cmd_value [''INFO'']) demo_proc = Some (r, p')"
    by (simp add: Dispatch_def ToUpper_def is_ascii_def upper_ascii_def)
  have "p' = demo_proc \<and> pollNode demo_trim ''n'' '':6379'' (Dialed demo_conn (encode r @ []) EOF) =
      Inr (poll_result ''n'' '':6379'' (\<lambda>_. 1) demo_handler demo_proc)"
  proof (rule dashboard_reads_info [OF _ _ _ _ _ _ _ d])
    show "role_inv (node demo_proc)" using demo_proc_ok by (simp add: proc_ok_def)
  qed (simp_all add: demo_handler_def NewHandler_def demo_conn_def demo_G_def demo_role NewReplicaManager_def
      IsReadOnly_def text_eval LF_def)
  with d show ?thesis by blast
qed

text \<open>
  The list of nodes is read as it is written: names and addresses with visible ends, the
  names without \<open>=\<close> and both without commas, joined as \<open>name=addr,name=addr\<close>, give back exactly
  these targets in order.
\<close>

theorem targets_roundtrip:
  assumes "ts \<noteq> []"
    and "list_all (\<lambda>t. solid (target_name t) \<and> solid (target_addr t) \<and> CHR ''='' \<notin> set (target_name t) \<and>
      CHR '','' \<notin> set (target_name t @ target_addr t)) ts"
  shows "parseNodeTargets U (join (CHR '','') (map (\<lambda>t. target_name t @ ''='' @ target_addr t) ts)) = ts"
proof -
  have "parse_targets U i (map (\<lambda>t. target_name t @ ''='' @ target_addr t) ts) = ts" for i
    using assms(2)
  proof (induction ts arbitrary: i)
    case (Cons t ts)
    then have "solid (target_name t @ ''='' @ target_addr t)" by (intro solid_append) simp_all
    with Cons show ?case by (simp add: TrimSpace_solid SplitN2_append)
  qed simp
  moreover have "list_all (\<lambda>s. CHR '','' \<notin> set s) (map (\<lambda>t. target_name t @ ''='' @ target_addr t) ts)"
    using assms(2) by (auto simp: list_all_iff)
  ultimately show ?thesis using assms(1) by (simp add: parseNodeTargets_def Split_join)
qed

theorem targets_roundtrip_witness:
  "parseNodeTargets demo_trim ''m=h:1,r=h:2'' =
    [\<lparr>target_name = ''m'', target_addr = ''h:1''\<rparr>, \<lparr>target_name = ''r'', target_addr = ''h:2''\<rparr>]"
  using targets_roundtrip [of "[\<lparr>target_name = ''m'', target_addr = ''h:1''\<rparr>, \<lparr>target_name = ''r'', target_addr = ''h:2''\<rparr>]" demo_trim]
  by (simp add: text_eval)

text \<open>Every goroutine writes its own place.\<close>

lemma place_result_simps:
  "place_result poll targets i (Inl p) = Inl p"
  "poll (targets ! i) = Inl p \<Longrightarrow> place_result poll targets i (Inr rs) = Inl p"
  "poll (targets ! i) = Inr m \<Longrightarrow> place_result poll targets i (Inr rs) = Inr (rs[i := m])"
  by (simp_all add: place_result_def)

lemma fold_place_result:
  assumes "map poll targets = map Inr ms" and "set is \<subseteq> {..<length targets}" and "length rs = length targets"
  shows "\<exists>rs'. fold (place_result poll targets) is (Inr rs) = Inr rs' \<and> length rs' = length targets \<and>
    (\<forall>i < length targets. rs' ! i = (if i \<in> set is then ms ! i else rs ! i))"
  using assms(2,3)
proof (induction "is" arbitrary: rs)
  case (Cons a "is")
  have len: "length ms = length targets" using assms(1) by (metis length_map)
  have "poll (targets ! a) = Inr (ms ! a)"
    using arg_cong [OF assms(1), of "\<lambda>xs. xs ! a"] Cons.prems(1) len by simp
  with Cons.IH [of "rs[a := ms ! a]"] Cons.prems show ?case by (auto simp: place_result_simps nth_list_update)
qed simp

lemma topology_places:
  assumes "set order = {..<length targets}" and "map poll targets = map Inr ms"
  shows "topology poll order targets = Inr ms"
proof -
  have len: "length ms = length targets" using assms(2) by (metis length_map)
  obtain rs' where rs': "topology poll order targets = Inr rs'" "length rs' = length targets"
      "\<forall>i < length targets. rs' ! i = (if i \<in> set order then ms ! i else rs' ! i)"
    using fold_place_result [OF assms(2), of order "replicate (length targets) _"] assms(1)
    unfolding topology_def by (metis length_replicate order_refl)
  then have "rs' = ms" using len assms(1) by (intro nth_equalityI) auto
  with rs'(1) show ?thesis by simp
qed

text \<open>
  The order in which the polling goroutines finish does not matter: once each has
  finished, the answer holds the result of every node at the node's place.
\<close>

theorem topology_order_irrelevant:
  assumes "set order = {..<length targets}" and "map poll targets = map Inr ms"
  shows "topology poll order targets = Inr ms"
  using assms by (rule topology_places)

text \<open>One node whose answer makes the reader panic takes the dashboard down.\<close>

lemma fold_place_panic: "fold (place_result poll targets) is (Inl p) = Inl p"
  by (induction "is") (simp_all add: place_result_simps)

lemma topology_panics:
  assumes "i \<in> set order" and "poll (targets ! i) = Inl p"
  shows "\<exists>q. topology poll order targets = Inl q"
proof -
  have "\<exists>q. fold (place_result poll targets) order r = Inl q" for r
    using assms(1)
  proof (induction order arbitrary: r)
    case (Cons a order)
    show ?case
    proof (cases "a = i")
      case True
      with assms(2) show ?thesis by (cases r) (simp_all add: place_result_simps fold_place_panic)
    next
      case False
      with Cons show ?thesis by simp
    qed
  qed simp
  then show ?thesis by (simp add: topology_def)
qed

end
