(* ===== verification/Go_Json.thy ===== *)
theory Go_Json
  imports Go_Text
begin

text \<open>
  JSON as the dashboard uses it: the text that Go's \<open>encoding/json\<close> produces for strings,
  integers, arrays and objects, and what JavaScript's \<open>JSON.parse\<close> reads from such a text. The
  encoder escapes quotes, control characters and the characters that HTML gives a meaning, and
  replaces bytes that are not UTF-8 by the replacement character. Strings are byte sequences
  on both sides; a JavaScript string is represented by its UTF-8 encoding.

  The main fact is the round trip: parsing the text of a value gives the value, with its
  strings repaired where they were not UTF-8.
\<close>

subsection \<open>UTF-8\<close>

definition in_range :: "nat \<Rightarrow> nat \<Rightarrow> char \<Rightarrow> bool" where
  "in_range lo hi c \<longleftrightarrow> lo \<le> of_char c \<and> of_char c \<le> hi"

text \<open>The ranges of the second byte after a first byte, and the number of bytes, as in \<open>unicode/utf8\<close>.\<close>

definition utf8_first :: "char \<Rightarrow> (nat \<times> nat \<times> nat) option" where
  "utf8_first c =
     (if in_range 0xC2 0xDF c then Some (2, 0x80, 0xBF)
      else if in_range 0xE0 0xE0 c then Some (3, 0xA0, 0xBF)
      else if in_range 0xED 0xED c then Some (3, 0x80, 0x9F)
      else if in_range 0xE1 0xEF c then Some (3, 0x80, 0xBF)
      else if in_range 0xF0 0xF0 c then Some (4, 0x90, 0xBF)
      else if in_range 0xF1 0xF3 c then Some (4, 0x80, 0xBF)
      else if in_range 0xF4 0xF4 c then Some (4, 0x80, 0x8F)
      else None)"

text \<open>The bytes of the character at the head of a text, \<open>None\<close> where \<open>DecodeRune\<close> finds no valid encoding.\<close>

definition utf8_rune :: "string \<Rightarrow> string option" where
  "utf8_rune s =
     (case s of
        [] \<Rightarrow> None
      | c # cs \<Rightarrow>
          if is_ascii c then Some [c]
          else case utf8_first c of
                 None \<Rightarrow> None
               | Some (n, lo, hi) \<Rightarrow>
                   if n \<le> length s \<and> in_range lo hi (s ! 1) \<and> list_all (in_range 0x80 0xBF) (drop 2 (take n s))
                   then Some (take n s) else None)"

definition replacement :: string where
  "replacement = [CHR 0xEF, CHR 0xBF, CHR 0xBD]"

lemma utf8_rune_prefix:
  assumes "utf8_rune s = Some r"
  shows "r \<noteq> []" "s = r @ drop (length r) s"
proof -
  have "take (length r) s = r" "r \<noteq> []"
    using assms by (auto simp: utf8_rune_def utf8_first_def split: list.splits if_splits option.splits prod.splits)
  then show "r \<noteq> []" "s = r @ drop (length r) s" by (metis append_take_drop_id)+
qed

text \<open>A text with every byte that is not part of a valid character replaced.\<close>

function to_utf8 :: "string \<Rightarrow> string" where
  "to_utf8 s =
     (if s = [] then []
      else case utf8_rune s of
             None \<Rightarrow> replacement @ to_utf8 (tl s)
           | Some r \<Rightarrow> r @ to_utf8 (drop (length r) s))"
  by pat_completeness auto
termination
  by (relation "measure length") (auto dest: utf8_rune_prefix(1))

declare to_utf8.simps [simp del]

subsection \<open>Encoding\<close>

definition hex_digit :: "nat \<Rightarrow> char" where
  "hex_digit n = (if n < 10 then digit_char n else char_of (87 + n))"

definition html_unsafe :: "char \<Rightarrow> bool" where
  "html_unsafe c \<longleftrightarrow> of_char c < (32 :: nat) \<or> c \<in> {CHR 0x22, CHR 0x5C, CHR ''<'', CHR ''>'', CHR ''&''}"

definition escape_ascii :: "char \<Rightarrow> string" where
  "escape_ascii c =
     (if \<not> html_unsafe c then [c]
      else if c = CHR 0x5C \<or> c = CHR 0x22 then [CHR 0x5C, c]
      else if c = CHR 0x08 then [CHR 0x5C, CHR ''b'']
      else if c = CHR 0x0C then [CHR 0x5C, CHR ''f'']
      else if c = CHR 0x0A then [CHR 0x5C, CHR ''n'']
      else if c = CHR 0x0D then [CHR 0x5C, CHR ''r'']
      else if c = CHR 0x09 then [CHR 0x5C, CHR ''t'']
      else [CHR 0x5C, CHR ''u'', CHR ''0'', CHR ''0'', hex_digit (of_char c div 16), hex_digit (of_char c mod 16)])"

definition escape_rune :: "string \<Rightarrow> string" where
  "escape_rune r =
     (if r = [CHR 0xE2, CHR 0x80, CHR 0xA8] then CHR 0x5C # ''u2028''
      else if r = [CHR 0xE2, CHR 0x80, CHR 0xA9] then CHR 0x5C # ''u2029''
      else case r of [c] \<Rightarrow> escape_ascii c | _ \<Rightarrow> r)"

text \<open>\<open>appendString\<close> with HTML escaping, without the quotes.\<close>

function json_chars :: "string \<Rightarrow> string" where
  "json_chars s =
     (if s = [] then []
      else case utf8_rune s of
             None \<Rightarrow> CHR 0x5C # ''ufffd'' @ json_chars (tl s)
           | Some r \<Rightarrow> escape_rune r @ json_chars (drop (length r) s))"
  by pat_completeness auto
termination
  by (relation "measure length") (auto dest: utf8_rune_prefix(1))

declare json_chars.simps [simp del]

datatype json = JStr string | JNum int | JArr "json list" | JObj "(string \<times> json) list"

definition quote :: "string \<Rightarrow> string" where
  "quote s = CHR 0x22 # json_chars s @ [CHR 0x22]"

definition int_text :: "int \<Rightarrow> string" where
  "int_text n = (if n < 0 then CHR ''-'' # format_nat (nat (- n)) else format_nat (nat n))"

fun comma_sep :: "string list \<Rightarrow> string" where
  "comma_sep [] = []"
| "comma_sep [s] = s"
| "comma_sep (s # t # ss) = s @ CHR '','' # comma_sep (t # ss)"

fun json_text :: "json \<Rightarrow> string" where
  "json_text (JStr s) = quote s"
| "json_text (JNum n) = int_text n"
| "json_text (JArr vs) = CHR ''['' # comma_sep (map json_text vs) @ '']''"
| "json_text (JObj fs) = CHR ''{'' # comma_sep (map (\<lambda>(k, v). quote k @ CHR '':'' # json_text v) fs) @ ''}''"

subsection \<open>Parsing\<close>

definition hex_val :: "char \<Rightarrow> nat option" where
  "hex_val c =
     (if is_digit c then Some (digit_val c)
      else if in_range 97 102 c then Some (of_char c - 87)
      else if in_range 65 70 c then Some (of_char c - 55) else None)"

text \<open>The UTF-8 encoding of a code point below \<open>0x10000\<close>.\<close>

definition utf8_encode :: "nat \<Rightarrow> string" where
  "utf8_encode n =
     (if n < 0x80 then [char_of n]
      else if n < 0x800 then [char_of (0xC0 + n div 64), char_of (0x80 + n mod 64)]
      else [char_of (0xE0 + n div 4096), char_of (0x80 + n div 64 mod 64), char_of (0x80 + n mod 64)])"

text \<open>
  The rest of a string after its opening quote. Escaped surrogates, which the encoder never
  writes, are not read.
\<close>

fun parse_chars :: "string \<Rightarrow> (string \<times> string) option" where
  "parse_chars [] = None"
| "parse_chars (c # s) =
     (if c = CHR 0x22 then Some ([], s)
      else if c = CHR 0x5C then
        (case s of
           [] \<Rightarrow> None
         | e # s' \<Rightarrow>
             if e \<in> {CHR 0x22, CHR 0x5C, CHR ''/''} then map_option (\<lambda>(t, rest). (e # t, rest)) (parse_chars s')
             else if e = CHR ''b'' then map_option (\<lambda>(t, rest). (CHR 0x08 # t, rest)) (parse_chars s')
             else if e = CHR ''f'' then map_option (\<lambda>(t, rest). (CHR 0x0C # t, rest)) (parse_chars s')
             else if e = CHR ''n'' then map_option (\<lambda>(t, rest). (CHR 0x0A # t, rest)) (parse_chars s')
             else if e = CHR ''r'' then map_option (\<lambda>(t, rest). (CHR 0x0D # t, rest)) (parse_chars s')
             else if e = CHR ''t'' then map_option (\<lambda>(t, rest). (CHR 0x09 # t, rest)) (parse_chars s')
             else if e = CHR ''u'' then
               (case s' of
                  a # b # c' # d # s'' \<Rightarrow>
                    (case (hex_val a, hex_val b, hex_val c', hex_val d) of
                       (Some w, Some x, Some y, Some z) \<Rightarrow>
                         (let n = ((w * 16 + x) * 16 + y) * 16 + z
                          in if 0xD800 \<le> n \<and> n \<le> 0xDFFF then None
                             else map_option (\<lambda>(t, rest). (utf8_encode n @ t, rest)) (parse_chars s''))
                     | _ \<Rightarrow> None)
                | _ \<Rightarrow> None)
             else None)
      else if of_char c < (32 :: nat) then None
      else map_option (\<lambda>(t, rest). (c # t, rest)) (parse_chars s))"

definition digits_val :: "string \<Rightarrow> nat" where
  "digits_val ds = fold (\<lambda>c n. 10 * n + digit_val c) ds 0"

text \<open>A number without fraction and exponent; others, which the encoder never writes, are not read.\<close>

definition parse_digits :: "string \<Rightarrow> (nat \<times> string) option" where
  "parse_digits s =
     (let ds = takeWhile is_digit s; rest = dropWhile is_digit s
      in if ds = [] \<or> hd ds = CHR ''0'' \<and> 1 < length ds \<or> hd_opt rest \<in> {Some (CHR ''.''), Some (CHR ''e''), Some (CHR ''E'')}
         then None else Some (digits_val ds, rest))"

text \<open>
  Values without blanks between their parts; \<open>fuel\<close> bounds the number of calls, and the length
  of the text is enough.
\<close>

fun parse_value :: "nat \<Rightarrow> string \<Rightarrow> (json \<times> string) option"
  and parse_items :: "nat \<Rightarrow> string \<Rightarrow> (json list \<times> string) option"
  and parse_fields :: "nat \<Rightarrow> string \<Rightarrow> ((string \<times> json) list \<times> string) option" where
  "parse_value 0 s = None"
| "parse_value (Suc fuel) [] = None"
| "parse_value (Suc fuel) (c # s) =
     (if c = CHR 0x22 then map_option (\<lambda>(t, rest). (JStr t, rest)) (parse_chars s)
      else if c = CHR ''['' then
        (if hd_opt s = Some (CHR '']'') then Some (JArr [], tl s)
         else map_option (\<lambda>(vs, rest). (JArr vs, rest)) (parse_items fuel s))
      else if c = CHR ''{'' then
        (if hd_opt s = Some (CHR ''}'') then Some (JObj [], tl s)
         else map_option (\<lambda>(fs, rest). (JObj fs, rest)) (parse_fields fuel s))
      else if c = CHR ''-'' then map_option (\<lambda>(n, rest). (JNum (- int n), rest)) (parse_digits s)
      else map_option (\<lambda>(n, rest). (JNum (int n), rest)) (parse_digits (c # s)))"
| "parse_items 0 s = None"
| "parse_items (Suc fuel) s =
     (case parse_value fuel s of
        Some (v, c # rest) \<Rightarrow>
          if c = CHR '','' then map_option (\<lambda>(vs, r). (v # vs, r)) (parse_items fuel rest)
          else if c = CHR '']'' then Some ([v], rest) else None
      | _ \<Rightarrow> None)"
| "parse_fields 0 s = None"
| "parse_fields (Suc fuel) s =
     (case s of
        [] \<Rightarrow> None
      | q # t \<Rightarrow>
          if q \<noteq> CHR 0x22 then None
          else case parse_chars t of
                 Some (k, c # r) \<Rightarrow>
                   if c \<noteq> CHR '':'' then None
                   else (case parse_value fuel r of
                           Some (v, c' # rest) \<Rightarrow>
                             if c' = CHR '','' then map_option (\<lambda>(fs, r'). ((k, v) # fs, r')) (parse_fields fuel rest)
                             else if c' = CHR ''}'' then Some ([(k, v)], rest) else None
                         | _ \<Rightarrow> None)
               | _ \<Rightarrow> None)"

definition JSON_parse :: "string \<Rightarrow> json option" where
  "JSON_parse s =
     (case parse_value (Suc (length s)) s of
        Some (v, rest) \<Rightarrow>
          if list_all (\<lambda>c. c \<in> {CHR '' '', CHR 0x09, CHR 0x0A, CHR 0x0D}) rest then Some v else None
      | None \<Rightarrow> None)"

subsection \<open>Strings are read back\<close>

abbreviation prepend :: "string \<Rightarrow> (string \<times> string) option \<Rightarrow> (string \<times> string) option" where
  "prepend r \<equiv> map_option (\<lambda>(t, rest). (r @ t, rest))"

lemma hex_val_hex_digit: "n < 16 \<Longrightarrow> hex_val (hex_digit n) = Some n"
  by (cases "n < 10") (simp_all add: hex_val_def hex_digit_def in_range_def is_digit_def [of "char_of _"])

lemma hex_val_literals:
  "hex_val (CHR ''0'') = Some 0" "hex_val (CHR ''2'') = Some 2" "hex_val (CHR ''8'') = Some 8" "hex_val (CHR ''9'') = Some 9"
  "hex_val (CHR ''f'') = Some 15" "hex_val (CHR ''d'') = Some 13"
  by (simp_all add: hex_val_def is_digit_def digit_val_def in_range_def)

lemma utf8_encode_literals:
  "utf8_encode 0x2028 = [CHR 0xE2, CHR 0x80, CHR 0xA8]" "utf8_encode 0x2029 = [CHR 0xE2, CHR 0x80, CHR 0xA9]"
  "utf8_encode 0xFFFD = replacement"
  by (simp_all add: utf8_encode_def replacement_def char_of_eq_iff take_bit_eq_mod)

lemma parse_unicode:
  assumes "hex_val a = Some w" "hex_val b = Some x" "hex_val c = Some y" "hex_val d = Some z"
    and "n = ((w * 16 + x) * 16 + y) * 16 + z" and "\<not> (0xD800 \<le> n \<and> n \<le> 0xDFFF)"
  shows "parse_chars (CHR 0x5C # CHR ''u'' # a # b # c # d # t) = prepend (utf8_encode n) (parse_chars t)"
  using assms by (auto simp: Let_def)

lemma parse_ascii:
  assumes "is_ascii c"
  shows "parse_chars (escape_ascii c @ t) = prepend [c] (parse_chars t)"
proof (cases "html_unsafe c \<and> c \<notin> {CHR 0x5C, CHR 0x22, CHR 0x08, CHR 0x0C, CHR 0x0A, CHR 0x0D, CHR 0x09}")
  case True
  let ?n = "of_char c :: nat"
  have n: "?n < 128" using assms by (simp add: is_ascii_def)
  have eq: "?n div 16 * 16 + ?n mod 16 = ?n" by simp
  have "parse_chars (CHR 0x5C # CHR ''u'' # CHR ''0'' # CHR ''0'' # hex_digit (?n div 16) # hex_digit (?n mod 16) # t) =
      prepend (utf8_encode ?n) (parse_chars t)"
    using n eq
    by (intro parse_unicode [OF hex_val_literals(1) hex_val_literals(1) hex_val_hex_digit hex_val_hex_digit]) auto
  moreover have "utf8_encode ?n = [c]" using n by (simp add: utf8_encode_def)
  ultimately show ?thesis using True by (simp add: escape_ascii_def)
next
  case False
  then show ?thesis by (auto simp: escape_ascii_def html_unsafe_def)
qed

lemma parse_raw:
  assumes "list_all (\<lambda>c. \<not> is_ascii c) r"
  shows "parse_chars (r @ t) = prepend r (parse_chars t)"
  using assms
proof (induction r)
  case (Cons c r)
  then have "c \<noteq> CHR 0x22" "c \<noteq> CHR 0x5C" "\<not> of_char c < (32 :: nat)" by (auto simp: is_ascii_def)
  with Cons show ?case by (cases "parse_chars t") auto
qed (cases "parse_chars t"; auto)

lemma utf8_rune_cases:
  assumes "utf8_rune s = Some r"
  obtains c where "r = [c]" "is_ascii c" | "list_all (\<lambda>c. \<not> is_ascii c) r" "2 \<le> length r"
proof (cases s)
  case (Cons c cs)
  show thesis
  proof (cases "is_ascii c")
    case True
    with assms Cons show thesis by (intro that(1) [of c]) (auto simp: utf8_rune_def)
  next
    case False
    with assms Cons obtain n lo hi where n: "utf8_first c = Some (n, lo, hi)" "n \<le> length s" "in_range lo hi (s ! 1)"
        "list_all (in_range 0x80 0xBF) (drop 2 (take n s))" "r = take n s"
      by (auto simp: utf8_rune_def split: option.splits if_splits)
    have lo: "0x80 \<le> lo" "2 \<le> n" using n(1) by (auto simp: utf8_first_def split: if_splits)
    have "r = c # s ! 1 # drop 2 r"
      using n(2,5) lo(2) Cons by (cases cs; cases n; cases "n - 1") auto
    moreover have "\<not> is_ascii (s ! 1)" using n(3) lo(1) by (auto simp: in_range_def is_ascii_def)
    moreover have "list_all (\<lambda>c. \<not> is_ascii c) (drop 2 r)"
      using n(4,5) by (auto simp: list_all_iff in_range_def is_ascii_def)
    ultimately have "list_all (\<lambda>c. \<not> is_ascii c) r" using False by (metis list.pred_inject(2))
    then show thesis using that(2) n(2,5) lo(2) by simp
  qed
qed (use assms in \<open>simp add: utf8_rune_def\<close>)

lemma parse_rune:
  assumes "utf8_rune s = Some r"
  shows "parse_chars (escape_rune r @ t) = prepend r (parse_chars t)"
proof -
  have u: "parse_chars (CHR 0x5C # ''u2028'' @ t) = prepend [CHR 0xE2, CHR 0x80, CHR 0xA8] (parse_chars t)"
    "parse_chars (CHR 0x5C # ''u2029'' @ t) = prepend [CHR 0xE2, CHR 0x80, CHR 0xA9] (parse_chars t)"
    using parse_unicode [OF hex_val_literals(2,1,2,3) refl, of t] parse_unicode [OF hex_val_literals(2,1,2,4) refl, of t]
    by (simp_all add: utf8_encode_literals del: parse_chars.simps)
  show ?thesis
  proof (cases rule: utf8_rune_cases [OF assms])
    case (1 c)
    then show ?thesis using parse_ascii by (simp add: escape_rune_def)
  next
    case 2
    then have "escape_rune r = r \<or> r = [CHR 0xE2, CHR 0x80, CHR 0xA8] \<or> r = [CHR 0xE2, CHR 0x80, CHR 0xA9]"
      by (auto simp: escape_rune_def split: list.splits)
    with u parse_raw [OF 2(1)] show ?thesis by (auto simp: escape_rune_def)
  qed
qed

theorem parse_json_chars: "parse_chars (json_chars s @ CHR 0x22 # rest) = Some (to_utf8 s, rest)"
proof (induction s rule: json_chars.induct)
  case (1 s)
  show ?case
  proof (cases "s = []")
    case False
    show ?thesis
    proof (cases "utf8_rune s")
      case None
      have "parse_chars (CHR 0x5C # ''ufffd'' @ t) = prepend replacement (parse_chars t)" for t
        using parse_unicode [OF hex_val_literals(5,5,5,6) refl, of t]
        by (simp add: utf8_encode_literals del: parse_chars.simps)
      with None False 1(1) show ?thesis by (subst json_chars.simps, subst to_utf8.simps) simp
    next
      case (Some r)
      with False 1(2) parse_rune [OF Some] show ?thesis by (subst json_chars.simps, subst to_utf8.simps) simp
    qed
  qed (simp add: json_chars.simps to_utf8.simps)
qed

subsection \<open>Values are read back\<close>

lemma digits_val_append: "digits_val (ds @ [c]) = 10 * digits_val ds + digit_val c"
  by (simp add: digits_val_def)

lemma digits_val_format_nat: "digits_val (format_nat n) = n"
proof (induction n rule: format_nat.induct)
  case (1 n)
  show ?case
  proof (cases "n < 10")
    case True
    then show ?thesis by (subst format_nat.simps) (simp add: digits_val_def)
  next
    case False
    with 1 show ?thesis by (subst format_nat.simps) (simp add: digits_val_append)
  qed
qed

text \<open>What may follow a number.\<close>

definition num_end :: "string \<Rightarrow> bool" where
  "num_end rest \<longleftrightarrow> (case rest of [] \<Rightarrow> True | c # _ \<Rightarrow> \<not> is_digit c \<and> c \<notin> {CHR ''.'', CHR ''e'', CHR ''E''})"

lemma parse_format_nat_digits:
  assumes "num_end rest"
  shows "parse_digits (format_nat n @ rest) = Some (n, rest)"
proof -
  have ds: "\<And>c. c \<in> set (format_nat n) \<Longrightarrow> is_digit c" by (rule format_nat_digits)
  have "takeWhile is_digit (format_nat n @ rest) = format_nat n" "dropWhile is_digit (format_nat n @ rest) = rest"
    using assms ds by (cases rest; simp add: num_end_def)+
  moreover have "\<not> (hd (format_nat n) = CHR ''0'' \<and> 1 < length (format_nat n))"
  proof (cases "n = 0")
    case True
    then show ?thesis by (subst (2) format_nat.simps) simp
  qed (simp add: format_nat_leading)
  moreover have "hd_opt rest \<notin> {Some (CHR ''.''), Some (CHR ''e''), Some (CHR ''E'')}"
    using assms by (cases rest) (auto simp: num_end_def)
  ultimately show ?thesis by (auto simp: parse_digits_def digits_val_format_nat Let_def)
qed

fun fuel_of :: "json \<Rightarrow> nat" where
  "fuel_of (JArr vs) = Suc (sum_list (map (\<lambda>v. Suc (fuel_of v)) vs))"
| "fuel_of (JObj fs) = Suc (sum_list (map (\<lambda>(k, v). Suc (fuel_of v)) fs))"
| "fuel_of _ = 1"

text \<open>A value with its strings repaired.\<close>

fun clean :: "json \<Rightarrow> json" where
  "clean (JStr s) = JStr (to_utf8 s)"
| "clean (JNum n) = JNum n"
| "clean (JArr vs) = JArr (map clean vs)"
| "clean (JObj fs) = JObj (map (\<lambda>(k, v). (to_utf8 k, clean v)) fs)"

abbreviation reads_back :: "json \<Rightarrow> bool" where
  "reads_back v \<equiv> \<forall>fuel rest. fuel_of v \<le> fuel \<longrightarrow> num_end rest \<longrightarrow> parse_value fuel (json_text v @ rest) = Some (clean v, rest)"

lemma parse_items_text:
  assumes "vs \<noteq> []" and "\<And>v. v \<in> set vs \<Longrightarrow> reads_back v" and "sum_list (map (\<lambda>v. Suc (fuel_of v)) vs) \<le> fuel"
  shows "parse_items fuel (comma_sep (map json_text vs) @ CHR '']'' # rest) = Some (map clean vs, rest)"
  using assms
proof (induction vs arbitrary: fuel)
  case (Cons v vs)
  then obtain f where f: "fuel = Suc f" "fuel_of v \<le> f" "sum_list (map (\<lambda>v. Suc (fuel_of v)) vs) \<le> f" by (cases fuel) auto
  have v: "parse_value f (json_text v @ c # t) = Some (clean v, c # t)" if "c \<in> {CHR '','', CHR '']''}" for c t
    using Cons.prems(2) [of v] f(2) that by (auto simp: num_end_def is_digit_def)
  show ?case
  proof (cases vs)
    case Nil
    with f v show ?thesis by simp
  next
    case (Cons v' vs')
    then have "parse_items f (comma_sep (map json_text vs) @ CHR '']'' # rest) = Some (map clean vs, rest)"
      using Cons.IH Cons.prems(2) f(3) by simp
    with Cons f v show ?thesis by simp
  qed
qed simp

lemma parse_fields_text:
  assumes "fs \<noteq> []" and "\<And>k v. (k, v) \<in> set fs \<Longrightarrow> reads_back v" and "sum_list (map (\<lambda>(k, v). Suc (fuel_of v)) fs) \<le> fuel"
  shows "parse_fields fuel (comma_sep (map (\<lambda>(k, v). quote k @ CHR '':'' # json_text v) fs) @ CHR ''}'' # rest) =
    Some (map (\<lambda>(k, v). (to_utf8 k, clean v)) fs, rest)"
  using assms
proof (induction fs arbitrary: fuel)
  case (Cons kv fs)
  obtain k v where kv: "kv = (k, v)" by (cases kv)
  with Cons.prems obtain f where f: "fuel = Suc f" "fuel_of v \<le> f" "sum_list (map (\<lambda>(k, v). Suc (fuel_of v)) fs) \<le> f"
    by (cases fuel) auto
  have v: "parse_value f (json_text v @ c # t) = Some (clean v, c # t)" if "c \<in> {CHR '','', CHR ''}''}" for c t
    using Cons.prems(2) [of k v] kv f(2) that by (auto simp: num_end_def is_digit_def)
  have k: "quote k @ t = CHR 0x22 # json_chars k @ CHR 0x22 # t" for t by (simp add: quote_def)
  have IH: "parse_fields f (comma_sep (map (\<lambda>(k, v). quote k @ CHR '':'' # json_text v) fs) @ CHR ''}'' # rest) =
      Some (map (\<lambda>(k, v). (to_utf8 k, clean v)) fs, rest)" if "fs \<noteq> []"
    using Cons.prems(2) by (intro Cons.IH [OF that _ f(3)]) (meson list.set_intros(2))
  show ?case
  proof (cases fs)
    case Nil
    with f v kv show ?thesis by (simp add: k parse_json_chars)
  next
    case (Cons kv' fs')
    with IH f v kv show ?thesis by (simp add: k parse_json_chars)
  qed
qed simp

lemma format_nat_Cons:
  obtains c cs where "format_nat n = c # cs" "is_digit c"
  using format_nat_digits [of "hd (format_nat n)" n] format_nat_nonempty [of n] by (cases "format_nat n") auto

lemma json_text_start: "hd_opt (json_text v @ t) \<notin> {Some (CHR '']''), Some (CHR ''}''), None}"
proof (cases v)
  case (JNum n)
  obtain c cs where "format_nat (nat n) = c # cs" "is_digit c" by (rule format_nat_Cons)
  with JNum show ?thesis by (auto simp: int_text_def is_digit_def)
qed (auto simp: quote_def)

lemma parse_value_text: "reads_back v"
proof (induction v)
  case (JStr s)
  show ?case
  proof (intro allI impI)
    fix fuel :: nat and rest :: string
    assume "fuel_of (JStr s) \<le> fuel"
    then show "parse_value fuel (json_text (JStr s) @ rest) = Some (clean (JStr s), rest)"
      by (cases fuel) (simp_all add: quote_def parse_json_chars)
  qed
next
  case (JNum n)
  show ?case
  proof (intro allI impI)
    fix fuel :: nat and rest :: string
    assume fuel: "fuel_of (JNum n) \<le> fuel" and rest: "num_end rest"
    obtain c cs where c: "format_nat (nat n) = c # cs" "is_digit c" by (rule format_nat_Cons)
    then have "c \<notin> {CHR 0x22, CHR ''['', CHR ''{'', CHR ''-''}" by (auto simp: is_digit_def)
    with fuel c parse_format_nat_digits [OF rest, of "nat n"] parse_format_nat_digits [OF rest, of "nat (- n)"]
    show "parse_value fuel (json_text (JNum n) @ rest) = Some (clean (JNum n), rest)"
      by (cases fuel) (auto simp: int_text_def)
  qed
next
  case (JArr vs)
  show ?case
  proof (intro allI impI)
    fix fuel :: nat and rest :: string
    assume fuel: "fuel_of (JArr vs) \<le> fuel"
    then obtain f where f: "fuel = Suc f" "sum_list (map (\<lambda>v. Suc (fuel_of v)) vs) \<le> f" by (cases fuel) auto
    show "parse_value fuel (json_text (JArr vs) @ rest) = Some (clean (JArr vs), rest)"
    proof (cases vs)
      case (Cons v vs')
      have "hd_opt (comma_sep (map json_text vs) @ t) \<noteq> Some (CHR '']'')" for t
        using json_text_start [of v] Cons by (cases vs') simp_all
      with parse_items_text [of vs f rest] JArr f Cons show ?thesis by simp
    qed (simp add: f)
  qed
next
  case (JObj fs)
  show ?case
  proof (intro allI impI)
    fix fuel :: nat and rest :: string
    assume fuel: "fuel_of (JObj fs) \<le> fuel"
    then obtain f where f: "fuel = Suc f" "sum_list (map (\<lambda>(k, v). Suc (fuel_of v)) fs) \<le> f" by (cases fuel) auto
    have rb: "reads_back v" if "(k, v) \<in> set fs" for k v using JObj [OF that] by auto
    show "parse_value fuel (json_text (JObj fs) @ rest) = Some (clean (JObj fs), rest)"
    proof (cases fs)
      case (Cons kv fs')
      have "hd_opt (comma_sep (map (\<lambda>(k, v). quote k @ CHR '':'' # json_text v) fs) @ t) \<noteq> Some (CHR ''}'')" for t
        using Cons by (cases fs'; cases kv) (simp_all add: quote_def)
      with parse_fields_text [where fs = fs and fuel = f and rest = rest, OF _ rb f(2)] f Cons show ?thesis by (simp del: parse_fields.simps)
    qed (simp add: f)
  qed
qed

lemma comma_sep_length: "ss \<noteq> [] \<Longrightarrow> Suc (length (comma_sep ss)) = sum_list (map (\<lambda>s. Suc (length s)) ss)"
  by (induction ss rule: comma_sep.induct) simp_all

lemma sum_list_mono_le: "(\<And>x. x \<in> set xs \<Longrightarrow> f x \<le> g x) \<Longrightarrow> sum_list (map f xs) \<le> (sum_list (map g xs) :: nat)"
  by (rule sum_list_mono)

lemma fuel_of_le: "fuel_of v \<le> length (json_text v)"
proof (induction v)
  case (JNum n)
  have "0 < length (format_nat m)" for m by simp
  then show ?case by (auto simp: int_text_def Suc_le_eq)
next
  case (JArr vs)
  show ?case
  proof (cases "vs = []")
    case False
    have "sum_list (map (\<lambda>v. Suc (fuel_of v)) vs) \<le> sum_list (map (\<lambda>v. Suc (length (json_text v))) vs)"
      using JArr by (intro sum_list_mono_le) simp
    also have "\<dots> = Suc (length (comma_sep (map json_text vs)))"
      using comma_sep_length [of "map json_text vs"] False by (simp add: comp_def)
    finally show ?thesis by simp
  qed simp
next
  case (JObj fs)
  let ?text = "\<lambda>(k, v). quote k @ CHR '':'' # json_text v"
  show ?case
  proof (cases "fs = []")
    case False
    have "sum_list (map (\<lambda>(k, v). Suc (fuel_of v)) fs) \<le> sum_list (map (\<lambda>f. Suc (length (?text f))) fs)"
    proof (rule sum_list_mono_le)
      fix f assume "f \<in> set fs"
      with JObj [of f "snd f"] show "(case f of (k, v) \<Rightarrow> Suc (fuel_of v)) \<le> Suc (length (?text f))"
        by (cases f) auto
    qed
    also have "\<dots> = Suc (length (comma_sep (map ?text fs)))"
      using comma_sep_length [of "map ?text fs"] False by (simp add: comp_def)
    finally show ?thesis by simp
  qed simp
qed (simp add: quote_def)

text \<open>Parsing the text of a value, with the line feed that \<open>Encode\<close> adds, gives the value.\<close>

theorem JSON_parse_text: "JSON_parse (json_text v @ ''\<newline>'') = Some (clean v)"
proof -
  have "num_end ''\<newline>''" by (simp add: num_end_def is_digit_def)
  moreover have "fuel_of v \<le> Suc (length (json_text v @ ''\<newline>''))" using fuel_of_le [of v] by simp
  ultimately have "parse_value (Suc (length (json_text v @ ''\<newline>''))) (json_text v @ ''\<newline>'') = Some (clean v, ''\<newline>'')"
    using parse_value_text by blast
  then show ?thesis by (simp add: JSON_parse_def)
qed

text \<open>ASCII text is UTF-8 already.\<close>

lemma to_utf8_ascii: "list_all is_ascii s \<Longrightarrow> to_utf8 s = s"
proof (induction s)
  case (Cons c s)
  then show ?case by (subst to_utf8.simps) (simp add: utf8_rune_def)
qed (simp add: to_utf8.simps)

end
