(* ===== verification/Go_Flag.thy ===== *)
theory Go_Flag
  imports Go_Time Go_Text
begin

text \<open>
  The parts of Go's \<open>flag\<close> package that the three programs use: a set of flags with their current
  values, and \<open>Parse\<close>, which sets them from the command line. An integer is read by
  \<open>strconv.ParseInt\<close> with base 0: a prefix chooses the base and underscores may separate
  digits. The reading of a floating-point number is an argument.

  The main fact is that a command line written with decimal numbers is read back: each named
  flag gets its number and no other flag changes.
\<close>

subsection \<open>Integers with a base prefix\<close>

definition lower_ascii :: "char \<Rightarrow> char" where
  "lower_ascii c = (if (65 :: nat) \<le> of_char c \<and> of_char c \<le> (90 :: nat) then char_of (of_char c + (32 :: nat)) else c)"

definition digit_of :: "char \<Rightarrow> nat option" where
  "digit_of c =
     (let l = of_char (lower_ascii c) :: nat
      in if is_digit c then Some (digit_val c) else if 97 \<le> l \<and> l \<le> 122 then Some (l - 97 + 10) else None)"

text \<open>The base of a number and its digits.\<close>

definition base_of :: "string \<Rightarrow> nat \<times> string" where
  "base_of s =
     (if hd_opt s \<noteq> Some (CHR ''0'') then (10, s)
      else if 3 \<le> length s \<and> lower_ascii (s ! 1) = CHR ''b'' then (2, drop 2 s)
      else if 3 \<le> length s \<and> lower_ascii (s ! 1) = CHR ''o'' then (8, drop 2 s)
      else if 3 \<le> length s \<and> lower_ascii (s ! 1) = CHR ''x'' then (16, drop 2 s)
      else (8, tl s))"

fun base_digits :: "nat \<Rightarrow> nat \<Rightarrow> string \<Rightarrow> ParseErr + nat" where
  "base_digits base n [] = Inr n"
| "base_digits base n (c # cs) =
     (if c = CHR ''_'' then base_digits base n cs
      else case digit_of c of
             None \<Rightarrow> Inl ErrSyntax
           | Some d \<Rightarrow>
               if base \<le> d then Inl ErrSyntax
               else if 2 ^ 64 \<le> n * base + d then Inl ErrRange
               else base_digits base (n * base + d) cs)"

text \<open>\<open>underscoreOK\<close>: underscores stand between digits, or between the prefix and a digit.\<close>

datatype saw = SawStart | SawDigit | SawUnderscore | SawOther

fun underscores :: "bool \<Rightarrow> saw \<Rightarrow> string \<Rightarrow> bool" where
  "underscores hex st [] = (st \<noteq> SawUnderscore)"
| "underscores hex st (c # cs) =
     (if is_digit c \<or> hex \<and> (case digit_of c of Some d \<Rightarrow> d < 16 | None \<Rightarrow> False) then underscores hex SawDigit cs
      else if c = CHR ''_'' then st = SawDigit \<and> underscores hex SawUnderscore cs
      else st \<noteq> SawUnderscore \<and> underscores hex SawOther cs)"

definition underscoreOK :: "string \<Rightarrow> bool" where
  "underscoreOK s0 =
     (let s = (if hd_opt s0 = Some (CHR ''-'') \<or> hd_opt s0 = Some (CHR ''+'') then tl s0 else s0)
      in if 2 \<le> length s \<and> s ! 0 = CHR ''0'' \<and> lower_ascii (s ! 1) \<in> {CHR ''b'', CHR ''o'', CHR ''x''}
         then underscores (lower_ascii (s ! 1) = CHR ''x'') SawDigit (drop 2 s)
         else underscores False SawStart s)"

definition ParseUint0 :: "string \<Rightarrow> ParseErr + nat" where
  "ParseUint0 s =
     (if s = [] then Inl ErrSyntax
      else let (base, ds) = base_of s
           in case base_digits base 0 ds of
                Inl e \<Rightarrow> Inl e
              | Inr n \<Rightarrow> if CHR ''_'' \<in> set ds \<and> \<not> underscoreOK s then Inl ErrSyntax else Inr n)"

text \<open>\<open>ParseInt(s, 0, 64)\<close>; only success matters to the caller, so an error has no value here.\<close>

definition ParseInt0 :: "string \<Rightarrow> ParseErr + goint" where
  "ParseInt0 s =
     (let neg = (hd_opt s = Some (CHR ''-''));
          ds = (if neg \<or> hd_opt s = Some (CHR ''+'') then tl s else s)
      in case ParseUint0 ds of
           Inl e \<Rightarrow> Inl e
         | Inr un \<Rightarrow>
             if \<not> neg \<and> 2 ^ 63 \<le> un \<or> neg \<and> 2 ^ 63 < un then Inl ErrRange
             else Inr (word_of_int (if neg then - int un else int un)))"

subsection \<open>Flags\<close>

datatype flag_value = IntV goint | BoolV bool | StringV string | FloatV float64

type_synonym flags = "(string, flag_value) gomap"

text \<open>The ways in which \<open>Parse\<close> ends the program: with status 0 for help, with status 2 for an error.\<close>

datatype flag_err = ErrHelp | BadSyntax string | NotDefined string | NeedsArgument string | InvalidValue string string

definition ParseBool :: "string \<Rightarrow> bool option" where
  "ParseBool s =
     (if s \<in> {''1'', ''t'', ''T'', ''true'', ''TRUE'', ''True''} then Some True
      else if s \<in> {''0'', ''f'', ''F'', ''false'', ''FALSE'', ''False''} then Some False else None)"

definition set_value :: "(string \<Rightarrow> float64 option) \<Rightarrow> flag_value \<Rightarrow> string \<Rightarrow> flag_value option" where
  "set_value parseFloat old s =
     (case old of
        IntV _ \<Rightarrow> (case ParseInt0 s of Inl e \<Rightarrow> None | Inr n \<Rightarrow> Some (IntV n))
      | BoolV _ \<Rightarrow> map_option BoolV (ParseBool s)
      | StringV _ \<Rightarrow> Some (StringV s)
      | FloatV _ \<Rightarrow> map_option FloatV (parseFloat s))"

text \<open>What one argument is: not a flag, the end of the flags, an error, or a name with or without a value.\<close>

datatype arg = NotFlag | FlagsEnd | BadArg | FlagArg string "string option"

definition flag_arg :: "string \<Rightarrow> arg" where
  "flag_arg s =
     (if length s < 2 \<or> hd s \<noteq> CHR ''-'' then NotFlag
      else if s = ''--'' then FlagsEnd
      else
        let name = (if s ! 1 = CHR ''-'' then drop 2 s else drop 1 s)
        in if name = [] \<or> hd name = CHR ''-'' \<or> hd name = CHR ''='' then BadArg
           else if CHR ''='' \<in> set name
           then FlagArg (takeWhile (\<lambda>c. c \<noteq> CHR ''='') name) (Some (tl (dropWhile (\<lambda>c. c \<noteq> CHR ''='') name)))
           else FlagArg name None)"

text \<open>\<open>Parse\<close>: the flags and the remaining arguments.\<close>

fun Parse :: "(string \<Rightarrow> float64 option) \<Rightarrow> flags \<Rightarrow> string list \<Rightarrow> flag_err + flags \<times> string list" where
  "Parse pf fs [] = Inr (fs, [])"
| "Parse pf fs (s # args) =
     (case flag_arg s of
        NotFlag \<Rightarrow> Inr (fs, s # args)
      | FlagsEnd \<Rightarrow> Inr (fs, args)
      | BadArg \<Rightarrow> Inl (BadSyntax s)
      | FlagArg name v \<Rightarrow>
          (case map_of fs name of
             None \<Rightarrow> if name = ''help'' \<or> name = ''h'' then Inl ErrHelp else Inl (NotDefined name)
           | Some old \<Rightarrow>
               (case v of
                  Some value \<Rightarrow>
                    (case set_value pf old value of
                       None \<Rightarrow> Inl (InvalidValue name value)
                     | Some new \<Rightarrow> Parse pf (AList.update name new fs) args)
                | None \<Rightarrow>
                    (case old of
                       BoolV _ \<Rightarrow> Parse pf (AList.update name (BoolV True) fs) args
                     | _ \<Rightarrow>
                         (case args of
                            [] \<Rightarrow> Inl (NeedsArgument name)
                          | value # args' \<Rightarrow>
                              (case set_value pf old value of
                                 None \<Rightarrow> Inl (InvalidValue name value)
                               | Some new \<Rightarrow> Parse pf (AList.update name new fs) args'))))))"

definition flag_exit :: "flag_err \<Rightarrow> nat" where
  "flag_exit e = (if e = ErrHelp then 0 else 2)"

text \<open>Reading the value of a flag after parsing.\<close>

definition int_flag :: "flags \<Rightarrow> string \<Rightarrow> goint" where
  "int_flag fs name = (case map_of fs name of Some (IntV n) \<Rightarrow> n | _ \<Rightarrow> 0)"

definition bool_flag :: "flags \<Rightarrow> string \<Rightarrow> bool" where
  "bool_flag fs name = (case map_of fs name of Some (BoolV b) \<Rightarrow> b | _ \<Rightarrow> False)"

definition string_flag :: "flags \<Rightarrow> string \<Rightarrow> string" where
  "string_flag fs name = (case map_of fs name of Some (StringV s) \<Rightarrow> s | _ \<Rightarrow> [])"

definition float_flag :: "flags \<Rightarrow> string \<Rightarrow> float64" where
  "float_flag fs name = (case map_of fs name of Some (FloatV x) \<Rightarrow> x | _ \<Rightarrow> (0, 0))"

subsection \<open>Decimal numbers are read back\<close>

lemma digit_not_underscore: "is_digit c \<Longrightarrow> c \<noteq> CHR ''_''"
  by (auto simp: is_digit_def)

lemma base_digits_decimal: "list_all is_digit s \<Longrightarrow> base_digits 10 acc s = parse_uint acc s"
proof (induction s arbitrary: acc)
  case (Cons c s)
  then have "digit_of c = Some (digit_val c)" "digit_val c < 10" "c \<noteq> CHR ''_''"
    by (auto simp: digit_of_def is_digit_def digit_val_def)
  with Cons show ?case by (simp add: mult.commute)
qed simp

lemma ParseUint0_format_nat:
  assumes "n < 2 ^ 64"
  shows "ParseUint0 (format_nat n) = Inr n"
proof (cases "n = 0")
  case True
  moreover have "format_nat 0 = ''0''" by (subst format_nat.simps) (simp add: digit_char_def char_of_eq_iff take_bit_eq_mod)
  ultimately show ?thesis by (simp add: ParseUint0_def base_of_def)
next
  case False
  have ds: "list_all is_digit (format_nat n)" by (simp add: list_all_iff format_nat_digits)
  have "hd_opt (format_nat n) \<noteq> Some (CHR ''0'')"
    using format_nat_leading [of n] False by (cases "format_nat n") auto
  then have "base_of (format_nat n) = (10, format_nat n)" by (simp add: base_of_def)
  moreover have "CHR ''_'' \<notin> set (format_nat n)" using format_nat_digits digit_not_underscore by blast
  ultimately show ?thesis
    using parse_format_nat [OF assms] by (simp add: ParseUint0_def base_digits_decimal [OF ds])
qed

theorem ParseInt0_FormatInt [simp]: "ParseInt0 (FormatInt n) = Inr n"
proof (cases "sint n < 0")
  case True
  have "nat (- sint n) \<le> 2 ^ 63" using sint64_bounds(1) [of n] by simp
  moreover from this have "ParseUint0 (format_nat (nat (- sint n))) = Inr (nat (- sint n))"
    by (intro ParseUint0_format_nat) simp
  ultimately show ?thesis using True by (simp add: FormatInt_def ParseInt0_def)
next
  case False
  have lt: "nat (sint n) < 2 ^ 63" using sint64_bounds(2) [of n] by simp
  then have "ParseUint0 (format_nat (nat (sint n))) = Inr (nat (sint n))"
    by (intro ParseUint0_format_nat) simp
  moreover have "hd_opt (format_nat (nat (sint n))) \<noteq> Some (CHR ''-'')"
    "hd_opt (format_nat (nat (sint n))) \<noteq> Some (CHR ''+'')"
    using hd_opt_format_nat digit_not_special(1,2) by blast+
  ultimately show ?thesis using False lt by (simp add: FormatInt_def ParseInt0_def)
qed

text \<open>A name that can be given on the command line.\<close>

definition flag_name :: "string \<Rightarrow> bool" where
  "flag_name name \<longleftrightarrow> name \<noteq> [] \<and> hd name \<noteq> CHR ''-'' \<and> CHR ''='' \<notin> set name"

text \<open>The two forms of an assignment, \<open>-name=n\<close> and \<open>-name n\<close>.\<close>

fun int_args :: "bool \<times> string \<times> goint \<Rightarrow> string list" where
  "int_args (joined, name, n) =
     (if joined then [''-'' @ name @ ''='' @ FormatInt n] else [''-'' @ name, FormatInt n])"

lemma flag_arg_joined: "flag_name name \<Longrightarrow> flag_arg (CHR ''-'' # name @ CHR ''='' # v) = FlagArg name (Some v)"
  by (cases name) (auto simp: flag_name_def flag_arg_def takeWhile_append dropWhile_append)

lemma flag_arg_name: "flag_name name \<Longrightarrow> flag_arg (CHR ''-'' # name) = FlagArg name None"
  by (cases name) (auto simp: flag_name_def flag_arg_def Let_def)

lemma Parse_int:
  assumes "flag_name name" and "map_of fs name = Some (IntV old)"
  shows "Parse pf fs (int_args (joined, name, n) @ args) = Parse pf (AList.update name (IntV n) fs) args"
  using assms by (simp add: flag_arg_joined flag_arg_name set_value_def)

text \<open>
  A command line of assignments to integer flags, in either form and any order, sets each of
  them to the last number given for it and leaves the rest alone.
\<close>

theorem Parse_ints:
  assumes "list_all (\<lambda>(j, name, n). flag_name name \<and> (\<exists>old. map_of fs name = Some (IntV old))) as"
  shows "Parse pf fs (concat (map int_args as)) =
    Inr (fold (\<lambda>(j, name, n). AList.update name (IntV n)) as fs, [])"
  using assms
proof (induction as arbitrary: fs)
  case (Cons a as)
  obtain j name n where a: "a = (j, name, n)" by (cases a)
  then obtain old where name: "flag_name name" "map_of fs name = Some (IntV old)" using Cons.prems by auto
  have "list_all (\<lambda>(j, name, n). flag_name name \<and> (\<exists>old. map_of (AList.update a' (IntV b') fs) name = Some (IntV old))) as" for a' b'
    using Cons.prems by (auto simp: list_all_iff)
  from Cons.IH [OF this] Parse_int [OF name] a show ?case by (simp del: int_args.simps)
qed simp

end
