(* ===== verification/Dashboard_Page.thy ===== *)
theory Dashboard_Page
  imports Dashboard Go_Json Go_Flag
begin

text \<open>
  \<open>cmd/vortex-dashboard/main.go\<close>, from the results of polling to what the browser shows: the
  flags, the two HTTP handlers, the JSON text of a response, and the script of the page, which
  parses that text and fills in the summary and one card for each node. The bytes of the page
  itself, the text of the current time and JavaScript's decimal text of a number are
  arguments.

  The main theorem joins Go and JavaScript: the summary that the page shows is that of the
  polled nodes.
\<close>

subsection \<open>The responses\<close>

text \<open>A field with \<open>omitempty\<close>.\<close>

definition omit_empty :: "string \<Rightarrow> string \<Rightarrow> (string \<times> json) list" where
  "omit_empty k s = (if s = [] then [] else [(k, JStr s)])"

definition metric_json :: "NodeMetric \<Rightarrow> json" where
  "metric_json m = JObj (
     [(''name'', JStr (nm_Name m)), (''addr'', JStr (nm_Addr m)), (''status'', JStr (nm_Status m)), (''role'', JStr (nm_Role m)),
      (''keys'', JNum (sint (nm_Keys m))), (''uptime_sec'', JNum (sint (nm_UptimeSec m)))] @
     omit_empty ''master_host'' (nm_MasterHost m) @ omit_empty ''link_status'' (nm_LinkStatus m) @
     [(''lag_ms'', JNum (nm_LagMs m)), (''offset'', JNum (sint (nm_Offset m)))] @ omit_empty ''error'' (nm_Error m))"

record TopologyResponse =
  tr_Timestamp :: string
  tr_Nodes :: "NodeMetric list"

definition topology_json :: "TopologyResponse \<Rightarrow> json" where
  "topology_json r = JObj [(''timestamp'', JStr (tr_Timestamp r)), (''nodes'', JArr (map metric_json (tr_Nodes r)))]"

record http_response =
  header :: "(string \<times> string) list"
  body :: bytes

text \<open>\<open>Inl\<close> is the panic of a polling goroutine, which ends the program.\<close>

definition topology_handler :: "(nodeTarget \<Rightarrow> string + NodeMetric) \<Rightarrow> nat list \<Rightarrow> nodeTarget list \<Rightarrow> string \<Rightarrow>
    string + http_response" where
  "topology_handler poll order targets stamp =
     (case topology poll order targets of
        Inl p \<Rightarrow> Inl p
      | Inr results \<Rightarrow> Inr
          \<lparr>header = [(''Content-Type'', ''application/json''), (''Access-Control-Allow-Origin'', ''*'')],
           body = json_text (topology_json \<lparr>tr_Timestamp = stamp, tr_Nodes = results\<rparr>) @ ''\<newline>''\<rparr>)"

definition page_handler :: "bytes \<Rightarrow> http_response" where
  "page_handler dashboardHTML = \<lparr>header = [(''Content-Type'', ''text/html; charset=utf-8'')], body = dashboardHTML\<rparr>"

text \<open>The routes: one path for the data, every other path for the page.\<close>

definition route :: "(nodeTarget \<Rightarrow> string + NodeMetric) \<Rightarrow> nat list \<Rightarrow> nodeTarget list \<Rightarrow> string \<Rightarrow> bytes \<Rightarrow> string \<Rightarrow>
    string + http_response" where
  "route poll order targets stamp dashboardHTML path =
     (if path = ''/api/topology'' then topology_handler poll order targets stamp else Inr (page_handler dashboardHTML))"

subsection \<open>The program\<close>

definition dashboard_flags :: flags where
  "dashboard_flags =
     [(''port'', IntV 8080), (''nodes'', StringV ''127.0.0.1:6379,127.0.0.1:6380,127.0.0.1:6381'')]"

text \<open>
  \<open>Inl\<close> is the exit status with what was printed; otherwise the address, the line printed, and
  the targets that the handlers poll. \<open>listen\<close> is the error of \<open>ListenAndServe\<close>, \<open>None\<close> while it
  serves.
\<close>

definition dashboard_main :: "unicode_trim \<Rightarrow> (string \<Rightarrow> float64 option) \<Rightarrow> string list \<Rightarrow> string option \<Rightarrow>
    (nat \<times> string list) + (string \<times> string \<times> nodeTarget list)" where
  "dashboard_main U pf args listen =
     (case Parse pf dashboard_flags args of
        Inl e \<Rightarrow> Inl (flag_exit e, [])
      | Inr (fs, rest) \<Rightarrow>
          let nodeTargets = parseNodeTargets U (string_flag fs ''nodes'');
              a = '':'' @ FormatInt (int_flag fs ''port'');
              banner = ''Vortex Cache Topology Dashboard listening on http://localhost'' @ a @ ''\<newline>''
          in case listen of
               Some e \<Rightarrow> Inl (1, [banner, ''HTTP server error: '' @ e])
             | None \<Rightarrow> Inr (a, banner, nodeTargets))"

subsection \<open>The script\<close>

text \<open>A JavaScript number with an integer value: the integer rounded to float64.\<close>

definition js_number :: "int \<Rightarrow> int" where
  "js_number x = (let (m, k) = float_quotient (nat \<bar>x\<bar>) 1 in sgn x * int (m div 2 ^ k))"

text \<open>Properties of an object; \<open>None\<close> is a property of another kind, at which the script fails or prints nonsense.\<close>

definition get_str :: "string \<Rightarrow> json \<Rightarrow> string option" where
  "get_str k v = (case v of JObj fs \<Rightarrow> (case map_of fs k of Some (JStr s) \<Rightarrow> Some s | _ \<Rightarrow> None) | _ \<Rightarrow> None)"

text \<open>\<open>n.k || 0\<close>\<close>

definition get_num :: "string \<Rightarrow> json \<Rightarrow> int option" where
  "get_num k v =
     (case v of JObj fs \<Rightarrow> (case map_of fs k of None \<Rightarrow> Some 0 | Some (JNum n) \<Rightarrow> Some (js_number n) | _ \<Rightarrow> None) | _ \<Rightarrow> None)"

record page =
  activeNodes :: nat
  totalKeys :: int
  masterAddr_text :: string
  cards :: "string list"

definition em_dash :: string where
  "em_dash = [CHR 0xE2, CHR 0x80, CHR 0x94]"

definition card_html :: "(string \<Rightarrow> string) \<Rightarrow> (int \<Rightarrow> string) \<Rightarrow> string \<Rightarrow> string \<Rightarrow> string \<Rightarrow> string \<Rightarrow> int \<Rightarrow> int \<Rightarrow> string" where
  "card_html up num name a status rl keys uptime =
     (let q = [CHR 0x22];
          roleClass = (if status = ''DOWN'' then ''role-offline'' else if rl = ''master'' then ''role-master'' else ''role-slave'');
          roleText = (if status = ''DOWN'' then ''OFFLINE'' else ToUpper up rl);
          stat = (\<lambda>label val. ''<div class='' @ q @ ''stat-row'' @ q @ ''><span class='' @ q @ ''stat-label'' @ q @ ''>'' @ label @
            ''</span><span class='' @ q @ ''stat-val'' @ q @ ''>'' @ val @ ''</span></div>'')
      in ''<div class='' @ q @ ''node-header'' @ q @ ''><div><div class='' @ q @ ''node-title'' @ q @ ''>'' @ name @
         ''</div><div class='' @ q @ ''node-addr'' @ q @ ''>'' @ a @ ''</div></div><span class='' @ q @ ''role-pill '' @ roleClass @ q @
         ''>'' @ roleText @ ''</span></div>'' @ stat ''Status'' status @ stat ''Keys'' (num keys) @ stat ''Uptime'' (num uptime @ ''s''))"

text \<open>The body of \<open>forEach\<close>.\<close>

definition render_node :: "(string \<Rightarrow> string) \<Rightarrow> (int \<Rightarrow> string) \<Rightarrow> json \<Rightarrow> page \<Rightarrow> page option" where
  "render_node up num n p =
     (case (get_str ''name'' n, get_str ''addr'' n, get_str ''status'' n, get_str ''role'' n, get_num ''keys'' n, get_num ''uptime_sec'' n) of
        (Some name, Some a, Some status, Some rl, Some keys, Some uptime) \<Rightarrow>
          Some \<lparr>activeNodes = (if status = ''UP'' then Suc (activeNodes p) else activeNodes p),
                totalKeys = js_number (totalKeys p + keys),
                masterAddr_text = (if rl = ''master'' \<and> status = ''UP'' then a else masterAddr_text p),
                cards = cards p @ [card_html up num name a status rl keys uptime]\<rparr>
      | _ \<Rightarrow> None)"

fun render_nodes :: "(string \<Rightarrow> string) \<Rightarrow> (int \<Rightarrow> string) \<Rightarrow> json list \<Rightarrow> page \<Rightarrow> page option" where
  "render_nodes up num [] p = Some p"
| "render_nodes up num (n # ns) p =
     (case render_node up num n p of None \<Rightarrow> None | Some p' \<Rightarrow> render_nodes up num ns p')"

text \<open>\<open>render\<close>: the page, and the texts of \<open>total-nodes\<close> and \<open>total-keys\<close>.\<close>

definition render :: "(string \<Rightarrow> string) \<Rightarrow> (int \<Rightarrow> string) \<Rightarrow> json \<Rightarrow> (page \<times> string \<times> string) option" where
  "render up num data =
     (case data of
        JObj fs \<Rightarrow>
          (case map_of fs ''nodes'' of
             Some (JArr ns) \<Rightarrow>
               (case render_nodes up num ns \<lparr>activeNodes = 0, totalKeys = 0, masterAddr_text = em_dash, cards = []\<rparr> of
                  None \<Rightarrow> None
                | Some p \<Rightarrow> Some (p, Itoa (activeNodes p) @ '' / '' @ Itoa (length ns), num (totalKeys p)))
           | _ \<Rightarrow> None)
      | _ \<Rightarrow> None)"

text \<open>\<open>fetchTopology\<close>: the answer of the server parsed and rendered; \<open>None\<close> when the script throws, which \<open>catch\<close> hides.\<close>

definition fetchTopology :: "(string \<Rightarrow> string) \<Rightarrow> (int \<Rightarrow> string) \<Rightarrow> http_response \<Rightarrow> (page \<times> string \<times> string) option" where
  "fetchTopology up num res = (case JSON_parse (body res) of None \<Rightarrow> None | Some data \<Rightarrow> render up num data)"

subsection \<open>Reading the metrics back\<close>

lemma js_number_exact:
  assumes "\<bar>x\<bar> < 2 ^ 53"
  shows "js_number x = x"
proof -
  obtain m k where r: "float_round (nat \<bar>x\<bar>) 1 = (m, k)" by fastforce
  then have "m = nat \<bar>x\<bar> * 2 ^ k" by (auto simp: float_round_def Let_def round_half_even_def)
  moreover have "nat \<bar>x\<bar> < 2 ^ 53" using assms by simp
  ultimately show ?thesis using r by (simp add: js_number_def float_quotient_def sgn_mult_abs)
qed

text \<open>The texts of a metric that the page uses are UTF-8.\<close>

definition metric_utf8 :: "NodeMetric \<Rightarrow> bool" where
  "metric_utf8 m \<longleftrightarrow> list_all (\<lambda>s. to_utf8 s = s) [nm_Name m, nm_Addr m, nm_Status m, nm_Role m]"

lemma metric_fields:
  assumes "metric_utf8 m"
  shows "get_str ''name'' (clean (metric_json m)) = Some (nm_Name m)" "get_str ''addr'' (clean (metric_json m)) = Some (nm_Addr m)"
    "get_str ''status'' (clean (metric_json m)) = Some (nm_Status m)" "get_str ''role'' (clean (metric_json m)) = Some (nm_Role m)"
    "get_num ''keys'' (clean (metric_json m)) = Some (js_number (sint (nm_Keys m)))"
    "get_num ''uptime_sec'' (clean (metric_json m)) = Some (js_number (sint (nm_UptimeSec m)))"
proof -
  have names: "to_utf8 k = k" if "k \<in> {''name'', ''addr'', ''status'', ''role'', ''keys'', ''uptime_sec''}" for k
    using that by (intro to_utf8_ascii) (auto simp: is_ascii_def)
  obtain fs where "clean (metric_json m) = JObj (
      [(''name'', JStr (nm_Name m)), (''addr'', JStr (nm_Addr m)), (''status'', JStr (nm_Status m)), (''role'', JStr (nm_Role m)),
       (''keys'', JNum (sint (nm_Keys m))), (''uptime_sec'', JNum (sint (nm_UptimeSec m)))] @ fs)"
    using assms names by (simp add: metric_json_def metric_utf8_def)
  then show "get_str ''name'' (clean (metric_json m)) = Some (nm_Name m)" "get_str ''addr'' (clean (metric_json m)) = Some (nm_Addr m)"
    "get_str ''status'' (clean (metric_json m)) = Some (nm_Status m)" "get_str ''role'' (clean (metric_json m)) = Some (nm_Role m)"
    "get_num ''keys'' (clean (metric_json m)) = Some (js_number (sint (nm_Keys m)))"
    "get_num ''uptime_sec'' (clean (metric_json m)) = Some (js_number (sint (nm_UptimeSec m)))"
    by (simp_all add: get_str_def get_num_def)
qed

definition metric_up :: "NodeMetric \<Rightarrow> bool" where
  "metric_up m \<longleftrightarrow> nm_Status m = ''UP''"

text \<open>The address of the last master that answered.\<close>

definition shown_master :: "string \<Rightarrow> NodeMetric list \<Rightarrow> string" where
  "shown_master none ms =
     (let masters = filter (\<lambda>m. nm_Role m = ''master'' \<and> metric_up m) ms
      in if masters = [] then none else nm_Addr (last masters))"

definition metric_card :: "(string \<Rightarrow> string) \<Rightarrow> (int \<Rightarrow> string) \<Rightarrow> NodeMetric \<Rightarrow> string" where
  "metric_card up num m =
     card_html up num (nm_Name m) (nm_Addr m) (nm_Status m) (nm_Role m) (js_number (sint (nm_Keys m)))
       (js_number (sint (nm_UptimeSec m)))"

lemma render_metrics:
  assumes "list_all metric_utf8 ms" and "\<bar>totalKeys p\<bar> + sum_list (map (\<lambda>m. \<bar>sint (nm_Keys m)\<bar>) ms) < 2 ^ 53"
  shows "render_nodes up num (map (\<lambda>m. clean (metric_json m)) ms) p =
    Some \<lparr>activeNodes = activeNodes p + length (filter metric_up ms),
      totalKeys = totalKeys p + sum_list (map (\<lambda>m. sint (nm_Keys m)) ms),
      masterAddr_text = shown_master (masterAddr_text p) ms, cards = cards p @ map (metric_card up num) ms\<rparr>"
  using assms
proof (induction ms arbitrary: p)
  case (Cons m ms)
  let ?k = "sint (nm_Keys m)"
  have nonneg: "0 \<le> sum_list (map (\<lambda>m. \<bar>sint (nm_Keys m)\<bar>) ms)" by (induction ms) auto
  then have k: "js_number ?k = ?k" "js_number (totalKeys p + ?k) = totalKeys p + ?k"
    using Cons.prems(2) by (auto intro!: js_number_exact)
  define p' where "p' = \<lparr>activeNodes = (if metric_up m then Suc (activeNodes p) else activeNodes p), totalKeys = totalKeys p + ?k,
    masterAddr_text = (if nm_Role m = ''master'' \<and> metric_up m then nm_Addr m else masterAddr_text p),
    cards = cards p @ [metric_card up num m]\<rparr>"
  have "render_node up num (clean (metric_json m)) p = Some p'"
    using metric_fields [of m] Cons.prems(1) k by (simp add: render_node_def p'_def metric_up_def metric_card_def)
  moreover have "\<bar>totalKeys p'\<bar> + sum_list (map (\<lambda>m. \<bar>sint (nm_Keys m)\<bar>) ms) < 2 ^ 53"
    using Cons.prems(2) by (simp add: p'_def)
  ultimately show ?case
    using Cons.IH [of p'] Cons.prems(1) by (simp add: p'_def shown_master_def Let_def)
qed (simp add: shown_master_def)

subsection \<open>Property\<close>

lemma fetched_topology:
  assumes "topology poll order targets = Inr ms"
  obtains resp where "topology_handler poll order targets stamp = Inr resp"
    "JSON_parse (body resp) = Some (JObj [(''timestamp'', JStr (to_utf8 stamp)),
       (''nodes'', JArr (map (\<lambda>m. clean (metric_json m)) ms))])"
proof -
  let ?body = "json_text (topology_json \<lparr>tr_Timestamp = stamp, tr_Nodes = ms\<rparr>) @ ''\<newline>''"
  have "to_utf8 ''timestamp'' = ''timestamp''" "to_utf8 ''nodes'' = ''nodes''"
    by (rule to_utf8_ascii, simp add: is_ascii_def)+
  then have "JSON_parse ?body = Some (JObj [(''timestamp'', JStr (to_utf8 stamp)),
       (''nodes'', JArr (map (\<lambda>m. clean (metric_json m)) ms))])"
    using JSON_parse_text [of "topology_json \<lparr>tr_Timestamp = stamp, tr_Nodes = ms\<rparr>"]
    by (simp del: json_text.simps) (simp add: topology_json_def comp_def)
  with that assms show ?thesis by (simp add: topology_handler_def)
qed

text \<open>
  C28. The page shows what was polled: when no poll panics, whatever order the goroutines finish
  in, and for texts in UTF-8, the browser parses the response of \<open>/api/topology\<close> and shows the
  number of nodes that answered and the number of all nodes, the exact sum of their keys as long
  as the numbers stay below \<open>2^53\<close>, where JavaScript's numbers are exact, the address of the last
  master among the nodes that answered, and one card for each node in the order of the command
  line.
\<close>

theorem page_shows_topology:
  assumes "set order = {..<length targets}" and "map poll targets = map Inr ms" and "list_all metric_utf8 ms"
    and "sum_list (map (\<lambda>m. \<bar>sint (nm_Keys m)\<bar>) ms) < 2 ^ 53"
  shows "\<exists>resp p. route poll order targets stamp dashboardHTML ''/api/topology'' = Inr resp \<and>
    fetchTopology up num resp =
      Some (p, Itoa (length (filter metric_up ms)) @ '' / '' @ Itoa (length targets),
        num (sum_list (map (\<lambda>m. sint (nm_Keys m)) ms))) \<and>
    masterAddr_text p = shown_master em_dash ms \<and> cards p = map (metric_card up num) ms"
proof -
  let ?p = "\<lparr>activeNodes = 0, totalKeys = 0, masterAddr_text = em_dash, cards = []\<rparr>"
  have ms: "\<bar>totalKeys ?p\<bar> + sum_list (map (\<lambda>m. \<bar>sint (nm_Keys m)\<bar>) ms) < 2 ^ 53" using assms(4) by simp
  have len: "length targets = length ms" using assms(2) by (metis length_map)
  obtain resp where "topology_handler poll order targets stamp = Inr resp"
    "JSON_parse (body resp) = Some (JObj [(''timestamp'', JStr (to_utf8 stamp)),
       (''nodes'', JArr (map (\<lambda>m. clean (metric_json m)) ms))])"
    by (rule fetched_topology [OF topology_places [OF assms(1,2)]])
  with render_metrics [OF assms(3) ms, of up num] show ?thesis
    by (simp add: fetchTopology_def route_def render_def len)
qed

theorem page_shows_topology_witness:
  "\<exists>resp p. route (\<lambda>t. pollNode demo_trim (target_name t) (target_addr t) (DialErr ''refused'')) [0]
      [\<lparr>target_name = ''m'', target_addr = ''h:1''\<rparr>] ''now'' [] ''/api/topology'' = Inr resp \<and>
    fetchTopology id (\<lambda>_. []) resp = Some (p, Itoa 0 @ '' / '' @ Itoa 1, []) \<and> masterAddr_text p = em_dash"
proof -
  let ?t = "\<lparr>target_name = ''m'', target_addr = ''h:1''\<rparr>"
    and ?poll = "\<lambda>t. pollNode demo_trim (target_name t) (target_addr t) (DialErr ''refused'')"
  let ?m = "(down_metric ''m'' ''h:1'')\<lparr>nm_Error := ''refused''\<rparr>"
  have "metric_utf8 ?m"
    by (simp add: metric_utf8_def down_metric_def to_utf8_ascii is_ascii_def)
  moreover have "filter metric_up [?m] = []" by (simp add: metric_up_def down_metric_def)
  moreover have "shown_master em_dash [?m] = em_dash" by (simp add: shown_master_def metric_up_def down_metric_def)
  moreover have "map ?poll [?t] = map Inr [?m]" by (simp add: pollNode_def)
  ultimately show ?thesis
    using page_shows_topology [of "[0]" "[?t]" ?poll "[?m]" "''now''" "[]" id "\<lambda>_. []"]
    by (auto simp: down_metric_def)
qed

end
