(* ===== verification/Vortex_Main.thy ===== *)
theory Vortex_Main
  imports Server_Properties Go_Flag
begin

text \<open>
  \<open>cmd/vortex-server/main.go\<close>: from the command line to a store and a server, the goroutine that
  serves, and the shutdown after a signal, with everything the program prints. That a signal
  arrives is the moment at which \<open>main_signal\<close> runs.

  The property about a running server rests on an instance of \<open>cache_invariant\<close>: no
  operation changes a shard's limit or takes its policy away.
\<close>

definition main_config :: "goint \<Rightarrow> goint \<Rightarrow> lruPolicy Config" where
  "main_config shardsFlag maxKeysPerShard =
     (let cfg0 = DefaultConfig\<lparr>ShardCount := shardsFlag, MaxKeysPerShard := maxKeysPerShard\<rparr>
      in if 0 <s maxKeysPerShard then cfg0\<lparr>EvictionFactory := Some NewLRUPolicy\<rparr> else cfg0)"

text \<open>
  The program exits with a status and a message, or goes on with a server. An error of
  \<open>NewStore\<close> gives status 1, a panic status 2.
\<close>

datatype console = Stdout string | Stderr string

datatype 'p started = Exit nat "console list" | Started "'p Server"

definition main_start :: "goint \<Rightarrow> goint \<Rightarrow> goint \<Rightarrow> (string \<Rightarrow> 64 word) \<Rightarrow> int64 \<Rightarrow> (connid \<Rightarrow> Conn) \<Rightarrow>
    lruPolicy started" where
  "main_start port shardsFlag maxKeysPerShard hash now conns =
     (case NewStore (main_config shardsFlag maxKeysPerShard) hash of
        Inl StorePanic \<Rightarrow> Exit 2 [Stderr (''panic: '' @ makeslice_panic)]
      | Inl e \<Rightarrow> Exit 1 [Stderr (''Failed to initialize Vortex store: '' @ StoreErr_Error e @ ''\<newline>'')]
      | Inr st \<Rightarrow> Started (NewServer ('':'' @ FormatInt port) now conns st))"

text \<open>
  The shutdown: \<open>srv.Close\<close>, which waits for all connections to end, and then \<open>cache.Close\<close>.
  \<open>None\<close> means that the wait is not over. Closing a server again changes nothing, and \<open>Close\<close>
  without the wait is also a step of \<open>Server_System\<close>, after which connections may still be
  counted and end; so this function is applied to every state in which the wait can stand.
  What a connection that is counted only after the wait does with the closed store is not
  represented.
\<close>

definition main_shutdown :: "'p Server \<Rightarrow> 'p Server option" where
  "main_shutdown s =
     (let s = Server_Close s; p = proc s; (st, E) = proc_cache p
      in if wg s = 0 then Some (s\<lparr>proc := set_cache (Store_Close st, E) p\<rparr>) else None)"

subsection \<open>The whole program\<close>

definition server_flags :: flags where
  "server_flags = [(''p'', IntV 6379), (''shards'', IntV 16), (''max-keys-per-shard'', IntV 0)]"

definition vortex_main :: "(string \<Rightarrow> float64 option) \<Rightarrow> string list \<Rightarrow> (string \<Rightarrow> 64 word) \<Rightarrow> int64 \<Rightarrow> (connid \<Rightarrow> Conn) \<Rightarrow>
    lruPolicy started" where
  "vortex_main pf args hash now conns =
     (case Parse pf server_flags args of
        Inl e \<Rightarrow> Exit (flag_exit e) []
      | Inr (fs, rest) \<Rightarrow>
          main_start (int_flag fs ''p'') (int_flag fs ''shards'') (int_flag fs ''max-keys-per-shard'') hash now conns)"

text \<open>The goroutine that serves; its error is printed and nothing else happens.\<close>

definition main_serve :: "string + string \<Rightarrow> (connid + string) list \<Rightarrow> int64 \<Rightarrow> 'p Server \<Rightarrow>
    console list \<times> connid list \<times> 'p Server" where
  "main_serve bind accepts now s =
     (let banner = Stdout (''Vortex Cache TCP Server listening on '' @ addr s @ '' ('' @
                      Stats now (fst (proc_cache (proc s))) @ '')\<newline>'')
      in case ListenAndServe bind accepts s of
           (Some (Some e), cs, s') \<Rightarrow> ([banner, Stderr (''Server error: '' @ e @ ''\<newline>'')], cs, s')
         | (_, cs, s') \<Rightarrow> ([banner], cs, s'))"

text \<open>After a signal; \<open>None\<close> while \<open>Close\<close> waits.\<close>

definition main_signal :: "'p Server \<Rightarrow> console list \<times> 'p Server option" where
  "main_signal s =
     (case main_shutdown s of
        None \<Rightarrow> ([Stdout ''\<newline>Shutting down Vortex Cache...\<newline>''], None)
      | Some s' \<Rightarrow>
          ([Stdout ''\<newline>Shutting down Vortex Cache...\<newline>'', Stdout ''Vortex Cache stopped gracefully.\<newline>''], Some s'))"

subsection \<open>Limits stay\<close>

definition limited :: "goint \<Rightarrow> 'p shard \<Rightarrow> bool" where
  "limited M shd \<longleftrightarrow> maxKeys shd = M \<and> eviction shd \<noteq> None"

abbreviation all_limited :: "goint \<Rightarrow> ('p, 'e) Store \<times> 'e \<Rightarrow> bool" where
  "all_limited M st \<equiv> list_all (limited M) (shards (fst st))"

lemma on_shard_limited:
  assumes "list_all (limited M) (shards s)" and "\<And>shd. limited M shd \<Longrightarrow> limited M (snd (f shd))"
  shows "list_all (limited M) (shards (snd (on_shard k f s)))"
proof (cases "getShard s k < length (shards s)")
  case True
  with assms show ?thesis by (simp add: on_shard_shards list_all_length nth_list_update)
next
  case False
  with assms(1) show ?thesis by (simp add: on_shard_shards list_update_beyond)
qed

lemma store_apply_limited: "all_limited M st \<Longrightarrow> all_limited M (store_apply P now x st)"
proof (cases "closed (fst st)")
  case True
  then show "all_limited M st \<Longrightarrow> all_limited M (store_apply P now x st)" by (simp add: store_apply_closed)
next
  case False
  show "all_limited M st \<Longrightarrow> all_limited M (store_apply P now x st)"
    using False by (cases st; cases x)
      (simp_all add: store_ops_open Let_def, (erule on_shard_limited, simp add: limited_def)+)
qed

interpretation limits: cache_invariant P "all_limited M" for P M
  by unfold_locales (rule store_apply_limited)

lemma sweep_limited:
  assumes "list_all (limited M) (shards s)"
  shows "list_all (limited M) (shards (snd (runActiveSweepCycle P E n s)))"
proof -
  have "list_all2 (\<lambda>a b. limited M a \<longrightarrow> limited M b) (shards s) (shards (snd (runActiveSweepCycle P E n s)))"
    by (rule runActiveSweepCycle_shards) (auto simp: limited_def)
  with assms show ?thesis by (auto simp: list_all_length list_all2_conv_all_nth)
qed

lemma node_step_limited:
  "node_step up P l (nd :: ('p, env) node) nd' \<Longrightarrow> all_limited M (cache nd) \<Longrightarrow> all_limited M (cache nd')"
  by (induction rule: node_step.induct)
    (auto simp: SlaveOf_cache Failover.beat_ok_def Failover.beat_missed_def Let_def sync_dialed_def sync_acked_def
      sync_command_def Failover.sync_end_def limits.applyMasterCommand_keeps)

lemma proc_net_op_store: "proc_net_op c f w p = (e, w', p') \<Longrightarrow> fst (proc_cache p') = fst (proc_cache p)"
  by (auto simp: proc_net_op_def Let_def split: prod.splits)

lemma conn_round_limited:
  "conn_round G P clk x h c fin s w p = (r, p') \<Longrightarrow> all_limited M (proc_cache p) \<Longrightarrow> all_limited M (proc_cache p')"
  by (auto simp: conn_round_def dest!: proc_net_op_store dest: limits.Dispatch_keeps
      split: if_splits read.splits option.splits prod.splits)

lemma sys_step_limited:
  "sys_step G P y y' \<Longrightarrow> all_limited M (sys_cache y) \<Longrightarrow> all_limited M (sys_cache y')"
proof (induction rule: sys_step.induct)
  case (replication l y nd)
  then show ?case using node_step_limited by fastforce
qed (auto simp: conn_opened_def conn_done_def close_conn_def Let_def sweep_limited Server_Close_def
    dest: conn_round_limited)

lemma sys_reach_limited:
  "sys_reach G P y y' \<Longrightarrow> all_limited M (sys_cache y) \<Longrightarrow> all_limited M (sys_cache y')"
  by (induction rule: sys_reach.induct) (auto intro: sys_step_limited)

subsection \<open>Properties\<close>

lemma main_config_factory: "factory_ok lru_inv (\<lambda>p. set (lru_keys p)) (main_config n M)"
  using lru_empty_refines
  by (simp add: factory_ok_def main_config_def Let_def DefaultConfig_def)

lemma started_respects_flags:
  "case main_start port n M hash now conns of
     Exit code msgs \<Rightarrow> if \<exists>m. sint n = 2 ^ m then code = 2 \<and> 2 ^ 45 < sint n else code = 1
   | Started s \<Rightarrow> (\<exists>m. sint n = 2 ^ m) \<and> sint n \<le> 2 ^ 45 \<and>
       (\<forall>G y. sys_reach G lruPolicy_methods (sys_init s) y \<longrightarrow> lru_open (sys_cache y) \<and>
          (0 < sint M \<longrightarrow> list_all (\<lambda>shd. int (length (items shd)) \<le> sint M) (shards (fst (sys_cache y)))))"
proof (cases "NewStore (main_config n M) hash :: StoreErr + (lruPolicy, env) Store")
  case (Inl e)
  then have "if \<exists>m. sint n = 2 ^ m then e = StorePanic \<and> 2 ^ 45 < sint n else e = ErrInvalidShardCount"
    using shard_count_guard [of n]
    by (auto simp: NewStore_def main_config_def DefaultConfig_def Let_def make_ok_pointers split: if_splits)
  with Inl show ?thesis by (cases "\<exists>m. sint n = 2 ^ m") (simp_all add: main_start_def)
next
  case (Inr st)
  let ?y0 = "sys_init (NewServer ('':'' @ FormatInt port) now conns st)"
  note new = NewStore_cases [OF Inr]
  have n: "\<exists>m. sint n = 2 ^ m" using new(8) by (simp add: main_config_def DefaultConfig_def Let_def split: if_splits)
  have le: "sint n \<le> 2 ^ 45"
    using Inr by (auto simp: NewStore_def main_config_def DefaultConfig_def Let_def make_ok_pointers split: if_splits)
  have ok: "sys_ok ?y0"
    using NewStore_inv [OF Inr main_config_factory] new(5) by (intro sys_ok_init)
  have lim: "all_limited M (sys_cache ?y0)" if "0 < sint M"
  proof -
    have "shards (fst (sys_cache ?y0)) = shards st"
      by (simp add: sys_init_def NewServer_def NewMasterManager_def OnWrite_def node_init_def)
    moreover have "limited M (newShard (MaxKeysPerShard (main_config n M)) (EvictionFactory (main_config n M)))"
      using that by (simp add: limited_def newShard_def main_config_def Let_def signed_simps)
    ultimately show ?thesis using arg_cong [OF new(3), of "list_all (limited M)"] by (simp add: list_all_iff)
  qed
  have "lru_open (sys_cache y) \<and>
      (0 < sint M \<longrightarrow> list_all (\<lambda>shd. int (length (items shd)) \<le> sint M) (shards (fst (sys_cache y))))"
    if r: "sys_reach G lruPolicy_methods ?y0 y" for G y
  proof -
    have o: "lru_open (sys_cache y)" using sys_ok_reach [OF r ok] by (simp add: sys_ok_def proc_ok_def st_ok_def)
    moreover have "int (length (items shd)) \<le> sint M" if "0 < sint M" "shd \<in> set (shards (fst (sys_cache y)))" for shd
    proof -
      have "limited M shd" using sys_reach_limited [OF r lim [OF that(1)]] that(2) by (simp add: list_all_iff)
      moreover have "within_capacity shd"
        using o that(2) by (auto simp: open_store_def store_inv_def shard_inv_def list_all_iff)
      ultimately show ?thesis using that(1) by (simp add: within_capacity_def limited_def signed_simps)
    qed
    ultimately show ?thesis by (simp add: list_all_iff)
  qed
  with n le Inr show ?thesis by (simp add: main_start_def)
qed

text \<open>The number that a command line gives to a flag, or the default.\<close>

definition given :: "(bool \<times> string \<times> goint) list \<Rightarrow> string \<Rightarrow> goint \<Rightarrow> goint" where
  "given as name dflt = fold (\<lambda>(j, m, n) old. if m = name then n else old) as dflt"

lemma int_flag_fold:
  "int_flag (fold (\<lambda>(j, name, n). AList.update name (IntV n)) as fs) name = given as name (int_flag fs name)"
  unfolding given_def by (induction as arbitrary: fs) (auto simp: int_flag_def)

text \<open>
  The command line is read as it is written: numbers given for the three flags, as \<open>-name=n\<close>
  or \<open>-name n\<close>, in any order and number, start the server with the last number given for each
  flag and with the default for the others.
\<close>

lemma command_line_decides:
  assumes "list_all (\<lambda>(j, name, n). name \<in> {''p'', ''shards'', ''max-keys-per-shard''}) as"
  shows "vortex_main pf (concat (map int_args as)) hash now conns =
    main_start (given as ''p'' 6379) (given as ''shards'' 16) (given as ''max-keys-per-shard'' 0) hash now conns"
proof -
  have "list_all (\<lambda>(j, name, n). flag_name name \<and> (\<exists>old. map_of server_flags name = Some (IntV old))) as"
    using assms by (auto simp: list_all_iff server_flags_def flag_name_def)
  from Parse_ints [OF this, of pf] show ?thesis
    by (simp add: vortex_main_def int_flag_fold) (simp add: int_flag_def server_flags_def)
qed

text \<open>
  C8. The command line decides: from numbers given for the three flags, as \<open>-name=n\<close> or \<open>-name n\<close>,
  in any order and number, the last one given for each flag counts, and the default for a flag
  not given. The program exits with status 1 exactly when the number of shards is not a
  positive power of two, and panics for a power beyond \<open>2^45\<close>, where the slice of shards exceeds
  the address space; otherwise it starts, and in every state that the running server reaches
  the store keeps its invariant, and with a positive limit of keys for each shard no shard ever
  holds more.
\<close>

theorem server_respects_flags:
  assumes "list_all (\<lambda>(j, name, n). name \<in> {''p'', ''shards'', ''max-keys-per-shard''}) as"
  defines "n \<equiv> given as ''shards'' 16" and "M \<equiv> given as ''max-keys-per-shard'' 0"
  shows "case vortex_main pf (concat (map int_args as)) hash now conns of
     Exit code msgs \<Rightarrow> if \<exists>m. sint n = 2 ^ m then code = 2 \<and> 2 ^ 45 < sint n else code = 1
   | Started s \<Rightarrow> (\<exists>m. sint n = 2 ^ m) \<and> sint n \<le> 2 ^ 45 \<and> addr s = '':'' @ FormatInt (given as ''p'' 6379) \<and>
       (\<forall>G y. sys_reach G lruPolicy_methods (sys_init s) y \<longrightarrow> lru_open (sys_cache y) \<and>
          (0 < sint M \<longrightarrow> list_all (\<lambda>shd. int (length (items shd)) \<le> sint M) (shards (fst (sys_cache y)))))"
proof -
  let ?r = "main_start (given as ''p'' 6379) n M hash now conns"
  have "addr s = '':'' @ FormatInt (given as ''p'' 6379)" if "?r = Started s" for s
    using that by (auto simp: main_start_def NewServer_def Let_def split: sum.splits StoreErr.splits prod.splits)
  then show ?thesis
    using started_respects_flags [where port = "given as ''p'' 6379" and n = n and M = M and hash = hash and now = now and conns = conns] command_line_decides [OF assms(1)]
    by (cases ?r) (simp_all add: n_def M_def)
qed

theorem server_respects_flags_witness:
  "\<exists>s. vortex_main (\<lambda>_. None) [''-shards=2'', ''-max-keys-per-shard'', ''5''] demo_hash 0 (\<lambda>_. demo_conn) = Started s \<and>
     addr s = '':'' @ FormatInt 6379 \<and>
     list_all (\<lambda>shd. int (length (items shd)) \<le> 5) (shards (fst (sys_cache (sys_init s))))"
proof -
  let ?as = "[(True, ''shards'', 2), (False, ''max-keys-per-shard'', 5)] :: (bool \<times> string \<times> goint) list"
  have nums: "FormatInt 2 = ''2''" "FormatInt 5 = ''5''"
    by (simp_all add: FormatInt_def format_nat.simps digit_char_def char_of_eq_iff take_bit_eq_mod)
  have ok: "list_all (\<lambda>(j, name, n). name \<in> {''p'', ''shards'', ''max-keys-per-shard''}) ?as" by simp
  have args: "concat (map int_args ?as) = [''-shards=2'', ''-max-keys-per-shard'', ''5'']" by (simp add: nums)
  obtain s where s: "vortex_main (\<lambda>_. None) (concat (map int_args ?as)) demo_hash 0 (\<lambda>_. demo_conn) = Started s"
    unfolding command_line_decides [OF ok]
    by (simp add: given_def main_start_def main_config_def NewStore_def DefaultConfig_def Let_def make_ok_pointers signed_simps)
  with server_respects_flags [OF ok, of "\<lambda>_. None" demo_hash 0 "\<lambda>_. demo_conn"]
  have "addr s = '':'' @ FormatInt 6379 \<and> list_all (\<lambda>shd. int (length (items shd)) \<le> 5) (shards (fst (sys_cache (sys_init s))))"
    using reach_refl [of demo_G lruPolicy_methods "sys_init s"] by (auto simp: given_def)
  with s show ?thesis unfolding args by blast
qed

text \<open>
  C32. Shutting down: \<open>main\<close> closes the store only when every connection has ended. In a
  reachable state with an open connection the shutdown is still waiting, since \<open>Close\<close> does
  not close the connections of clients; without one it returns, and the store refuses
  every further write. (The shutdown is one step: a connection that \<open>Accept\<close> has returned but
  that is not counted yet while \<open>Close\<close> waits is not represented.)
\<close>

theorem shutdown_waits_for_clients:
  assumes "main_start port n M hash now conns = Started s" and "sys_reach G lruPolicy_methods (sys_init s) y"
  shows "case main_shutdown (srv y) of
      None \<Rightarrow> sessions y \<noteq> Map.empty
    | Some s' \<Rightarrow> sessions y = Map.empty \<and> srv_cancelled s' \<and>
        Store_Set P k v d t (proc_cache (proc s')) = (Some ErrStoreClosed, proc_cache (proc s'))"
proof -
  obtain st where st: "NewStore (main_config n M) hash = Inr st" "s = NewServer ('':'' @ FormatInt port) now conns st"
    using assms(1) by (auto simp: main_start_def split: sum.splits StoreErr.splits)
  have "sys_ok (sys_init s)"
    unfolding st(2) using NewStore_inv [OF st(1) main_config_factory] NewStore_cases(5) [OF st(1)] by (intro sys_ok_init)
  from sys_ok_reach [OF assms(2) this] have y: "finite (dom (sessions y))" "wg (srv y) = int (card (dom (sessions y)))"
    by (simp_all add: sys_ok_def)
  have "wg (Server_Close (srv y)) = wg (srv y)" "srv_cancelled (Server_Close (srv y))"
    by (simp_all add: Server_Close_def Let_def)
  with y show ?thesis
    by (auto simp: main_shutdown_def Let_def store_ops_closed Store_Close_def split: prod.split)
qed

theorem shutdown_waits_for_clients_witness:
  "\<exists>s s'. main_start 6379 2 5 demo_hash 0 (\<lambda>_. demo_conn) = Started s \<and> main_shutdown s = Some s' \<and>
     Store_Set lruPolicy_methods ''k'' (Some ''v'') 0 1 (proc_cache (proc s')) = (Some ErrStoreClosed, proc_cache (proc s'))"
proof -
  obtain s where s: "main_start 6379 2 5 demo_hash 0 (\<lambda>_. demo_conn) = Started s"
    by (simp add: main_start_def main_config_def NewStore_def DefaultConfig_def Let_def make_ok_pointers signed_simps)
  have "srv (sys_init s) = s" "sessions (sys_init s) = Map.empty" by (simp_all add: sys_init_def)
  with shutdown_waits_for_clients [OF s reach_refl, of lruPolicy_methods "''k''" "Some ''v''" 0 1] s
  show ?thesis by (auto split: option.splits)
qed

text \<open>
  A server that cannot bind its port does not stop: the error is printed, the server is as it
  was, and the program ends only after a signal, without an error status.
\<close>

theorem bind_failure_keeps_running:
  assumes "vortex_main pf args hash now conns = Started s"
  shows "\<exists>banner s'. main_serve (Inl e) accepts t s =
      ([banner, Stderr (''Server error: failed to bind TCP socket on '' @ addr s @ '': '' @ e @ ''\<newline>'')], [], s) \<and>
    snd (main_signal s) = Some s'"
proof -
  obtain port n M where "main_start port n M hash now conns = Started s"
    using assms by (auto simp: vortex_main_def split: sum.splits prod.splits)
  then have "listener s = None" "wg s = 0"
    by (auto simp: main_start_def NewServer_def Let_def split: sum.splits StoreErr.splits prod.splits)
  then show ?thesis
    by (auto simp: main_serve_def ListenAndServe_def Listen_def main_signal_def main_shutdown_def Server_Close_def
        Let_def split: prod.split)
qed

end
