(* ===== verification/Load_Test.thy ===== *)
theory Load_Test
  imports Go_Time Resp_Protocol
begin

text \<open>
  \<open>bench/loadtest.go\<close>: the load test's clients and the percentiles of the durations they
  measure. A client sends its requests one at a time and waits for each response; the
  index of a percentile is computed in floating point. The theorems say that a client whose
  requests are answered completes them all, and that the percentiles stay in the list and
  come out in their natural order. Flags and reports are in \<open>Load_Report\<close>.
\<close>

subsection \<open>Floating point\<close>

text \<open>\<open>OpsPerSec\<close> is \<open>float64(n) / totalTime.Seconds()\<close>.\<close>

datatype ops_per_sec = Finite float64 | PosInf

definition seconds_float :: "nat \<Rightarrow> nat \<times> nat" where
  "seconds_float n =
     (let (m1, k1) = float_round (n mod 1000000000) 1000000000
      in float_round (n div 1000000000 * 2 ^ k1 + m1) (2 ^ k1))"

definition opsPerSec :: "nat \<Rightarrow> Duration \<Rightarrow> ops_per_sec" where
  "opsPerSec n totalTime =
     (if totalTime = 0 then PosInf
      else let (m, k) = seconds_float (nat \<bar>sint totalTime\<bar>);
               (q, j) = float_quotient (n * 2 ^ k) m
           in Finite (sgn (sint totalTime) * int q, j))"

text \<open>\<open>int(float64(n) * c)\<close> for the constant \<open>c = a / b\<close>, itself rounded to float64.\<close>

definition percentile_index :: "nat \<Rightarrow> nat \<Rightarrow> nat \<Rightarrow> nat" where
  "percentile_index a b n =
     (let (c, j) = float_round a b; (m, k) = float_round (n * c) (2 ^ j)
      in m div 2 ^ k)"

subsection \<open>The metrics\<close>

record LatencyResult =
  OpsPerSec :: ops_per_sec
  Min :: Duration
  P50 :: Duration
  P95 :: Duration
  P99 :: Duration
  P999 :: Duration
  Max :: Duration
  Avg :: Duration

text \<open>An index out of range is a panic, \<open>None\<close>.\<close>

definition at :: "'a list \<Rightarrow> nat \<Rightarrow> 'a option" where
  "at xs i = (if i < length xs then Some (xs ! i) else None)"

definition calculateMetrics :: "Duration list \<Rightarrow> Duration \<Rightarrow> LatencyResult option" where
  "calculateMetrics durations totalTime =
     (if durations = [] then
        Some \<lparr>OpsPerSec = Finite (0, 0), Min = 0, P50 = 0, P95 = 0, P99 = 0, P999 = 0, Max = 0, Avg = 0\<rparr>
      else
        let ds = sort_key sint durations;
            sum = fold (\<lambda>d s. s + d) ds (0 :: int64);
            n = length ds;
            avg = word_of_int (sint sum sdiv int n);
            p999Index = percentile_index 999 1000 n;
            p999Index = (if p999Index \<ge> n then n - 1 else p999Index)
        in case (at ds (percentile_index 50 100 n), at ds (percentile_index 95 100 n),
                 at ds (percentile_index 99 100 n), at ds p999Index) of
             (Some p50, Some p95, Some p99, Some p999) \<Rightarrow>
               Some \<lparr>OpsPerSec = opsPerSec n totalTime, Min = ds ! 0, P50 = p50, P95 = p95, P99 = p99, P999 = p999,
                     Max = ds ! (n - 1), Avg = avg\<rparr>
           | _ \<Rightarrow> None)"

subsection \<open>The index of a percentile\<close>

text \<open>
  For a constant below \<open>u / 2^10\<close>, the index stays below \<open>n * u / 2^10\<close>; for a constant above
  \<open>l / 2^10\<close> it reaches every whole number up to \<open>n * l / 2^10\<close>.
\<close>

lemma percentile_le:
  assumes "float_round a b = (c, 53)" and "c * 2 ^ 10 \<le> u * 2 ^ 53" and "c < 2 ^ 53" and "0 < n" and "n < 2 ^ 43"
  shows "percentile_index a b n * 2 ^ 10 \<le> n * u"
proof -
  obtain m k where r: "float_round (n * c) (2 ^ 53) = (m, k)" by fastforce
  have "n * c < 2 ^ 43 * 2 ^ 53" using assms(3-5) by (intro mult_strict_mono) simp_all
  then have k: "10 \<le> k" using float_places_ge [of "n * c" 43 "2 ^ 53"] float_round_places [OF r] by simp
  have "n * c * 2 ^ 10 \<le> n * u * 2 ^ 53" using assms(2) by (simp add: mult.assoc)
  then have "m \<le> n * u * 2 ^ (k - 10)" using float_round_le [OF r _ k] by simp
  then have "m * 2 ^ 10 \<le> n * u * (2 ^ (k - 10) * 2 ^ 10)" by simp
  also have "2 ^ (k - 10) * 2 ^ 10 = (2 ^ k :: nat)" using k by (simp only: flip: power_add) simp
  finally have le: "m * 2 ^ 10 \<le> n * u * 2 ^ k" .
  have "m div 2 ^ k * 2 ^ 10 * 2 ^ k = (m div 2 ^ k * 2 ^ k) * 2 ^ 10" by (simp only: mult_ac)
  also have "\<dots> \<le> m * 2 ^ 10" by (rule mult_le_mono1) (rule div_times_less_eq_dividend)
  finally have "m div 2 ^ k * 2 ^ 10 * 2 ^ k \<le> n * u * 2 ^ k" using le by (rule le_trans)
  moreover have "percentile_index a b n = m div 2 ^ k" by (simp only: percentile_index_def assms(1) r Let_def prod.case)
  ultimately show ?thesis by (simp only: mult_le_cancel2) simp
qed

lemma percentile_ge:
  assumes "float_round a b = (c, 53)" and "l * 2 ^ 53 \<le> c * 2 ^ 10" and "q * 2 ^ 10 \<le> n * l"
  shows "q \<le> percentile_index a b n"
proof -
  obtain m k where r: "float_round (n * c) (2 ^ 53) = (m, k)" by fastforce
  have "q * 2 ^ 10 * 2 ^ 53 \<le> n * (l * 2 ^ 53)" using mult_le_mono1 [OF assms(3), of "2 ^ 53"] by (simp only: mult.assoc)
  also have "\<dots> \<le> n * (c * 2 ^ 10)" using assms(2) by (rule mult_le_mono2)
  finally have "q * 2 ^ 53 \<le> n * c" by (simp add: mult.commute)
  then have "q * 2 ^ k \<le> m" using float_round_ge [OF r] by simp
  then have "q \<le> m div 2 ^ k" by (simp add: less_eq_div_iff_mult_less_eq)
  then show ?thesis by (simp only: percentile_index_def assms(1) r Let_def prod.case)
qed

text \<open>The four constants as float64.\<close>

lemma constants:
  "float_round 50 100 = (4503599627370496, 53)" "float_round 95 100 = (8556839292003942, 53)"
  "float_round 99 100 = (8917127262193582, 53)" "float_round 999 1000 = (8998192055486251, 53)"
  by (simp_all add: float_round_def float_places_def scale_up.simps round_half_even_def)

lemma percentile_order:
  assumes "0 < n" and "n < 2 ^ 43"
  shows "percentile_index 50 100 n \<le> percentile_index 95 100 n" "percentile_index 95 100 n \<le> percentile_index 99 100 n"
    "percentile_index 99 100 n \<le> percentile_index 999 1000 n" "percentile_index 999 1000 n < n"
proof -
  have 1: "percentile_index 50 100 n * 2 ^ 10 \<le> n * 768" by (rule percentile_le [OF constants(1) _ _ assms]) simp_all
  have 2: "percentile_index 95 100 n * 2 ^ 10 \<le> n * 1000" by (rule percentile_le [OF constants(2) _ _ assms]) simp_all
  have 3: "percentile_index 99 100 n * 2 ^ 10 \<le> n * 1020" by (rule percentile_le [OF constants(3) _ _ assms]) simp_all
  have 4: "percentile_index 999 1000 n * 2 ^ 10 \<le> n * 1023" by (rule percentile_le [OF constants(4) _ _ assms]) simp_all
  show "percentile_index 50 100 n \<le> percentile_index 95 100 n" by (rule percentile_ge [OF constants(2) _ 1]) simp
  show "percentile_index 95 100 n \<le> percentile_index 99 100 n" by (rule percentile_ge [OF constants(3) _ 2]) simp
  show "percentile_index 99 100 n \<le> percentile_index 999 1000 n" by (rule percentile_ge [OF constants(4) _ 3]) simp
  show "percentile_index 999 1000 n < n" using 4 assms(1) by simp
qed

text \<open>One half is exact, and so is its product.\<close>

lemma percentile_half:
  assumes "0 < n" and "n < 2 ^ 43"
  shows "percentile_index 50 100 n = n div 2"
proof (rule antisym)
  have "percentile_index 50 100 n * 2 ^ 10 \<le> n * 512" by (rule percentile_le [OF constants(1) _ _ assms]) simp_all
  then show "percentile_index 50 100 n \<le> n div 2" by simp
  show "n div 2 \<le> percentile_index 50 100 n" by (rule percentile_ge [OF constants(1), of 512]) simp_all
qed

text \<open>No index leaves the list.\<close>

lemma calculateMetrics_nonempty:
  assumes "durations \<noteq> []" and "length durations < 2 ^ 43"
  shows "calculateMetrics durations totalTime =
    (let ds = sort_key sint durations; n = length durations; p = (\<lambda>a b. ds ! percentile_index a b n)
     in Some \<lparr>OpsPerSec = opsPerSec n totalTime, Min = ds ! 0, P50 = p 50 100, P95 = p 95 100, P99 = p 99 100,
          P999 = p 999 1000, Max = ds ! (n - 1), Avg = word_of_int (sint (fold (\<lambda>d s. s + d) ds (0 :: int64)) sdiv int n)\<rparr>)"
proof -
  note ord = percentile_order [of "length durations"]
  have "percentile_index 50 100 (length durations) < length durations" "percentile_index 95 100 (length durations) < length durations"
    "percentile_index 99 100 (length durations) < length durations" "percentile_index 999 1000 (length durations) < length durations"
    using ord assms by fastforce+
  with assms(1) show ?thesis by (simp add: calculateMetrics_def at_def Let_def)
qed

lemma calculateMetrics_defined: "length durations < 2 ^ 43 \<Longrightarrow> \<exists>r. calculateMetrics durations totalTime = Some r"
  by (cases "durations = []") (simp_all add: calculateMetrics_nonempty Let_def, simp add: calculateMetrics_def)

subsection \<open>The percentiles\<close>

text \<open>
  C31. The metrics of a load test are well defined and ordered: for at least one and
  fewer than \<open>2^43\<close> durations no
  index leaves the list, the minimum and the maximum are those of the input, every
  percentile is one of the durations, the 50th is the upper median of the sorted list, and
  Min, P50, P95, P99, P999 and Max do not decrease.
\<close>

theorem percentiles_ordered:
  assumes "durations \<noteq> []" and "length durations < 2 ^ 43"
  shows "\<exists>r. calculateMetrics durations totalTime = Some r \<and>
    sorted (map sint [Min r, P50 r, P95 r, P99 r, P999 r, Max r]) \<and>
    {Min r, P50 r, P95 r, P99 r, P999 r, Max r} \<subseteq> set durations \<and>
    P50 r = sort_key sint durations ! (length durations div 2) \<and>
    (\<forall>d \<in> set durations. sint (Min r) \<le> sint d \<and> sint d \<le> sint (Max r))"
proof -
  let ?ds = "sort_key sint durations" and ?n = "length durations"
  have n: "0 < ?n" using assms(1) by simp
  note ord = percentile_order [OF n assms(2)]
  have lt: "percentile_index 50 100 ?n < ?n" "percentile_index 95 100 ?n < ?n" "percentile_index 99 100 ?n < ?n"
    using ord by linarith+
  have sorted: "sint (?ds ! i) \<le> sint (?ds ! j)" if "i \<le> j" "j < ?n" for i j
    using sorted_nth_mono [OF sorted_sort_key [of sint durations], of i j] that by simp
  have mem: "?ds ! i \<in> set durations" if "i < ?n" for i
    using nth_mem [of i ?ds] that by simp
  have ext: "sint (?ds ! 0) \<le> sint d \<and> sint d \<le> sint (?ds ! (?n - 1))" if "d \<in> set durations" for d
  proof -
    from that obtain i where "i < ?n" "d = ?ds ! i" by (metis in_set_conv_nth length_sort set_sort)
    then show ?thesis using sorted [of 0 i] sorted [of i "?n - 1"] by simp
  qed
  let ?p = "\<lambda>a b. ?ds ! percentile_index a b ?n"
  have "calculateMetrics durations totalTime = Some \<lparr>OpsPerSec = opsPerSec ?n totalTime, Min = ?ds ! 0,
      P50 = ?p 50 100, P95 = ?p 95 100, P99 = ?p 99 100, P999 = ?p 999 1000, Max = ?ds ! (?n - 1),
      Avg = word_of_int (sint (fold (\<lambda>d s. s + d) ?ds (0 :: int64)) sdiv int ?n)\<rparr>"
    using calculateMetrics_nonempty [OF assms] by (simp add: Let_def)
  moreover have "sorted (map sint [?ds ! 0, ?p 50 100, ?p 95 100, ?p 99 100, ?p 999 1000, ?ds ! (?n - 1)])"
    using ord lt n by (auto intro: sorted)
  ultimately show ?thesis
    using ext mem lt ord(4) n percentile_half [OF n assms(2)] by simp
qed

theorem percentiles_ordered_witness:
  "\<exists>r. calculateMetrics [5, 3, 9, 1] 1000000000 = Some r \<and> P50 r = 5 \<and>
    sorted (map sint [Min r, P50 r, P95 r, P99 r, P999 r, Max r])"
proof -
  have "sort_key sint [5, 3, 9, 1 :: Duration] = [1, 3, 5, 9]" by simp
  moreover have "[5, 3, 9, 1 :: Duration] \<noteq> []" "length [5, 3, 9, 1 :: Duration] < 2 ^ 43" by simp_all
  from percentiles_ordered [OF this, of 1000000000] obtain r where "calculateMetrics [5, 3, 9, 1] 1000000000 = Some r"
    "sorted (map sint [Min r, P50 r, P95 r, P99 r, P999 r, Max r])"
    "P50 r = sort_key sint [5, 3, 9, 1] ! (length [5, 3, 9, 1 :: Duration] div 2)"
    by (elim exE conjE)
  ultimately show ?thesis by (intro exI [of _ r]) (simp del: sorted_wrt.simps)
qed

subsection \<open>The clients\<close>

definition payload :: "nat \<Rightarrow> bytes" where
  "payload payloadSize = map (\<lambda>i. char_of (65 + i mod 26 :: nat)) [0..<payloadSize]"

definition worker_key :: "bool \<Rightarrow> nat \<Rightarrow> nat \<Rightarrow> string" where
  "worker_key hotkey wid i =
     (if hotkey then ''hotkey:contention:1'' else ''key:spread:'' @ Itoa wid @ '':'' @ Itoa (i mod 1000))"

definition worker_request :: "string \<Rightarrow> bytes \<Rightarrow> bool \<Rightarrow> Value list" where
  "worker_request key pay isRead =
     (if isRead then [NewBulkStringFromString ''GET'', NewBulkStringFromString key]
      else [NewBulkStringFromString ''SET'', NewBulkStringFromString key, NewBulkString (Some pay)])"

text \<open>
  The loop of a client from its \<open>i\<close>-th request on, with \<open>n\<close> left: \<open>req i\<close> is the request (the
  choice between reading and writing is random), \<open>dur i\<close> the time it takes, and the bytes
  are those that arrive. Errors of the writer are ignored. The result is the list of
  measured durations, or the error of a read, with which the client gives up; the second
  component counts the completed requests. The outer \<open>Inl\<close> is a panic of the reader.
\<close>

fun worker_loop :: "(nat \<Rightarrow> Value list) \<Rightarrow> (nat \<Rightarrow> Duration) \<Rightarrow> IOErr \<Rightarrow> nat \<Rightarrow> nat \<Rightarrow> bytes \<Rightarrow> bufWriter \<Rightarrow>
    Duration list \<Rightarrow> string + ((RespErr + Duration list) \<times> nat) \<times> bufWriter" where
  "worker_loop req dur fin i 0 s w ls = Inr ((Inr ls, i), w)"
| "worker_loop req dur fin i (Suc n) s w ls =
     (let w1 = snd (WriteArray (Some (req i)) w);
          w2 = snd (Writer_Flush w1)
      in case ReadValue fin s of
           Panic p \<Rightarrow> Inl p
         | Fail e \<Rightarrow> Inr ((Inl e, i), w2)
         | Got _ rest \<Rightarrow> worker_loop req dur fin (Suc i) n rest w2 (ls @ [dur i]))"

text \<open>The whole client: \<open>reads i\<close> is the outcome of the \<open>i\<close>-th random choice.\<close>

definition worker :: "bool \<Rightarrow> nat \<Rightarrow> bytes \<Rightarrow> (nat \<Rightarrow> bool) \<Rightarrow> (nat \<Rightarrow> Duration) \<Rightarrow> IOErr \<Rightarrow> nat \<Rightarrow> bytes \<Rightarrow>
    Conn \<Rightarrow> string + ((RespErr + Duration list) \<times> nat) \<times> bufWriter" where
  "worker hotkey wid pay reads dur fin requestsPerWorker s c =
     worker_loop (\<lambda>i. worker_request (worker_key hotkey wid i) pay (reads i)) dur fin 0 requestsPerWorker s
       (NewWriter c) []"

text \<open>One request on a connection that does not fail.\<close>

lemma request_sent:
  assumes "err w = None" and "buf w = []" and "limit (wr w) = None"
  obtains w2 where "snd (Writer_Flush (snd (WriteArray (Some vs) w))) = w2" "err w2 = None" "buf w2 = []"
    "limit (wr w2) = None" "wire (wr w2) = wire (wr w) @ encode (NewArray (Some vs))"
proof -
  obtain w2 where s: "send (NewArray (Some vs)) w = (None, w2)" and l: "limit (wr w2) = None"
    using writes_unlimited [OF writes_send assms(1,3)] by metis
  have "WriteValue (NewArray (Some vs)) = WriteArray (Some vs)" by (simp add: New_defs fun_eq_iff)
  with s have "snd (Writer_Flush (snd (WriteArray (Some vs) w))) = w2"
    by (auto simp: send_def and_then_def split: prod.splits option.splits)
  with that l send_ok [OF assms(1) s] assms(2) show ?thesis by (simp add: out_def)
qed

lemma worker_loop_completes:
  assumes "err w = None" and "buf w = []" and "limit (wr w) = None" and "list_all wire_ok rs"
  shows "\<exists>w'. worker_loop req dur fin i (length rs) (concat (map encode rs) @ rest) w ls =
      Inr ((Inr (ls @ map dur [i..<i + length rs]), i + length rs), w') \<and>
    wire (wr w') = wire (wr w) @ concat (map (\<lambda>j. encode (NewArray (Some (req j)))) [i..<i + length rs])"
  using assms
proof (induction rs arbitrary: i w ls)
  case (Cons r rs)
  obtain w2 where w2: "snd (Writer_Flush (snd (WriteArray (Some (req i)) w))) = w2" "err w2 = None" "buf w2 = []"
    "limit (wr w2) = None" "wire (wr w2) = wire (wr w) @ encode (NewArray (Some (req i)))"
    using request_sent [OF Cons.prems(1-3)] by metis
  have "ReadValue fin (encode r @ concat (map encode rs) @ rest) = Got r (concat (map encode rs) @ rest)"
    using ReadValue_encode Cons.prems(4) by simp
  moreover have "[i..<i + length (r # rs)] = i # [Suc i..<Suc i + length rs]" by (simp add: upt_rec)
  ultimately show ?case using Cons.IH [OF w2(2-4), of "Suc i" "ls @ [dur i]"] Cons.prems(4) w2(1,5) by auto
qed simp

lemma worker_loop_cut:
  assumes "list_all wire_ok rs" and "ReadValue fin tl_bytes = Fail e" and "length rs < n"
  shows "\<exists>w'. worker_loop req dur fin i n (concat (map encode rs) @ tl_bytes) w ls = Inr ((Inl e, i + length rs), w')"
  using assms
proof (induction rs arbitrary: i w ls n)
  case Nil
  then obtain m where "n = Suc m" by (cases n) auto
  with Nil show ?case by auto
next
  case (Cons r rs)
  obtain m where n: "n = Suc m" using Cons.prems(3) by (cases n) auto
  have "ReadValue fin (encode r @ concat (map encode rs) @ tl_bytes) = Got r (concat (map encode rs) @ tl_bytes)"
    using ReadValue_encode Cons.prems(1) by simp
  with Cons.IH [OF _ Cons.prems(2), of m "Suc i"] Cons.prems(1,3) n show ?case by simp
qed

text \<open>
  A client of the load test sends its requests in order and measures each of them: if
  as many responses arrive as it has requests, it returns that many durations and the
  connection carries exactly its requests. If the responses stop before, it returns no
  duration at all, also not for the requests that were answered, though these are counted
  as completed.
\<close>

theorem worker_all_or_nothing:
  assumes "limit c = None" and "list_all wire_ok rs"
  shows "(\<exists>w'. worker hotkey wid pay reads dur fin (length rs) (concat (map encode rs) @ rest) c =
        Inr ((Inr (map dur [0..<length rs]), length rs), w') \<and>
      wire (wr w') = wire c @ concat (map (\<lambda>j. encode (NewArray (Some (worker_request (worker_key hotkey wid j) pay (reads j))))) [0..<length rs])) \<and>
    (length rs < n \<longrightarrow> (\<exists>w'. worker hotkey wid pay reads dur fin n (concat (map encode rs)) c = Inr ((Inl (IOError fin), length rs), w')))"
proof -
  let ?req = "\<lambda>j. worker_request (worker_key hotkey wid j) pay (reads j)"
  have w: "err (NewWriter c) = None" "buf (NewWriter c) = []" "limit (wr (NewWriter c)) = None" "wr (NewWriter c) = c"
    using assms(1) by (simp_all add: NewWriter_def bufio_NewWriter_def)
  have "ReadValue fin [] = Fail (IOError fin)" by (simp add: ReadValue.simps)
  then show ?thesis
    using worker_loop_completes [OF w(1-3) assms(2), of ?req dur fin 0 rest "[]"]
      worker_loop_cut [OF assms(2), of fin "[]" "IOError fin" n ?req dur 0 "NewWriter c" "[]"] w(4)
    by (auto simp: worker_def)
qed

theorem worker_all_or_nothing_witness:
  "\<exists>w'. worker True 0 (payload 2) (\<lambda>_. True) (\<lambda>_. 7) EOF 1
      (concat (map encode [NewNullBulkString]) @ []) \<lparr>wire = [], limit = None, write_err = []\<rparr> =
    Inr ((Inr (map (\<lambda>_. 7) [0..<length [NewNullBulkString]]), length [NewNullBulkString]), w')"
  using worker_all_or_nothing [of "\<lparr>wire = [], limit = None, write_err = []\<rparr>" "[NewNullBulkString]"
      True 0 "payload 2" "\<lambda>_. True" "\<lambda>_. 7" EOF "[]" 0]
  by (auto simp: wire_ok_New)

end
