(* ===== verification/Go_Fmt.thy ===== *)
theory Go_Fmt
  imports Go_Time Go_Text
begin

text \<open>
  The parts of Go's \<open>fmt\<close> that the load test's report uses: \<open>%.nf\<close> for a float64, padding to
  a width, and \<open>%v\<close> for a \<open>time.Duration\<close>, which is \<open>Duration.String\<close>. A float64 is printed by
  rounding its exact value to the requested number of decimals, ties to even.

  The main fact is that a number of microseconds divided by 1000.0 and printed with three
  decimals shows these microseconds: the error of the division is lost in the rounding.
\<close>

subsection \<open>Formatting\<close>

text \<open>The last \<open>n\<close> decimal digits of a number, with leading zeros.\<close>

fun last_digits :: "nat \<Rightarrow> nat \<Rightarrow> string" where
  "last_digits 0 v = []"
| "last_digits (Suc n) v = last_digits n (v div 10) @ [digit_char (v mod 10)]"

definition format_float :: "nat \<Rightarrow> float64 \<Rightarrow> string" where
  "format_float prec x =
     (let (m, k) = x;
          q = round_half_even (nat \<bar>m\<bar> * 10 ^ prec) (2 ^ k)
      in (if m < 0 then ''-'' else []) @ format_nat (q div 10 ^ prec) @
         (if prec = 0 then [] else ''.'' @ last_digits prec q))"

definition pad_left :: "nat \<Rightarrow> string \<Rightarrow> string" where
  "pad_left width s = replicate (width - length s) (CHR '' '') @ s"

text \<open>\<open>fmtFrac\<close>: the last \<open>prec\<close> digits as a fraction without trailing zeros.\<close>

definition fmtFrac :: "nat \<Rightarrow> nat \<Rightarrow> string" where
  "fmtFrac prec v =
     (let ds = rev (dropWhile (\<lambda>c. c = CHR ''0'') (rev (last_digits prec v)))
      in if ds = [] then [] else ''.'' @ ds)"

definition Duration_mag :: "nat \<Rightarrow> string" where
  "Duration_mag u =
     (if u = 0 then ''0s''
      else if u < 1000 then format_nat u @ ''ns''
      else if u < 1000000 then format_nat (u div 10 ^ 3) @ fmtFrac 3 u @ [CHR 0xC2, CHR 0xB5, CHR ''s'']
      else if u < 1000000000 then format_nat (u div 10 ^ 6) @ fmtFrac 6 u @ ''ms''
      else
        let secs = u div 10 ^ 9; mins = secs div 60; hours = mins div 60
        in (if mins = 0 then []
            else (if hours = 0 then [] else format_nat hours @ ''h'') @ format_nat (mins mod 60) @ ''m'') @
           format_nat (secs mod 60) @ fmtFrac 9 u @ ''s'')"

definition Duration_String :: "Duration \<Rightarrow> string" where
  "Duration_String d = (if sint d < 0 then ''-'' else []) @ Duration_mag (nat \<bar>sint d\<bar>)"

subsection \<open>Rounding\<close>

text \<open>Rounding goes to the nearest multiple, and a number close to a multiple goes to that one.\<close>

lemma round_half_even_error:
  assumes "0 < b"
  shows "2 * \<bar>int (round_half_even a b * b) - int a\<bar> \<le> int b"
proof -
  define q r where "q = a div b" and "r = a mod b"
  have a: "a = q * b + r" and r: "r < b" using assms by (simp_all add: q_def r_def)
  show ?thesis
    using r unfolding round_half_even_def q_def [symmetric] r_def [symmetric] Let_def
    by (auto simp: a algebra_simps)
qed

lemma round_half_even_near:
  assumes "2 * \<bar>int a - int (q * b)\<bar> < int b"
  shows "round_half_even a b = q"
proof -
  have b: "0 < b" using assms by (cases b) auto
  let ?r = "round_half_even a b"
  have "\<bar>x - z\<bar> < d" if "2 * \<bar>x - y\<bar> \<le> d" "2 * \<bar>y - z\<bar> < d" for x y z d :: int
    using that abs_triangle_ineq [of "x - y" "y - z"] by simp
  from this [OF round_half_even_error [OF b, of a] assms] have "\<bar>int (?r * b) - int (q * b)\<bar> < int b" .
  moreover have "int (?r * b) - int (q * b) = (int ?r - int q) * int b" by (simp add: algebra_simps)
  ultimately have "\<bar>int ?r - int q\<bar> * int b < 1 * int b" by (simp add: abs_mult)
  then have "\<bar>int ?r - int q\<bar> < 1" using b by (simp only: mult_less_cancel_right_pos of_nat_0_less_iff)
  then show ?thesis by linarith
qed

text \<open>Dividing by 1000.0 and multiplying back by 1000 with the final rounding is exact.\<close>

lemma thousandths_exact:
  assumes "n < 2 ^ 43 * 1000" and "float_round n 1000 = (m, k)"
  shows "round_half_even (m * 1000) (2 ^ k) = n"
proof (rule round_half_even_near)
  have "10 \<le> k" using float_places_ge [OF assms(1)] float_round_places [OF assms(2)] by simp
  then have "(2 :: int) ^ 10 \<le> 2 ^ k" by (intro power_increasing) simp_all
  then have k: "1024 \<le> (2 :: int) ^ k" by simp
  have m: "m = round_half_even (n * 2 ^ k) 1000" using assms(2) by (auto simp: float_round_def Let_def)
  have "2 * \<bar>int (m * 1000) - int (n * 2 ^ k)\<bar> \<le> 1000"
    unfolding m using round_half_even_error [of 1000 "n * 2 ^ k"] by simp
  then show "2 * \<bar>int (m * 1000) - int (n * 2 ^ k)\<bar> < int (2 ^ k)" using k by simp
qed

theorem format_millis:
  assumes "0 \<le> sint us" and "sint us < 2 ^ 43 * 1000"
  shows "format_float 3 (millis_float us) =
    format_nat (nat (sint us) div 1000) @ ''.'' @ last_digits 3 (nat (sint us))"
proof -
  let ?n = "nat (sint us)"
  obtain m k where r: "float_round ?n 1000 = (m, k)" by fastforce
  have n: "?n < 2 ^ 43 * 1000" using assms by simp
  have "round_half_even (m * 1000) (2 ^ k) = ?n" by (rule thousandths_exact [OF n r])
  moreover have "sgn (sint us) * int m = int m"
  proof (cases "sint us = 0")
    case True
    with r have "m = 0" by (auto simp: float_round_def Let_def round_half_even_def)
    then show ?thesis by simp
  next
    case False
    with assms(1) show ?thesis by simp
  qed
  then have "millis_float us = (int m, k)" using assms n r by (simp add: millis_float_def Let_def)
  ultimately show ?thesis by (simp add: format_float_def Let_def)
qed

end
