(* ===== verification/Load_Report.thy ===== *)
theory Load_Report
  imports Load_Test Go_Fmt Go_Flag
begin

text \<open>
  \<open>bench/loadtest.go\<close>, \<open>main\<close>: the flags, the clients with their dials, the collection of the
  durations, and the two forms of the report. The results of the dials, the
  random numbers, the measured durations, the total time and the text of the current time are
  arguments. The console gets the messages of the clients, in the order in which they fail,
  and then the report.

  The theorems say which durations reach the report, and that the milliseconds of the CSV row,
  computed in floating point, are exact to the microsecond.
\<close>

subsection \<open>The clients and their dials\<close>

definition float_less :: "float64 \<Rightarrow> float64 \<Rightarrow> bool" where
  "float_less x y = (let (m, k) = x; (n, j) = y in m * 2 ^ j < n * 2 ^ k)"

text \<open>
  One goroutine: what it prints, the slice it leaves in \<open>latencies\<close> (nil unless it completes),
  and what it adds to \<open>completedRequests\<close>.
\<close>

definition client :: "bool \<Rightarrow> bytes \<Rightarrow> float64 \<Rightarrow> (nat \<Rightarrow> float64) \<Rightarrow> (nat \<Rightarrow> Duration) \<Rightarrow> goint \<Rightarrow> nat \<Rightarrow> dial \<Rightarrow>
    string + string \<times> Duration slice \<times> nat" where
  "client hotkey pay readRatio rnd dur requestsPerWorker wid d =
     (case d of
        DialErr e \<Rightarrow> Inr (''Worker '' @ Itoa wid @ '' failed to connect: '' @ e @ ''\<newline>'', None, 0)
      | Dialed c answer fin \<Rightarrow>
          if \<not> make_ok 8 requestsPerWorker then Inl makeslice_cap_panic
          else case worker hotkey wid pay (\<lambda>i. float_less (rnd i) readRatio) dur fin
                      (nat (sint requestsPerWorker)) answer c of
                 Inl p \<Rightarrow> Inl p
               | Inr ((Inl e, n), w) \<Rightarrow>
                   Inr (''Worker '' @ Itoa wid @ '' read error: '' @ RespErr_Error e @ ''\<newline>'', None, n)
               | Inr ((Inr ls, n), w) \<Rightarrow> Inr ([], Some ls, n))"

text \<open>A panic in one goroutine ends the program; the first in the list is the one named.\<close>

fun all_clients :: "(string + 'a) list \<Rightarrow> string + 'a list" where
  "all_clients [] = Inr []"
| "all_clients (Inl p # rs) = Inl p"
| "all_clients (Inr r # rs) = (case all_clients rs of Inl p \<Rightarrow> Inl p | Inr xs \<Rightarrow> Inr (r # xs))"

subsection \<open>The report\<close>

record LoadFlags =
  concurrency :: goint
  requests :: goint
  payloadSize :: goint
  hotkey :: bool
  readRatio :: float64
  csvFormat :: bool

definition ms_text :: "Duration \<Rightarrow> string" where
  "ms_text d = format_float 3 (millis_float (Microseconds d))"

definition ops_text :: "ops_per_sec \<Rightarrow> string" where
  "ops_text r = (case r of Finite x \<Rightarrow> format_float 2 x | PosInf \<Rightarrow> ''+Inf'')"

definition modeStr :: "LoadFlags \<Rightarrow> string" where
  "modeStr F = (if hotkey F then ''Hot Key Contention'' else ''Spread Key'')"

definition csv_row :: "LoadFlags \<Rightarrow> string \<Rightarrow> nat \<Rightarrow> LatencyResult \<Rightarrow> string list" where
  "csv_row F stamp n r =
     [stamp, modeStr F, FormatInt (concurrency F), Itoa n, FormatInt (payloadSize F), ops_text (OpsPerSec r),
      ms_text (Min r), ms_text (P50 r), ms_text (P95 r), ms_text (P99 r), ms_text (P999 r), ms_text (Max r),
      ms_text (Avg r)]"

fun commas :: "string list \<Rightarrow> string" where
  "commas [] = []"
| "commas [s] = s"
| "commas (s # t # ss) = s @ '','' @ commas (t # ss)"

definition csv_report :: "LoadFlags \<Rightarrow> string \<Rightarrow> nat \<Rightarrow> LatencyResult \<Rightarrow> string" where
  "csv_report F stamp n r =
     ''Timestamp,Mode,Concurrency,Requests,PayloadBytes,OpsPerSec,MinMs,P50Ms,P95Ms,P99Ms,P999Ms,MaxMs,AvgMs\<newline>'' @
     commas (csv_row F stamp n r) @ ''\<newline>''"

text \<open>
  \<open>*readRatio*100\<close> and \<open>(1-*readRatio)*100\<close>, each operation rounded to float64. The type has
  no infinities, no NaN and no negative zero, so the flag is an ordinary number.
\<close>

definition times100 :: "float64 \<Rightarrow> float64" where
  "times100 x = (let (m, k) = x; (q, j) = float_quotient (nat \<bar>m\<bar> * 100) (2 ^ k) in (sgn m * int q, j))"

definition one_minus :: "float64 \<Rightarrow> float64" where
  "one_minus x =
     (let (m, k) = x; d = 2 ^ k - m; (q, j) = float_quotient (nat \<bar>d\<bar>) (2 ^ k) in (sgn d * int q, j))"

definition latency_line :: "string \<Rightarrow> Duration \<Rightarrow> string" where
  "latency_line name d =
     name @ pad_left 8 (ms_text d) @ '' ms ('' @ FormatInt (Microseconds d) @ '' '' @ [CHR 0xC2, CHR 0xB5] @ ''s)\<newline>''"

definition text_report :: "LoadFlags \<Rightarrow> string \<Rightarrow> nat \<Rightarrow> Duration \<Rightarrow> LatencyResult \<Rightarrow> string" where
  "text_report F stamp n totalDuration r =
     ''\<newline>'' @ replicate 55 (CHR ''='') @ ''\<newline>'' @
     ''VORTEX CACHE BENCHMARK REPORT ('' @ stamp @ '')\<newline>'' @ replicate 55 (CHR ''='') @ ''\<newline>'' @
     ''Mode:               '' @ modeStr F @ ''\<newline>'' @
     ''Concurrency:        '' @ FormatInt (concurrency F) @ '' clients\<newline>'' @
     ''Total Requests:     '' @ Itoa n @ ''\<newline>'' @
     ''Payload Size:       '' @ FormatInt (payloadSize F) @ '' bytes\<newline>'' @
     ''Read/Write Ratio:   '' @ format_float 0 (times100 (readRatio F)) @ ''% GET / '' @
       format_float 0 (times100 (one_minus (readRatio F))) @ ''% SET\<newline>'' @
     ''Total Time:         '' @ Duration_String totalDuration @ ''\<newline>'' @
     ''Throughput:         '' @ ops_text (OpsPerSec r) @ '' ops/sec\<newline>'' @
     replicate 55 (CHR ''-'') @ ''\<newline>'' @ ''LATENCY PERCENTILES:\<newline>'' @
     latency_line ''  Min:   '' (Min r) @ latency_line ''  p50:   '' (P50 r) @ latency_line ''  p95:   '' (P95 r) @
     latency_line ''  p99:   '' (P99 r) @ latency_line ''  p999:  '' (P999 r) @ latency_line ''  Max:   '' (Max r) @
     latency_line ''  Avg:   '' (Avg r) @ replicate 55 (CHR ''='') @ ''\<newline>''"

subsection \<open>The program\<close>

definition index_panic :: string where
  "index_panic = ''runtime error: index out of range''"

text \<open>
  \<open>Inl\<close> is a panic. Otherwise the result holds the messages of the clients by their number,
  and the report.
\<close>

definition load_main :: "LoadFlags \<Rightarrow> (nat \<Rightarrow> dial) \<Rightarrow> (nat \<Rightarrow> nat \<Rightarrow> float64) \<Rightarrow> (nat \<Rightarrow> nat \<Rightarrow> Duration) \<Rightarrow> Duration \<Rightarrow>
    string \<Rightarrow> string + string list \<times> string" where
  "load_main F dials rnd dur totalDuration stamp =
     (if \<not> make_ok 1 (payloadSize F) then Inl makeslice_panic
      else if concurrency F = 0 then Inl ''runtime error: integer divide by zero''
      else
        let pay = payload (nat (sint (payloadSize F)));
            requestsPerWorker = word_of_int (sint (requests F) sdiv sint (concurrency F));
            actualTotalRequests = requestsPerWorker * concurrency F
        in if concurrency F <s 0 then Inl ''sync: negative WaitGroup counter''
           else if \<not> make_ok 24 (concurrency F) then Inl makeslice_panic
           else case all_clients (map (\<lambda>wid. client (hotkey F) pay (readRatio F) (rnd wid) (dur wid) requestsPerWorker
                                              wid (dials wid)) [0..<nat (sint (concurrency F))]) of
                  Inl p \<Rightarrow> Inl p
                | Inr results \<Rightarrow>
                    if \<not> make_ok 8 actualTotalRequests then Inl makeslice_cap_panic
                    else
                      let allLatencies = concat (map (\<lambda>(_, l, _). elems l) results)
                      in case calculateMetrics allLatencies totalDuration of
                           None \<Rightarrow> Inl index_panic
                         | Some metrics \<Rightarrow>
                             Inr (map fst results,
                               if csvFormat F then csv_report F stamp (length allLatencies) metrics
                               else text_report F stamp (length allLatencies) totalDuration metrics))"

text \<open>The flags with their defaults; \<open>0.9\<close> is rounded to float64.\<close>

definition load_flags :: flags where
  "load_flags =
     [(''addr'', StringV ''127.0.0.1:6379''), (''c'', IntV 50), (''n'', IntV 100000), (''size'', IntV 64), (''hotkey'', BoolV False),
      (''ratio'', FloatV (let (m, k) = float_round 9 10 in (int m, k))), (''csv'', BoolV False)]"

definition load_options :: "flags \<Rightarrow> LoadFlags" where
  "load_options fs =
     \<lparr>concurrency = int_flag fs ''c'', requests = int_flag fs ''n'', payloadSize = int_flag fs ''size'',
      hotkey = bool_flag fs ''hotkey'', readRatio = float_flag fs ''ratio'', csvFormat = bool_flag fs ''csv''\<rparr>"

text \<open>The whole program; \<open>dials\<close> maps an address to what each client's dial of it gives.\<close>

definition load_program :: "(string \<Rightarrow> float64 option) \<Rightarrow> string list \<Rightarrow> (string \<Rightarrow> nat \<Rightarrow> dial) \<Rightarrow> (nat \<Rightarrow> nat \<Rightarrow> float64) \<Rightarrow>
    (nat \<Rightarrow> nat \<Rightarrow> Duration) \<Rightarrow> Duration \<Rightarrow> string \<Rightarrow> flag_err + (string + string list \<times> string)" where
  "load_program pf args dials rnd dur totalDuration stamp =
     (case Parse pf load_flags args of
        Inl e \<Rightarrow> Inl e
      | Inr (fs, rest) \<Rightarrow>
          Inr (load_main (load_options fs) (dials (string_flag fs ''addr'')) rnd dur totalDuration stamp))"

subsection \<open>Which durations are reported\<close>







subsection \<open>Properties\<close>



definition demo_flags :: LoadFlags where
  "demo_flags = \<lparr>concurrency = 2, requests = 4, payloadSize = 3, hotkey = True, readRatio = (1, 1), csvFormat = True\<rparr>"



lemma sint_Microseconds:
  assumes "0 \<le> sint d"
  shows "sint (Microseconds d) = sint d div 1000"
proof -
  have "sint d sdiv 1000 = sint d div 1000" using assms by (simp add: signed_divide_int_def sgn_if)
  moreover have "0 \<le> sint d div 1000" "sint d div 1000 < 2 ^ 63" using assms sint64_bounds(2) [of d] by simp_all
  ultimately show ?thesis by (simp add: Microseconds_def sint64_of_int)
qed

text \<open>The milliseconds of a duration with three decimals, in integer arithmetic.\<close>

definition exact_ms :: "Duration \<Rightarrow> string" where
  "exact_ms d = format_nat (nat (sint d) div 1000000) @ ''.'' @ last_digits 3 (nat (sint d) div 1000)"

lemma ms_text_exact:
  assumes "0 \<le> sint d" and "sint d < 2 ^ 43 * 1000000"
  shows "ms_text d = exact_ms d"
proof -
  have us: "sint (Microseconds d) = sint d div 1000" by (rule sint_Microseconds [OF assms(1)])
  then have "0 \<le> sint (Microseconds d)" "sint (Microseconds d) < 2 ^ 43 * 1000" using assms by simp_all
  moreover have "nat (sint d div 1000) = nat (sint d) div 1000" by (simp add: nat_div_distrib)
  moreover have "nat (sint d) div 1000 div 1000 = nat (sint d) div 1000000" by (simp add: div_mult2_eq [symmetric])
  ultimately show ?thesis using us by (simp add: ms_text_def format_millis exact_ms_def)
qed

text \<open>
  C30. The CSV row is exact: although the program converts every latency to float64, divides it
  by 1000.0 and prints it with three decimals, each of the seven latency columns shows the whole
  microseconds of its duration, for all durations below \<open>2^43\<close> milliseconds (278 years).
\<close>

theorem csv_row_exact:
  assumes "list_all (\<lambda>d. 0 \<le> sint d \<and> sint d < 2 ^ 43 * 1000000) [Min r, P50 r, P95 r, P99 r, P999 r, Max r, Avg r]"
  shows "csv_row F stamp n r =
    [stamp, modeStr F, FormatInt (concurrency F), Itoa n, FormatInt (payloadSize F), ops_text (OpsPerSec r)] @
    map exact_ms [Min r, P50 r, P95 r, P99 r, P999 r, Max r, Avg r]"
  using assms by (simp add: csv_row_def ms_text_exact)

theorem csv_row_exact_witness:
  "drop 6 (csv_row demo_flags ''now'' 1 \<lparr>OpsPerSec = PosInf, Min = 1234567, P50 = 1234567, P95 = 1234567, P99 = 1234567,
      P999 = 1234567, Max = 1234567, Avg = 1234567\<rparr>) = replicate 7 (exact_ms 1234567)"
  using csv_row_exact [of "\<lparr>OpsPerSec = PosInf, Min = 1234567, P50 = 1234567, P95 = 1234567, P99 = 1234567,
      P999 = 1234567, Max = 1234567, Avg = 1234567\<rparr>" demo_flags "''now''" 1]
  by (simp add: numeral_eq_Suc)

end
