(* ===== verification/Spec2Isabelle.thy ===== *)
theory Spec2Isabelle
  imports Cluster_Properties Psync_Race Dashboard_Page Vortex_Main Load_Report
begin

text \<open>
  A verification development for Vortex, a cache server in Go (\<open>src/\<close>): a sharded store with
  expiring keys and LRU eviction (\<open>internal/store\<close>), the RESP2 wire protocol
  (\<open>internal/resp\<close>), replication and failover (\<open>internal/replication\<close>), the TCP server and
  its commands (\<open>internal/server\<close>), the server's \<open>main\<close>, and two tools, a dashboard and a load
  test (\<open>cmd\<close>, \<open>bench\<close>).

  \<^bold>\<open>How the parts work together.\<close> The server accepts connections, reads RESP commands, and
  calls the handler, which calls the store. Every successful write of the store notifies
  its listeners; the master manager is one and broadcasts the write as a RESP command to the
  registered replicas. A replica reads that stream and applies it to its own store; it
  watches its master with heartbeats and promotes itself after three misses. The dashboard
  polls nodes with \<open>INFO\<close>.

  \<^bold>\<open>Theories.\<close> Each has the definitions of one part in the order of the code, followed by
  its invariants and lemmas; the theories whose names end in \<open>Properties\<close>, and
  \<open>Resp_Protocol\<close>, \<open>Broadcast_Race\<close>, \<open>Psync_Race\<close>, \<open>Dashboard\<close>, \<open>Dashboard_Page\<close>, \<open>Vortex_Main\<close>,
  \<open>Load_Test\<close> and \<open>Load_Report\<close>, end with the main theorems and their instances on small inputs.

    \<^item> \<open>Vortex_Prelude\<close>: 64-bit integers, Go's maps as association lists with distinct keys,
      slices that may be nil, the panic of \<open>make\<close>; \<open>Go_Text\<close>, \<open>Go_Strings\<close>, \<open>Go_Time\<close>, \<open>Go_Bufio\<close>,
      \<open>Go_Fmt\<close>, \<open>Go_Flag\<close>, \<open>Go_Json\<close>: the parts of the standard library that the programs call.
      Floating point (\<open>Duration.Seconds\<close>, milliseconds, percentiles, printed numbers) is computed
      exactly, as a numerator over a power of two rounded to nearest, ties to even.
    \<^item> \<open>Store_Entry\<close> (\<open>entry.go\<close>), \<open>Eviction_Policy\<close> (\<open>eviction.go\<close>), \<open>LRU_Policy\<close>
      (\<open>lru.go\<close>, the doubly linked list on an explicit heap of nodes), \<open>Shard\<close> (\<open>shard.go\<close>),
      \<open>Shard_Concurrency\<close> (the locked sections of the shard's methods as an interleaving),
      \<open>Cache_Store\<close> (\<open>store.go\<close> with the background sweeper). \<open>Expiring_Map\<close> is the contract
      that shard and store fulfil: a map from keys to values with deadlines, seen at a time.
    \<^item> \<open>Resp_Value\<close>, \<open>Resp_Reader\<close>, \<open>Resp_Writer\<close> (\<open>value.go\<close>, \<open>reader.go\<close>, \<open>writer.go\<close>),
      \<open>Resp_Protocol\<close> (their composition).
    \<^item> \<open>Replication_Stream\<close> (what master and replica make of one command), \<open>Master_Manager\<close>
      (\<open>master.go\<close>), \<open>Replica_Manager\<close> (\<open>replica.go\<close>, \<open>failover.go\<close>), \<open>Failover\<close> (the
      goroutines of a node as a step relation), \<open>Replica_Sync\<close> (\<open>connectAndSync\<close> as a
      function, and what a replica that applies the stream late has), \<open>Replica_Resync\<close> (full resynchronisation),
      \<open>Broadcast_Race\<close> (two broadcasts at the same time), \<open>Psync_Race\<close> (the snapshot and the
      response to \<open>PSYNC\<close> at the same time).
    \<^item> \<open>Server_Handler\<close> (\<open>handler.go\<close>), \<open>Server_Conn\<close> (\<open>server.go\<close>), \<open>Cache_Invariant\<close> (the
      interface of the store to its clients), \<open>Server_System\<close> (all goroutines of a server
      process), \<open>Server_Replies\<close> (a conversation with a client),
      \<open>Cluster_Properties\<close> (two nodes together, and failover seen by a client).
    \<^item> \<open>Vortex_Main\<close> (\<open>cmd/vortex-server\<close>: command line, start, serving, shutdown), \<open>Dashboard\<close>
      and \<open>Dashboard_Page\<close> (\<open>cmd/vortex-dashboard\<close>: polling; HTTP responses, JSON and the script of
      the page), \<open>Load_Test\<close> and \<open>Load_Report\<close> (\<open>bench\<close>: metrics and the loop of a client; flags,
      all clients and the reports).

  \<^bold>\<open>Interfaces.\<close> \<open>eviction_policy\<close> and \<open>recency_policy\<close> state what a shard expects of its
  policy; they are interpreted on the LRU list. \<open>expiring_map\<close> and \<open>lossless_map\<close> are
  fulfilled by shards and by stores, through sublocales of the policy's locale.
  \<open>cache_invariant\<close> takes a property that each single store operation keeps and proves it
  for the replication stream and all client commands; its instances are the invariant of
  the process, the silence of a connection, and the limits of the shards.

  \<^bold>\<open>State and effects.\<close> Structs are records, errors are values, and a panic is a value of its
  own. Methods take and return the state. A store is paired with the state \<open>'e\<close> of its
  listeners, which are functions on it; in a server \<open>'e\<close> is \<open>env\<close>: the connections by name,
  the master manager and its pending removals. What the code does not determine is an
  argument: clock readings, the visiting order of Go's maps, the hash function, the results
  of dialling, listening and accepting, the bytes that arrive on a connection and how it
  ends, the number of bytes a connection accepts before it fails, Unicode's case and space
  tables, the Go version and the process id, random numbers, measured durations and the text of
  the current time. The theorems hold for all of them.

  \<^bold>\<open>Loops.\<close> All loops are total functions. The reader and the loops around it end because
  every frame consumes input; the sweep of a shard ends because every round that repeats has
  removed entries. Only the JSON parser counts its calls; the length of its input is enough.
  A stream that has not ended yet is a finite list of bytes; that later bytes do not change earlier results is a theorem.

  \<^bold>\<open>Concurrency.\<close> The methods of a shard are split at their locks, and the goroutines of a
  node and of a server at their blocking calls; step relations interleave these sections,
  and the invariants hold in all reachable states. At the level of the server a store
  operation with its notification is one step: the theorems about the shard's sections
  justify this for the invariant and for the values, but the code holds only a read lock
  while it broadcasts. \<open>Broadcast_Race\<close> splits a broadcast into its calls on the buffered
  writer and shows what two at the same time can do; the other theorems about the stream
  are about broadcasts one after the other. The transmission of a snapshot is one step there
  too; \<open>Psync_Race\<close> splits it and the response to \<open>PSYNC\<close> into their calls on two writers of one
  connection.

  \<^bold>\<open>Bounds.\<close> \<open>make\<close> panics for a negative length and for one above the address space
  (\<open>maxAlloc\<close>, \<open>2^48\<close> bytes; a \<open>Value\<close> takes 88, a pointer 8); running out of memory below it is
  not modelled. A writer's buffer has 4096 bytes. The percentiles of a load test are shown to be
  in range for fewer than \<open>2^43\<close> durations, for which the products have ten binary places.

  \<^bold>\<open>What the theorems show.\<close>

    \<^item> Store: refinement of the recency list by the LRU list and of a map with deadlines by
      the store, results of the calls included; eviction of exactly the least recently used key; the invariant under every
      interleaving, and that a late purge or touch does not undo a set; one sweep removes
      exactly the expired keys of its sample and counts them; the sweeper cannot be noticed, and ends; snapshots; errors after \<open>Close\<close>; a deadline
      beyond 64 bits is lost.
    \<^item> Protocol: values sent are read back; frames delimit themselves; a frame cut short is
      not accepted; a failing connection holds an initial part of the output; a huge length
      panics.
    \<^item> Replication: a replica that reads the stream follows its master, later by no more than the
      time it takes to apply a command; the synchronising goroutine takes the steps of the
      interleaved model, applies just what it is sent and cleans up; a full
      resynchronisation copies the live keys; a client's write on the master is read by the
      clients of the replica; the stream has no holes; a write between
      snapshot and registration is lost, and two broadcasts at the same time, or a snapshot and
      the response to \<open>PSYNC\<close>, can break the stream; failover happens after three misses in a row and
      only then, and restores writes; role and monitor agree; two ways in which late goroutines act on outdated
      decisions.
    \<^item> Server: the commands as a client sees them; a replica refuses writes; an error changes
      nothing; pipelines are answered in order; the invariant of the process; the command
      line and its limits; shutdown waits for clients; a failure to bind is ignored; the seconds of
      \<open>SET EX\<close> count modulo 64 bits of nanoseconds; an unknown command's name is echoed
      unchecked.
    \<^item> Tools: the dashboard reads back what \<open>INFO\<close> prints; JSON texts are parsed back, and the page
      shows the summary of what was polled (a poll that panics ends the program); a client of the load test sends its requests in
      order and keeps all its measurements or none; the report counts the clients that were
      served to the end; percentiles are in range and in order, and milliseconds are printed
      exactly.

  \<^bold>\<open>Not modelled.\<close> The transport of \<open>net/http\<close>, the markup and style of the dashboard's page (an
  argument of its handler), usage messages of \<open>flag\<close> (only the exit status), the delivery of
  signals. \<open>ParseFloat\<close>, JavaScript's decimal text of a number and the text of the current time
  are arguments. Deadlines and timeouts on connections appear only as the errors they cause.
  The unsynchronised write of \<open>AccessedAt\<close>, a field that nothing reads, is modelled as part of
  its method's step; data races inside one call on a buffered writer are not. The tests.
\<close>

end
